(* ===== verification/ApiTypes.thy ===== *)
theory ApiTypes
  imports GoLib "HOL-Library.Word"
begin

text \<open>
  The API objects of api/v1alpha1 (the three custom resources, their specs and statuses) as records,
  one per Go struct, and the condition list every status carries. A pointer field is an \<open>option\<close>, a
  slice is a list (nil and empty are the same to the code, which only asks for lengths), a map is a
  \<open>gomap\<close>, an int32 is a \<open>32 word\<close> read with \<open>sint\<close>. The fields of the Kubernetes types the objects
  embed (ObjectMeta, LabelSelector, Condition) are the ones the program reads or writes.
\<close>

type_synonym int32 = "32 word"
type_synonym uint32 = "32 word"

section \<open>Kubernetes types the objects embed\<close>

record label_requirement =
  lr_key :: string
  lr_operator :: string
  lr_values :: "string list"

record label_selector =
  ls_match_labels :: "(string, string) gomap"
  ls_match_expressions :: "label_requirement list"

record object_meta =
  om_name :: string
  om_namespace :: string
  om_uid :: string
  om_generation :: int
  om_created :: gotime
  om_labels :: "(string, string) gomap"
  om_annotations :: "(string, string) gomap"

record condition =
  c_type :: string
  c_status :: string
  c_reason :: string
  c_message :: string
  c_observed_generation :: int
  c_last_transition :: gotime

abbreviation condition_true :: string where "condition_true \<equiv> ''True''"
abbreviation condition_false :: string where "condition_false \<equiv> ''False''"

section \<open>api/v1alpha1/fqdnnetworkpolicy\_types.go\<close>

text \<open>PolicyMode is a string type: the code compares it with its two constants.\<close>

type_synonym policy_mode = string

abbreviation PolicyModeEnforce :: policy_mode where "PolicyModeEnforce \<equiv> ''Enforce''"
abbreviation PolicyModeAudit :: policy_mode where "PolicyModeAudit \<equiv> ''Audit''"

record pod_selector_spec =
  pss_selector :: label_selector

record policy_port =
  pp_protocol :: string
  pp_port :: int32

record fqdn_rule =
  fr_match :: string
  fr_ports :: "policy_port list"

record dns_security =
  ds_dnssec_validated :: bool
  ds_ip_churn_rate :: int
  ds_divergence :: int
  ds_resolver_results :: "(string, string list) gomap"
  ds_short_ttl :: bool

record ip_enrichment =
  ie_asn :: string
  ie_org :: string
  ie_country :: string
  ie_enriched_at :: "gotime option"

record security_spec =
  ss_max_cname_depth :: "int32 option"
  ss_block_private :: "bool option"
  ss_block_loopback :: "bool option"
  ss_block_link_local :: "bool option"
  ss_block_on_divergence :: "bool option"
  ss_min_agreement :: "int32 option"

record fqdn_spec =
  sp_pod_selector :: pod_selector_spec
  sp_egress :: "fqdn_rule list"
  sp_mode :: policy_mode
  sp_ttl_override :: "int32 option"
  sp_coredns :: string
  sp_security :: "security_spec option"

record resolved_host =
  rh_hostname :: string
  rh_ips :: "string list"
  rh_last_seen :: gotime
  rh_source :: string
  rh_ttl_seconds :: int32
  rh_cname_chain :: "string list"
  rh_security :: "dns_security option"
  rh_enrichments :: "(string, ip_enrichment) gomap"

section \<open>api/v1alpha1/fqdnegressobservation\_types.go\<close>

record observed_domain =
  od_hostname :: string
  od_first_seen :: gotime
  od_last_seen :: gotime
  od_ports :: "int32 list"
  od_query_count :: int

record observation_spec =
  os_pod_selector :: pod_selector_spec
  os_window :: duration

record observation_status =
  ost_domains :: "observed_domain list"
  ost_complete :: bool
  ost_conditions :: "condition list"
  ost_observed_generation :: int

record egress_observation =
  eo_meta :: object_meta
  eo_spec :: observation_spec
  eo_status :: observation_status

section \<open>The statuses and the two policy objects\<close>

record fqdn_status =
  st_resolved_hosts :: "resolved_host list"
  st_generated :: string
  st_conditions :: "condition list"
  st_observed_generation :: int
  st_unpolicied :: "observed_domain list"

record fqdn_policy =
  fp_meta :: object_meta
  fp_spec :: fqdn_spec
  fp_status :: fqdn_status

record cluster_spec =
  cs_namespace_selector :: label_selector
  cs_pod_selector :: pod_selector_spec
  cs_egress :: "fqdn_rule list"
  cs_mode :: policy_mode
  cs_ttl_override :: "int32 option"
  cs_coredns :: string
  cs_security :: "security_spec option"

record cluster_status =
  cst_resolved_hosts :: "resolved_host list"
  cst_namespaces :: "string list"
  cst_conditions :: "condition list"
  cst_observed_generation :: int

record cluster_policy =
  cp_meta :: object_meta
  cp_spec :: cluster_spec
  cp_status :: cluster_status

section \<open>Conditions\<close>

text \<open>
  setCondition, setClusterCondition and setObservationCondition are the same code over three object
  types: replace the condition of this type in place, keeping its transition time when the status did
  not change, or append it. The clock reading of \<open>metav1.Now()\<close> is the argument \<open>now\<close>.
\<close>

fun upsert_condition :: "condition \<Rightarrow> condition list \<Rightarrow> condition list" where
  "upsert_condition cond [] = [cond]"
| "upsert_condition cond (c # cs) =
     (if c_type c = c_type cond
      then (if c_status c = c_status cond
            then cond\<lparr>c_last_transition := c_last_transition c\<rparr> else cond) # cs
      else c # upsert_condition cond cs)"

definition new_condition ::
  "gotime \<Rightarrow> int \<Rightarrow> string \<Rightarrow> string \<Rightarrow> string \<Rightarrow> string \<Rightarrow> condition" where
  "new_condition now gen ctype status reason msg =
     \<lparr>c_type = ctype, c_status = status, c_reason = reason, c_message = msg,
      c_observed_generation = gen, c_last_transition = now\<rparr>"

definition setCondition ::
  "gotime \<Rightarrow> string \<Rightarrow> string \<Rightarrow> string \<Rightarrow> string \<Rightarrow> fqdn_policy \<Rightarrow> fqdn_policy" where
  "setCondition now ctype status reason msg fp =
     fp\<lparr>fp_status := (fp_status fp)\<lparr>st_conditions :=
       upsert_condition (new_condition now (om_generation (fp_meta fp)) ctype status reason msg)
         (st_conditions (fp_status fp))\<rparr>\<rparr>"

definition setClusterCondition ::
  "gotime \<Rightarrow> string \<Rightarrow> string \<Rightarrow> string \<Rightarrow> string \<Rightarrow> cluster_policy \<Rightarrow> cluster_policy" where
  "setClusterCondition now ctype status reason msg cp =
     cp\<lparr>cp_status := (cp_status cp)\<lparr>cst_conditions :=
       upsert_condition (new_condition now (om_generation (cp_meta cp)) ctype status reason msg)
         (cst_conditions (cp_status cp))\<rparr>\<rparr>"

definition setObservationCondition ::
  "gotime \<Rightarrow> string \<Rightarrow> string \<Rightarrow> string \<Rightarrow> string \<Rightarrow> egress_observation \<Rightarrow> egress_observation" where
  "setObservationCondition now ctype status reason msg obs =
     obs\<lparr>eo_status := (eo_status obs)\<lparr>ost_conditions :=
       upsert_condition (new_condition now (om_generation (eo_meta obs)) ctype status reason msg)
         (ost_conditions (eo_status obs))\<rparr>\<rparr>"

definition find_condition :: "string \<Rightarrow> condition list \<Rightarrow> condition option" where
  "find_condition ctype cs = find (\<lambda>c. c_type c = ctype) cs"

definition condition_status :: "string \<Rightarrow> condition list \<Rightarrow> string option" where
  "condition_status ctype cs = map_option c_status (find_condition ctype cs)"

subsection \<open>The condition list as a keyed store\<close>

lemma find_upsert_same:
  "find_condition (c_type cond) (upsert_condition cond cs) = Some
     (case find_condition (c_type cond) cs of
        Some c \<Rightarrow> if c_status c = c_status cond
                 then cond\<lparr>c_last_transition := c_last_transition c\<rparr> else cond
      | None \<Rightarrow> cond)"
  by (induction cs) (auto simp: find_condition_def)

lemma find_upsert_other:
  "t \<noteq> c_type cond \<Longrightarrow> find_condition t (upsert_condition cond cs) = find_condition t cs"
  by (induction cs) (auto simp: find_condition_def)

lemma types_upsert:
  "map c_type (upsert_condition cond cs) =
     (if c_type cond \<in> c_type ` set cs then map c_type cs else map c_type cs @ [c_type cond])"
  by (induction cs) auto

text \<open>
  The interface a status object gives its controllers: a condition list and a setter that upserts.
  Its three providers are the three setters of the controllers.
\<close>

locale condition_store =
  fixes conditions :: "'o \<Rightarrow> condition list"
    and set_cond :: "gotime \<Rightarrow> string \<Rightarrow> string \<Rightarrow> string \<Rightarrow> string \<Rightarrow> 'o \<Rightarrow> 'o"
    and generation :: "'o \<Rightarrow> int"
  assumes set_upserts: "conditions (set_cond now ty st re msg ob) =
      upsert_condition (new_condition now (generation ob) ty st re msg) (conditions ob)"
    and set_generation: "generation (set_cond now ty st re msg ob) = generation ob"
begin

lemma status_same: "condition_status ty (conditions (set_cond now ty st re msg ob)) = Some st"
  using find_upsert_same [of "new_condition now (generation ob) ty st re msg" "conditions ob"]
  by (auto simp: set_upserts condition_status_def new_condition_def split: option.splits)

lemma found_other:
  "t \<noteq> ty \<Longrightarrow>
   find_condition t (conditions (set_cond now ty st re msg ob)) = find_condition t (conditions ob)"
  by (simp add: set_upserts find_upsert_other new_condition_def)

lemma status_other:
  "t \<noteq> ty \<Longrightarrow>
   condition_status t (conditions (set_cond now ty st re msg ob)) = condition_status t (conditions ob)"
  by (simp add: condition_status_def found_other)

lemma types_distinct:
  "distinct (map c_type (conditions ob)) \<Longrightarrow>
   distinct (map c_type (conditions (set_cond now ty st re msg ob)))"
  by (simp add: set_upserts types_upsert new_condition_def)

lemma transition_kept:
  "find_condition ty (conditions ob) = Some c \<Longrightarrow> c_status c = st \<Longrightarrow>
   map_option c_last_transition (find_condition ty (conditions (set_cond now ty st re msg ob)))
     = Some (c_last_transition c)"
  using find_upsert_same [of "new_condition now (generation ob) ty st re msg" "conditions ob"]
  by (simp add: set_upserts new_condition_def)

lemma transition_moved:
  "find_condition ty (conditions ob) = Some c \<Longrightarrow> c_status c \<noteq> st \<Longrightarrow>
   map_option c_last_transition (find_condition ty (conditions (set_cond now ty st re msg ob)))
     = Some now"
  using find_upsert_same [of "new_condition now (generation ob) ty st re msg" "conditions ob"]
  by (simp add: set_upserts new_condition_def)

end

interpretation policy_conditions: condition_store
  "\<lambda>fp. st_conditions (fp_status fp)" setCondition "\<lambda>fp. om_generation (fp_meta fp)"
  by unfold_locales (simp_all add: setCondition_def)

interpretation cluster_conditions: condition_store
  "\<lambda>cp. cst_conditions (cp_status cp)" setClusterCondition "\<lambda>cp. om_generation (cp_meta cp)"
  by unfold_locales (simp_all add: setClusterCondition_def)

interpretation observation_conditions: condition_store
  "\<lambda>ob. ost_conditions (eo_status ob)" setObservationCondition "\<lambda>ob. om_generation (eo_meta ob)"
  by unfold_locales (simp_all add: setObservationCondition_def)

lemma setCondition_frame [simp]:
  "fp_meta (setCondition now ty st re msg fp) = fp_meta fp"
  "fp_spec (setCondition now ty st re msg fp) = fp_spec fp"
  "st_resolved_hosts (fp_status (setCondition now ty st re msg fp)) = st_resolved_hosts (fp_status fp)"
  "st_generated (fp_status (setCondition now ty st re msg fp)) = st_generated (fp_status fp)"
  "st_unpolicied (fp_status (setCondition now ty st re msg fp)) = st_unpolicied (fp_status fp)"
  "st_observed_generation (fp_status (setCondition now ty st re msg fp)) =
     st_observed_generation (fp_status fp)"
  by (simp_all add: setCondition_def)

lemma setClusterCondition_frame [simp]:
  "cp_meta (setClusterCondition now ty st re msg cp) = cp_meta cp"
  "cp_spec (setClusterCondition now ty st re msg cp) = cp_spec cp"
  "cst_resolved_hosts (cp_status (setClusterCondition now ty st re msg cp)) =
     cst_resolved_hosts (cp_status cp)"
  "cst_namespaces (cp_status (setClusterCondition now ty st re msg cp)) = cst_namespaces (cp_status cp)"
  "cst_observed_generation (cp_status (setClusterCondition now ty st re msg cp)) =
     cst_observed_generation (cp_status cp)"
  by (simp_all add: setClusterCondition_def)

end
