(* ===== verification/NetIP.thy ===== *)
theory NetIP
  imports ApiTypes
begin

unbundle bit_operations_syntax

text \<open>
  The part of package net the program relies on: ParseIP, IP.To4, IP.String, ParseCIDR,
  IPNet.Contains and the address predicates. An address is its 16-byte form, a \<open>128 word\<close>; an IPv4
  address is the mapped address below \<open>::ffff:0:0/96\<close>, which is what ParseIP returns for dotted
  decimal text. The lemmas give membership in a network as equality of the leading bits, and print
  and parse dotted decimal text back and forth.
\<close>

type_synonym ip = "128 word"

section \<open>Digits\<close>

definition digit_val :: "char \<Rightarrow> int option" where
  "digit_val c = (let n = of_char c :: nat in
     if 48 \<le> n \<and> n \<le> 57 then Some (int n - 48) else None)"

definition hex_val :: "char \<Rightarrow> int option" where
  "hex_val c = (let n = of_char c :: nat in
     if 48 \<le> n \<and> n \<le> 57 then Some (int n - 48)
     else if 97 \<le> n \<and> n \<le> 102 then Some (int n - 87)
     else if 65 \<le> n \<and> n \<le> 70 then Some (int n - 55)
     else None)"

fun dec_acc :: "int \<Rightarrow> string \<Rightarrow> int option" where
  "dec_acc acc [] = Some acc"
| "dec_acc acc (c # s) = (case digit_val c of None \<Rightarrow> None | Some d \<Rightarrow> dec_acc (acc * 10 + d) s)"

fun hex_acc :: "int \<Rightarrow> string \<Rightarrow> int option" where
  "hex_acc acc [] = Some acc"
| "hex_acc acc (c # s) = (case hex_val c of None \<Rightarrow> None | Some d \<Rightarrow> hex_acc (acc * 16 + d) s)"

section \<open>Parsing addresses\<close>

text \<open>One field of dotted decimal text: digits, no leading zero, at most 255.\<close>

definition parse_octet :: "string \<Rightarrow> int option" where
  "parse_octet s =
     (if s = [] \<or> (1 < length s \<and> hd s = CHR ''0'') then None
      else (case dec_acc 0 s of None \<Rightarrow> None | Some n \<Rightarrow> if n \<le> 255 then Some n else None))"

definition ipv4_fields :: "string \<Rightarrow> int list option" where
  "ipv4_fields s = (case map parse_octet (split_on CHR ''.'' s) of
     [Some a, Some b, Some c, Some d] \<Rightarrow> Some [a, b, c, d]
   | _ \<Rightarrow> None)"

definition bytes_int :: "int list \<Rightarrow> int" where
  "bytes_int bs = foldl (\<lambda>n b. n * 256 + b) 0 bs"

definition ip_of_v4 :: "32 word \<Rightarrow> ip" where
  "ip_of_v4 w = push_bit 32 0xffff OR ucast w"

definition to4 :: "ip \<Rightarrow> 32 word option" where
  "to4 x = (if drop_bit 32 x = 0xffff then Some (ucast x) else None)"

definition parse_ipv4 :: "string \<Rightarrow> ip option" where
  "parse_ipv4 s = map_option (\<lambda>bs. ip_of_v4 (word_of_int (bytes_int bs))) (ipv4_fields s)"

definition is_hex :: "char \<Rightarrow> bool" where
  "is_hex c \<longleftrightarrow> hex_val c \<noteq> None"

text \<open>
  The loop of IPv6 text: the bytes read so far, the position of an ellipsis, the text left. It stops
  with sixteen bytes, at the end of the text, or with None at an error.
\<close>

function v6_loop :: "int list \<Rightarrow> nat option \<Rightarrow> string \<Rightarrow> (int list \<times> nat option \<times> string) option" where
  "v6_loop bs ell s =
     (if 16 \<le> length bs then Some (bs, ell, s)
      else
        let grp = takeWhile is_hex s; rest = dropWhile is_hex s in
        if grp = [] \<or> 4 < length grp then None
        else if rest \<noteq> [] \<and> hd rest = CHR ''.'' then
          (if ell = None \<and> length bs \<noteq> 12 then None
           else if 16 < length bs + 4 then None
           else (case ipv4_fields s of None \<Rightarrow> None | Some fs \<Rightarrow> Some (bs @ fs, ell, [])))
        else
          let n = the (hex_acc 0 grp); bs' = bs @ [n div 256, n mod 256] in
          if rest = [] then Some (bs', ell, [])
          else if hd rest \<noteq> CHR '':'' then None
          else if tl rest = [] then None
          else if hd (tl rest) = CHR '':'' then
            (if ell \<noteq> None then None
             else if tl (tl rest) = [] then Some (bs', Some (length bs'), [])
             else v6_loop bs' (Some (length bs')) (tl (tl rest)))
          else v6_loop bs' ell (tl rest))"
  by pat_completeness auto
termination
  by (relation "measure (\<lambda>(bs, ell, s). 16 - length bs)") auto

declare v6_loop.simps [simp del]

definition v6_finish :: "int list \<times> nat option \<times> string \<Rightarrow> ip option" where
  "v6_finish = (\<lambda>(bs, ell, s).
     if s \<noteq> [] then None
     else if length bs < 16 then
       (case ell of
          None \<Rightarrow> None
        | Some e \<Rightarrow> Some (word_of_int (bytes_int (take e bs @ replicate (16 - length bs) 0 @ drop e bs))))
     else if ell \<noteq> None then None
     else Some (word_of_int (bytes_int bs)))"

definition parse_ipv6 :: "string \<Rightarrow> ip option" where
  "parse_ipv6 s =
     (if CHR 0x25 \<in> set s then None
      else if has_prefix s ''::'' then
        (if s = ''::'' then Some 0
         else Option.bind (v6_loop [] (Some 0) (drop 2 s)) v6_finish)
      else Option.bind (v6_loop [] None s) v6_finish)"

text \<open>net.ParseIP: the first of the three characters decides the form; a zone is refused.\<close>

definition parse_ip :: "string \<Rightarrow> ip option" where
  "parse_ip s = (case find (\<lambda>c. c = CHR ''.'' \<or> c = CHR '':'' \<or> c = CHR 0x25) s of
     None \<Rightarrow> None
   | Some c \<Rightarrow> if c = CHR ''.'' then parse_ipv4 s
               else if c = CHR '':'' then parse_ipv6 s else None)"

section \<open>Printing addresses\<close>

definition v4_bytes :: "32 word \<Rightarrow> int list" where
  "v4_bytes w = [uint w div 16777216, uint w div 65536 mod 256, uint w div 256 mod 256, uint w mod 256]"

definition v4_string :: "32 word \<Rightarrow> string" where
  "v4_string w = join_str ''.'' (map itoa_int (v4_bytes w))"

definition hex_char :: "int \<Rightarrow> char" where
  "hex_char n = (if n < 10 then char_of (48 + n) else char_of (87 + n))"

function hex_string :: "int \<Rightarrow> string" where
  "hex_string n = (if n < 16 then [hex_char n] else hex_string (n div 16) @ [hex_char (n mod 16)])"
  by pat_completeness auto
termination
  by (relation "measure nat") auto

declare hex_string.simps [simp del]

definition v6_groups :: "ip \<Rightarrow> int list" where
  "v6_groups x = map (\<lambda>i. uint (drop_bit (112 - 16 * i) x AND 0xffff)) [0..<8]"

text \<open>The leftmost longest run of at least two zero groups, as a start and a length.\<close>

fun zero_run :: "int list \<Rightarrow> nat" where
  "zero_run [] = 0"
| "zero_run (g # gs) = (if g = 0 then Suc (zero_run gs) else 0)"

definition longest_zero_run :: "int list \<Rightarrow> nat \<times> nat" where
  "longest_zero_run gs = foldl (\<lambda>(s, l) i.
     let n = zero_run (drop i gs) in if 2 \<le> n \<and> l < n then (i, n) else (s, l)) (0, 0) [0..<length gs]"

definition v6_string :: "ip \<Rightarrow> string" where
  "v6_string x = (let gs = v6_groups x; (s, l) = longest_zero_run gs in
     if l = 0 then join_str '':'' (map hex_string gs)
     else join_str '':'' (map hex_string (take s gs)) @ ''::'' @
          join_str '':'' (map hex_string (drop (s + l) gs)))"

definition ip_string :: "ip \<Rightarrow> string" where
  "ip_string x = (case to4 x of Some w \<Rightarrow> v4_string w | None \<Rightarrow> v6_string x)"

section \<open>Networks\<close>

datatype ipnet = Net4 "32 word" nat | Net6 "128 word" nat

definition net_mask :: "nat \<Rightarrow> 'a::len word" where
  "net_mask n = NOT (mask (LENGTH('a) - n))"

definition parse_cidr :: "string \<Rightarrow> ipnet option" where
  "parse_cidr s = (case split_on CHR ''/'' s of
     [addr, m] \<Rightarrow>
       (case (parse_ip addr, if m = [] then None else dec_acc 0 m) of
          (Some x, Some k) \<Rightarrow> let n = nat k in
            if find (\<lambda>c. c = CHR ''.'' \<or> c = CHR '':'') addr = Some CHR ''.'' then
              (if n \<le> 32 then Some (Net4 (ucast x AND net_mask n) n) else None)
            else (if n \<le> 128 then Some (Net6 (x AND net_mask n) n) else None)
        | _ \<Rightarrow> None)
   | _ \<Rightarrow> None)"

text \<open>IPNet.Contains: both sides as IPv4 when they are, and lengths that differ never match.\<close>

fun net_contains :: "ipnet \<Rightarrow> ip \<Rightarrow> bool" where
  "net_contains (Net4 a n) x =
     (case to4 x of Some w \<Rightarrow> a AND net_mask n = w AND net_mask n | None \<Rightarrow> False)"
| "net_contains (Net6 a n) x =
     (case (to4 a, to4 x) of
        (Some b, Some w) \<Rightarrow> b AND net_mask (n - 96) = w AND net_mask (n - 96)
      | (None, None) \<Rightarrow> a AND net_mask n = x AND net_mask n
      | _ \<Rightarrow> False)"

fun net_string :: "ipnet \<Rightarrow> string" where
  "net_string (Net4 a n) = v4_string a @ ''/'' @ itoa n"
| "net_string (Net6 a n) = ip_string a @ ''/'' @ itoa n"

section \<open>The address predicates of package net\<close>

definition is_loopback :: "ip \<Rightarrow> bool" where
  "is_loopback x = (case to4 x of Some w \<Rightarrow> drop_bit 24 w = 127 | None \<Rightarrow> x = 1)"

definition is_private :: "ip \<Rightarrow> bool" where
  "is_private x = (case to4 x of
     Some w \<Rightarrow> drop_bit 24 w = 10 \<or> drop_bit 20 w = 0xac1 \<or> drop_bit 16 w = 0xc0a8
   | None \<Rightarrow> drop_bit 121 x = 0x7e)"

definition is_link_local_unicast :: "ip \<Rightarrow> bool" where
  "is_link_local_unicast x = (case to4 x of
     Some w \<Rightarrow> drop_bit 16 w = 0xa9fe
   | None \<Rightarrow> drop_bit 118 x = 0x3fa)"

section \<open>Leading bits\<close>

lemma net_mask_eq_iff:
  fixes a w :: "'a::len word"
  assumes "n \<le> LENGTH('a)"
  shows "a AND net_mask n = w AND net_mask n \<longleftrightarrow>
     drop_bit (LENGTH('a) - n) a = drop_bit (LENGTH('a) - n) w"
proof
  assume *: "a AND net_mask n = w AND net_mask n"
  show "drop_bit (LENGTH('a) - n) a = drop_bit (LENGTH('a) - n) w"
  proof (rule bit_word_eqI)
    fix i
    assume "i < LENGTH('a)"
    have "bit (a AND net_mask n) (LENGTH('a) - n + i) = bit (w AND net_mask n) (LENGTH('a) - n + i)"
      using * by simp
    then show "bit (drop_bit (LENGTH('a) - n) a) i = bit (drop_bit (LENGTH('a) - n) w) i"
      by (auto simp: net_mask_def bit_simps dest: bit_imp_le_length)
  qed
next
  assume *: "drop_bit (LENGTH('a) - n) a = drop_bit (LENGTH('a) - n) w"
  show "a AND net_mask n = w AND net_mask n"
  proof (rule bit_word_eqI)
    fix i
    assume i: "i < LENGTH('a)"
    show "bit (a AND net_mask n) i = bit (w AND net_mask n) i"
    proof (cases "i < LENGTH('a) - n")
      case True
      then show ?thesis by (simp add: net_mask_def bit_simps)
    next
      case False
      then have "bit (drop_bit (LENGTH('a) - n) a) (i - (LENGTH('a) - n)) =
          bit (drop_bit (LENGTH('a) - n) w) (i - (LENGTH('a) - n))"
        using * by simp
      with False i show ?thesis by (simp add: net_mask_def bit_simps)
    qed
  qed
qed

lemma bit_ip_of_v4: "bit (ip_of_v4 w) i \<longleftrightarrow> (if i < 32 then bit w i else i < 48)"
proof -
  have "bit (ip_of_v4 w) i \<longleftrightarrow> bit (push_bit 32 (mask 16) OR ucast w :: ip) i"
    by (simp add: ip_of_v4_def mask_eq_exp_minus_1)
  also have "\<dots> \<longleftrightarrow> (if i < 32 then bit w i else i < 48)"
    by (auto simp: bit_or_iff bit_push_bit_iff bit_mask_iff bit_unsigned_iff
        dest: bit_imp_le_length)
  finally show ?thesis .
qed

lemma to4_ip_of_v4 [simp]: "to4 (ip_of_v4 w) = Some w"
proof -
  have "drop_bit 32 (ip_of_v4 w) = mask 16"
    by (rule bit_word_eqI)
      (auto simp: bit_drop_bit_eq bit_ip_of_v4 bit_mask_iff)
  moreover have "ucast (ip_of_v4 w) = w"
    by (rule bit_word_eqI) (simp add: bit_unsigned_iff bit_ip_of_v4)
  ultimately show ?thesis by (simp add: to4_def mask_eq_exp_minus_1)
qed

lemma to4_SomeD: "to4 x = Some w \<Longrightarrow> x = ip_of_v4 w"
proof (rule bit_word_eqI)
  fix i
  assume t: "to4 x = Some w" and i: "i < LENGTH(128)"
  from t have d: "drop_bit 32 x = mask 16" and w: "w = ucast x"
    by (auto simp: to4_def mask_eq_exp_minus_1 split: if_splits)
  show "bit x i = bit (ip_of_v4 w) i"
  proof (cases "i < 32")
    case True
    then show ?thesis by (simp add: bit_ip_of_v4 w bit_unsigned_iff)
  next
    case False
    have "bit (drop_bit 32 x) (i - 32) = bit (mask 16 :: ip) (i - 32)"
      by (simp only: d)
    with False i show ?thesis
      by (auto simp: bit_ip_of_v4 bit_drop_bit_eq bit_mask_iff)
  qed
qed

lemma to4_eq_Some: "to4 x = Some w \<longleftrightarrow> x = ip_of_v4 w"
  by (auto dest: to4_SomeD)

lemma ip_of_v4_inject [simp]: "ip_of_v4 a = ip_of_v4 b \<longleftrightarrow> a = b"
  by (metis option.inject to4_ip_of_v4)

lemma to4_None: "to4 x = None \<Longrightarrow> x \<noteq> ip_of_v4 w"
  by auto

text \<open>A network is the set of the addresses that share its leading bits.\<close>

lemma net4_contains_v4:
  "n \<le> 32 \<Longrightarrow> net_contains (Net4 a n) (ip_of_v4 w) \<longleftrightarrow>
     drop_bit (32 - n) w = drop_bit (32 - n) a"
  using net_mask_eq_iff [where 'a = 32, of n a w] by auto

lemma net4_contains_v6: "to4 x = None \<Longrightarrow> \<not> net_contains (Net4 a n) x"
  by simp

lemma net6_contains_v6:
  "n \<le> 128 \<Longrightarrow> to4 a = None \<Longrightarrow> to4 x = None \<Longrightarrow>
     net_contains (Net6 a n) x \<longleftrightarrow> drop_bit (128 - n) x = drop_bit (128 - n) a"
  using net_mask_eq_iff [where 'a = 128, of n a x] by auto

lemma net6_contains_v4: "to4 a = None \<Longrightarrow> \<not> net_contains (Net6 a n) (ip_of_v4 w)"
  by simp

lemmas net_contains_cases = net4_contains_v4 net4_contains_v6 net6_contains_v6 net6_contains_v4

section \<open>Dotted decimal text and back\<close>

lemma digit_val_digit [simp]: "n < 10 \<Longrightarrow> digit_val (digit_char n) = Some (int n)"
  by (simp add: digit_val_def of_char_digit)

lemma dec_acc_append:
  "dec_acc acc (s @ t) = (case dec_acc acc s of None \<Rightarrow> None | Some n \<Rightarrow> dec_acc n t)"
  by (induction s arbitrary: acc) (auto split: option.splits)

lemma dec_acc_itoa: "dec_acc 0 (itoa n) = Some (int n)"
proof (induction n rule: itoa.induct)
  case (1 n)
  show ?case
  proof (cases "n < 10")
    case True
    then show ?thesis by (simp add: itoa_lt10)
  next
    case False
    have "int (n div 10) * 10 + int (n mod 10) = int n"
      by (metis div_mult_mod_eq of_nat_add of_nat_mult of_nat_numeral)
    with False 1 show ?thesis by (simp add: itoa_ge10 dec_acc_append)
  qed
qed

lemma digit_char_0_iff: "n < 10 \<Longrightarrow> digit_char n = CHR ''0'' \<longleftrightarrow> n = 0"
proof -
  assume n: "n < 10"
  have "digit_char n = CHR ''0'' \<Longrightarrow> n = 0"
  proof -
    assume "digit_char n = CHR ''0''"
    then have "(of_char (digit_char n) :: nat) = of_char CHR ''0''" by simp
    with n show "n = 0" by (simp add: of_char_digit)
  qed
  moreover have "digit_char 0 = CHR ''0''"
  proof -
    have "(of_char (digit_char 0) :: nat) = of_char CHR ''0''" by (simp add: of_char_digit)
    then show ?thesis by (simp only: of_char_eq_iff)
  qed
  ultimately show ?thesis by auto
qed

lemma hd_itoa_0: "1 < length (itoa n) \<Longrightarrow> hd (itoa n) \<noteq> CHR ''0''"
proof (induction n rule: itoa.induct)
  case (1 n)
  have ge: "\<not> n < 10" using 1 by (auto simp: itoa_lt10)
  show ?case
  proof (cases "n div 10 < 10")
    case True
    with ge have "n div 10 \<noteq> 0" by (simp add: div_eq_0_iff)
    with True ge show ?thesis by (simp add: itoa_ge10 itoa_lt10 digit_char_0_iff)
  next
    case False
    then have "1 < length (itoa (n div 10))" by (simp add: itoa_ge10)
    with 1 ge have "hd (itoa (n div 10)) \<noteq> CHR ''0''" by simp
    with ge show ?thesis by (simp add: itoa_ge10)
  qed
qed

lemma parse_octet_itoa: "0 \<le> n \<Longrightarrow> n \<le> 255 \<Longrightarrow> parse_octet (itoa_int n) = Some n"
  using hd_itoa_0 [of "nat n"] by (simp add: parse_octet_def dec_acc_itoa itoa_int_def)

lemma itoa_no: "c \<in> set (itoa n) \<Longrightarrow> 48 \<le> (of_char c :: nat) \<and> (of_char c :: nat) \<le> 57"
  by (auto dest!: itoa_digits simp: of_char_digit)

lemma itoa_int_no:
  "0 \<le> n \<Longrightarrow> c \<in> set (itoa_int n) \<Longrightarrow> 48 \<le> (of_char c :: nat) \<and> (of_char c :: nat) \<le> 57"
  by (auto dest: itoa_no simp: itoa_int_def)

lemma itoa_no_dot: "0 \<le> n \<Longrightarrow> CHR ''.'' \<notin> set (itoa_int n)"
  by (auto dest: itoa_int_no)

lemma v4_bytes_le: "b \<in> set (v4_bytes w) \<Longrightarrow> 0 \<le> b \<and> b \<le> 255"
proof -
  have "uint w < 4294967296" using uint_lt2p [of w] by simp
  then have "uint w div 16777216 < 256" "0 \<le> uint w div 16777216"
    by (simp_all add: pos_imp_zdiv_nonneg_iff div_less_iff_less_mult)
  moreover have "uint w div 65536 mod 256 < 256" "uint w div 256 mod 256 < 256" "uint w mod 256 < 256"
    by simp_all
  moreover assume "b \<in> set (v4_bytes w)"
  ultimately show ?thesis by (auto simp: v4_bytes_def)
qed

lemma split_v4_string: "split_on CHR ''.'' (v4_string w) = map itoa_int (v4_bytes w)"
proof -
  have "CHR ''.'' \<notin> set x" if "x \<in> set (map itoa_int (v4_bytes w))" for x
    using that v4_bytes_le [of _ w] by (auto simp: itoa_no_dot)
  then show ?thesis
    unfolding v4_string_def by (intro split_join) (auto simp: v4_bytes_def)
qed

lemma bytes_int_v4_bytes: "bytes_int (v4_bytes w) = uint w"
proof -
  have e: "n = ((n div 16777216 * 256 + n div 65536 mod 256) * 256 + n div 256 mod 256) * 256 + n mod 256"
    for n :: int
  proof -
    have "n div 65536 = n div 256 div 256" "n div 16777216 = n div 256 div 256 div 256"
      by (simp_all flip: zdiv_zmult2_eq)
    then show ?thesis by (simp only: div_mult_mod_eq)
  qed
  show ?thesis using e [of "uint w"] by (simp add: bytes_int_def v4_bytes_def)
qed

lemma parse_ipv4_v4_string: "parse_ipv4 (v4_string w) = Some (ip_of_v4 w)"
proof -
  have "map parse_octet (map itoa_int (v4_bytes w)) = map Some (v4_bytes w)"
    by (simp add: parse_octet_itoa v4_bytes_le)
  then have "ipv4_fields (v4_string w) = Some (v4_bytes w)"
    by (simp add: ipv4_fields_def split_v4_string v4_bytes_def)
  then show ?thesis by (simp add: parse_ipv4_def bytes_int_v4_bytes)
qed

lemma find_v4_string:
  "find (\<lambda>c. c = CHR ''.'' \<or> c = CHR '':'' \<or> c = CHR 0x25) (v4_string w) = Some CHR ''.''"
proof -
  have none: "find (\<lambda>c. c = CHR ''.'' \<or> c = CHR '':'' \<or> c = CHR 0x25) (itoa_int n) = None"
    if "0 \<le> n" for n
    using that by (auto simp: find_None_iff dest: itoa_int_no)
  have app: "find P (xs @ y # ys) = Some y" if "find P xs = None" "P y" for P and xs ys :: string and y
    using that by (induction xs) (auto split: if_splits)
  show ?thesis unfolding v4_string_def v4_bytes_def
    by (simp add: app [OF none] pos_imp_zdiv_nonneg_iff)
qed

lemma parse_ip_v4_string: "parse_ip (v4_string w) = Some (ip_of_v4 w)"
  by (simp add: parse_ip_def find_v4_string parse_ipv4_v4_string)

lemma parse_ip_string_v4: "to4 x = Some w \<Longrightarrow> parse_ip (ip_string x) = Some x"
  by (simp add: ip_string_def parse_ip_v4_string to4_eq_Some)


section \<open>Address text holds no slash\<close>

lemma set_split_on: "set s \<subseteq> insert d (\<Union>(set ` set (split_on d s)))"
proof (induction s)
  case (Cons c s)
  obtain x xs where "split_on d s = x # xs"
    by (cases "split_on d s") auto
  with Cons show ?case by auto
qed simp

lemma dec_acc_digits: "dec_acc n s = Some k \<Longrightarrow> c \<in> set s \<Longrightarrow> digit_val c \<noteq> None"
  by (induction s arbitrary: n) (auto split: option.splits)

lemma slash_no_digit: "digit_val CHR ''/'' = None"
  by (simp add: digit_val_def)

lemma slash_no_hex: "\<not> is_hex CHR ''/''"
  by (simp add: is_hex_def hex_val_def)

lemma parse_octet_no_slash: "parse_octet f = Some n \<Longrightarrow> CHR ''/'' \<notin> set f"
  by (auto simp: parse_octet_def slash_no_digit split: if_splits option.splits
      dest!: dec_acc_digits [where c = "CHR ''/''"])

lemma ipv4_fields_parts:
  "ipv4_fields s = Some bs \<Longrightarrow> map parse_octet (split_on CHR ''.'' s) = map Some bs"
  by (auto simp: ipv4_fields_def split: list.splits option.splits)

lemma ipv4_fields_no_slash:
  assumes "ipv4_fields s = Some bs"
  shows "CHR ''/'' \<notin> set s"
proof
  assume "CHR ''/'' \<in> set s"
  then obtain f where f: "f \<in> set (split_on CHR ''.'' s)" "CHR ''/'' \<in> set f"
    using set_split_on [of s "CHR ''.''"] by auto
  have "parse_octet f \<in> set (map parse_octet (split_on CHR ''.'' s))" using f by auto
  then obtain n where "parse_octet f = Some n"
    unfolding ipv4_fields_parts [OF assms] by auto
  with f show False by (simp add: parse_octet_no_slash)
qed

lemma takeWhile_hex_no_slash: "CHR ''/'' \<notin> set (takeWhile is_hex s)"
  using slash_no_hex by (auto dest: set_takeWhileD)

lemma v6_loop_no_slash:
  "v6_loop bs ell s = Some (bs', ell', []) \<Longrightarrow> CHR ''/'' \<notin> set s"
proof (induction bs ell s rule: v6_loop.induct)
  case (1 bs ell s)
  define rest where "rest = dropWhile is_hex s"
  have s: "set s = set (takeWhile is_hex s) \<union> set rest"
    by (metis rest_def set_append takeWhile_dropWhile_id)
  have rest: "CHR ''/'' \<notin> set rest \<Longrightarrow> ?case"
    using s takeWhile_hex_no_slash by auto
  consider "16 \<le> length bs" | "length bs < 16" "rest \<noteq> []" "hd rest = CHR ''.''"
    | "length bs < 16" "rest = []" | "length bs < 16" "rest \<noteq> []" "hd rest \<noteq> CHR ''.''"
    by linarith
  then show ?case
  proof cases
    case 1
    with "1.prems" show ?thesis by (simp add: v6_loop.simps [of bs ell s])
  next
    case 2
    with "1.prems" obtain fs where "ipv4_fields s = Some fs"
      by (auto simp: v6_loop.simps [of bs ell s] rest_def Let_def split: if_splits option.splits)
    then show ?thesis by (rule ipv4_fields_no_slash)
  next
    case 3
    then show ?thesis using rest by simp
  next
    case 4
    obtain r rs where r: "rest = r # rs" using 4 by (cases rest) auto
    show ?thesis
    proof (rule rest)
      show "CHR ''/'' \<notin> set rest"
        using 4 "1.prems" "1.IH" r
        by (cases rs)
          (auto simp: v6_loop.simps [of bs ell s] rest_def [symmetric] Let_def split: if_splits)
    qed
  qed
qed


lemma v6_finish_rest: "v6_finish r = Some x \<Longrightarrow> snd (snd r) = []"
  by (auto simp: v6_finish_def split: prod.splits if_splits)

lemma v6_bind_no_slash:
  "Option.bind (v6_loop bs ell s) v6_finish = Some x \<Longrightarrow> CHR ''/'' \<notin> set s"
  by (auto simp: bind_eq_Some_conv dest!: v6_finish_rest dest: v6_loop_no_slash)

lemma parse_ip_no_slash: "parse_ip s = Some x \<Longrightarrow> CHR ''/'' \<notin> set s"
proof -
  assume p: "parse_ip s = Some x"
  have v6: "CHR ''/'' \<notin> set s" if "parse_ipv6 s = Some x"
  proof (cases "has_prefix s ''::''")
    case True
    then obtain t where "s = ''::'' @ t" by (auto simp: has_prefix_iff)
    with that show ?thesis
      by (auto simp: parse_ipv6_def split: if_splits dest: v6_bind_no_slash)
  next
    case False
    with that show ?thesis
      by (auto simp: parse_ipv6_def split: if_splits dest: v6_bind_no_slash)
  qed
  have v4: "CHR ''/'' \<notin> set s" if "parse_ipv4 s = Some x"
    using that by (auto simp: parse_ipv4_def dest: ipv4_fields_no_slash)
  show ?thesis using p v4 v6 by (auto simp: parse_ip_def split: option.splits if_splits)
qed

section \<open>Host routes\<close>

text \<open>
  Address text whose written form and value agree: dotted text for an IPv4 address, colons for any
  other. This is what IP.String prints.
\<close>

definition host_text :: "string \<Rightarrow> ip \<Rightarrow> bool" where
  "host_text s x \<longleftrightarrow> parse_ip s = Some x \<and>
     (find (\<lambda>c. c = CHR ''.'' \<or> c = CHR '':'') s = Some CHR ''.'' \<longleftrightarrow> to4 x \<noteq> None)"

lemma split_cidr:
  "CHR ''/'' \<notin> set s \<Longrightarrow> CHR ''/'' \<notin> set m \<Longrightarrow> split_on CHR ''/'' (s @ ''/'' @ m) = [s, m]"
  using split_on_append [of "CHR ''/''" s m] by (simp add: split_on_no_sep)

lemma net_mask_full: "net_mask LENGTH('a) = (- 1 :: 'a::len word)"
  by (simp add: net_mask_def)

lemma parse_cidr_host4:
  assumes "host_text s x" "to4 x = Some w"
  shows "parse_cidr (s @ ''/32'') = Some (Net4 w 32)"
proof -
  have p: "parse_ip s = Some x" using assms by (simp add: host_text_def)
  have "split_on CHR ''/'' (s @ ''/32'') = [s, ''32'']"
    using split_cidr [of s "''32''"] parse_ip_no_slash [OF p] by simp
  moreover have "dec_acc 0 ''32'' = Some 32" by (simp add: digit_val_def)
  moreover have "ucast x = w" using assms by (auto simp: to4_def split: if_splits)
  ultimately show ?thesis
    using assms p net_mask_full [where 'a = 32]
    by (simp add: parse_cidr_def host_text_def)
qed

lemma parse_cidr_host6:
  assumes "host_text s x" "to4 x = None"
  shows "parse_cidr (s @ ''/128'') = Some (Net6 x 128)"
proof -
  have p: "parse_ip s = Some x" using assms by (simp add: host_text_def)
  have "split_on CHR ''/'' (s @ ''/128'') = [s, ''128'']"
    using split_cidr [of s "''128''"] parse_ip_no_slash [OF p] by simp
  moreover have "dec_acc 0 ''128'' = Some 128" by (simp add: digit_val_def)
  ultimately show ?thesis
    using assms p net_mask_full [where 'a = 128]
    by (simp add: parse_cidr_def host_text_def)
qed

lemma host4_contains: "net_contains (Net4 w 32) y \<longleftrightarrow> y = ip_of_v4 w"
  by (cases "to4 y")
    (auto simp: net4_contains_v4 net4_contains_v6 to4_eq_Some simp del: net_contains.simps)

lemma host6_contains: "to4 x = None \<Longrightarrow> net_contains (Net6 x 128) y \<longleftrightarrow> y = x"
  using net_mask_full [where 'a = 128] by (cases "to4 y") auto


section \<open>IPv6 text and back\<close>

definition hex_digits :: "string \<Rightarrow> bool" where
  "hex_digits s \<longleftrightarrow> (\<forall>c \<in> set s. is_hex c)"

lemma hex_val_chars: "list_all (\<lambda>n. hex_val (hex_char n) = Some n) [0..15]"
  by code_simp

lemma hex_val_char: "0 \<le> n \<Longrightarrow> n < 16 \<Longrightarrow> hex_val (hex_char n) = Some n"
  using hex_val_chars by (simp add: list_all_iff)

lemma hex_string_lt16: "n < 16 \<Longrightarrow> hex_string n = [hex_char n]"
  by (subst hex_string.simps) simp

lemma hex_string_ge16: "\<not> n < 16 \<Longrightarrow> hex_string n = hex_string (n div 16) @ [hex_char (n mod 16)]"
  by (subst hex_string.simps) simp

lemma hex_string_nonempty [simp]: "hex_string n \<noteq> []"
  by (subst hex_string.simps) simp

lemma hex_string_hex: "0 \<le> n \<Longrightarrow> c \<in> set (hex_string n) \<Longrightarrow> is_hex c"
proof (induction n rule: hex_string.induct)
  case (1 n)
  show ?case
  proof (cases "n < 16")
    case True
    with 1 show ?thesis by (auto simp: hex_string_lt16 is_hex_def hex_val_char)
  next
    case False
    have "is_hex (hex_char (n mod 16))" by (simp add: is_hex_def hex_val_char)
    with False 1 show ?thesis by (auto simp: hex_string_ge16 pos_imp_zdiv_nonneg_iff)
  qed
qed

lemma hex_acc_append:
  "hex_acc acc (s @ t) = (case hex_acc acc s of None \<Rightarrow> None | Some n \<Rightarrow> hex_acc n t)"
  by (induction s arbitrary: acc) (auto split: option.splits)

lemma hex_acc_string: "0 \<le> n \<Longrightarrow> hex_acc 0 (hex_string n) = Some n"
proof (induction n rule: hex_string.induct)
  case (1 n)
  show ?case
  proof (cases "n < 16")
    case True
    with 1 show ?thesis by (simp add: hex_string_lt16 hex_val_char)
  next
    case False
    with 1 show ?thesis
      by (simp add: hex_string_ge16 hex_acc_append hex_val_char pos_imp_zdiv_nonneg_iff)
  qed
qed

lemma hex_string_length_pow: "0 < k \<Longrightarrow> n < 16 ^ k \<Longrightarrow> length (hex_string n) \<le> k"
proof (induction k arbitrary: n)
  case (Suc k)
  show ?case
  proof (cases "n < 16")
    case True
    then show ?thesis by (simp add: hex_string_lt16)
  next
    case False
    with Suc.prems have "0 < k" by (cases k) auto
    moreover have "n div 16 < 16 ^ k" using Suc.prems by (simp add: div_less_iff_less_mult)
    ultimately show ?thesis using Suc.IH False by (simp add: hex_string_ge16)
  qed
qed simp

lemma hex_string_length: "n < 65536 \<Longrightarrow> length (hex_string n) \<le> 4"
  by (rule hex_string_length_pow) auto

lemma no_hex_sep: "\<not> is_hex CHR '':''" "\<not> is_hex CHR ''.''" "\<not> is_hex CHR 0x25"
  by (simp_all add: is_hex_def hex_val_def)

lemma takeWhile_hex:
  "0 \<le> g \<Longrightarrow> \<not> is_hex c \<Longrightarrow> takeWhile is_hex (hex_string g @ c # t) = hex_string g"
  "0 \<le> g \<Longrightarrow> \<not> is_hex c \<Longrightarrow> dropWhile is_hex (hex_string g @ c # t) = c # t"
  "0 \<le> g \<Longrightarrow> takeWhile is_hex (hex_string g) = hex_string g"
  "0 \<le> g \<Longrightarrow> dropWhile is_hex (hex_string g) = []"
  by (auto simp: takeWhile_append2 hex_string_hex dropWhile_append2 takeWhile_eq_all_conv)

definition group_bytes :: "int \<Rightarrow> int list" where
  "group_bytes g = [g div 256, g mod 256]"

lemma length_group_bytes [simp]: "length (group_bytes g) = 2"
  by (simp add: group_bytes_def)

abbreviation groups_bytes :: "int list \<Rightarrow> int list" where
  "groups_bytes gs \<equiv> concat (map group_bytes gs)"

definition groups_ok :: "int list \<Rightarrow> bool" where
  "groups_ok gs \<longleftrightarrow> (\<forall>g \<in> set gs. 0 \<le> g \<and> g < 65536)"

lemma length_groups_bytes [simp]: "length (groups_bytes gs) = 2 * length gs"
  by (induction gs) (auto simp: group_bytes_def)

lemma v6_step_end:
  assumes "length bs < 16" "0 \<le> g" "g < 65536"
  shows "v6_loop bs ell (hex_string g) = Some (bs @ group_bytes g, ell, [])"
  using assms hex_string_length [of g]
  by (simp add: v6_loop.simps [of bs ell] takeWhile_hex hex_acc_string group_bytes_def)

lemma v6_step_colon:
  assumes "length bs < 16" "0 \<le> g" "g < 65536" "t \<noteq> []" "hd t \<noteq> CHR '':''"
  shows "v6_loop bs ell (hex_string g @ CHR '':'' # t) = v6_loop (bs @ group_bytes g) ell t"
  using assms hex_string_length [of g]
  by (simp add: v6_loop.simps [of bs ell] takeWhile_hex no_hex_sep hex_acc_string group_bytes_def)

lemma v6_step_ellipsis:
  assumes "length bs < 16" "0 \<le> g" "g < 65536"
  shows "v6_loop bs None (hex_string g @ CHR '':'' # CHR '':'' # t) =
    (if t = [] then Some (bs @ group_bytes g, Some (length bs + 2), [])
     else v6_loop (bs @ group_bytes g) (Some (length bs + 2)) t)"
  using assms hex_string_length [of g]
  by (simp add: v6_loop.simps [of bs None] takeWhile_hex no_hex_sep hex_acc_string group_bytes_def)

abbreviation join_groups :: "int list \<Rightarrow> string" where
  "join_groups gs \<equiv> join_str '':'' (map hex_string gs)"

lemma hd_hex_string: "0 \<le> g \<Longrightarrow> hd (hex_string g @ t) \<noteq> CHR '':''"
  using hex_string_hex [of g "hd (hex_string g)"] no_hex_sep by auto

lemma join_groups_Cons:
  "gs \<noteq> [] \<Longrightarrow>
   join_str '':'' (hex_string g # map hex_string gs) = hex_string g @ CHR '':'' # join_groups gs"
  by (cases gs) auto

lemma hd_join_groups:
  "gs \<noteq> [] \<Longrightarrow> groups_ok gs \<Longrightarrow> join_groups gs @ t \<noteq> [] \<and> hd (join_groups gs @ t) \<noteq> CHR '':''"
  using hd_hex_string by (cases gs; cases "tl gs") (auto simp: groups_ok_def)

lemma v6_loop_join:
  "gs \<noteq> [] \<Longrightarrow> groups_ok gs \<Longrightarrow> length bs + 2 * length gs \<le> 16 \<Longrightarrow>
   v6_loop bs ell (join_groups gs) = Some (bs @ groups_bytes gs, ell, [])"
proof (induction gs arbitrary: bs)
  case (Cons g gs)
  have g: "0 \<le> g" "g < 65536" "groups_ok gs" using Cons.prems by (auto simp: groups_ok_def)
  show ?case
  proof (cases "gs = []")
    case True
    with Cons.prems g show ?thesis by (simp add: v6_step_end)
  next
    case False
    then show ?thesis
      using Cons.prems g Cons.IH [of "bs @ group_bytes g"] hd_join_groups [OF False g(3), of "[]"]
      by (simp add: join_groups_Cons v6_step_colon)
  qed
qed simp

lemma v6_loop_ellipsis:
  "gs \<noteq> [] \<Longrightarrow> groups_ok gs \<Longrightarrow> groups_ok hs \<Longrightarrow> length bs + 2 * length gs + 2 * length hs \<le> 16 \<Longrightarrow>
   v6_loop bs None (join_groups gs @ ''::'' @ join_groups hs) =
     Some (bs @ groups_bytes gs @ groups_bytes hs, Some (length bs + 2 * length gs), [])"
proof (induction gs arbitrary: bs)
  case (Cons g gs)
  have g: "0 \<le> g" "g < 65536" "groups_ok gs" using Cons.prems by (auto simp: groups_ok_def)
  show ?case
  proof (cases "gs = []")
    case True
    show ?thesis
    proof (cases "hs = []")
      case True
      with \<open>gs = []\<close> Cons.prems g show ?thesis by (simp add: v6_step_ellipsis)
    next
      case False
      with \<open>gs = []\<close> Cons.prems g hd_join_groups [OF False Cons.prems(3), of "[]"] show ?thesis
        by (simp add: v6_step_ellipsis v6_loop_join)
    qed
  next
    case False
    then show ?thesis
      using Cons.prems g Cons.IH [of "bs @ group_bytes g"]
        hd_join_groups [OF False g(3), of "''::'' @ join_groups hs"]
      by (simp add: join_groups_Cons v6_step_colon)
  qed
qed simp

lemma zero_run_zeros: "zero_run gs \<le> length gs \<and> take (zero_run gs) gs = replicate (zero_run gs) 0"
  by (induction gs) auto

lemma longest_zero_run_ok:
  assumes "longest_zero_run gs = (s, l)"
  shows "l = 0 \<or> (2 \<le> l \<and> s + l \<le> length gs \<and> take l (drop s gs) = replicate l 0)"
proof -
  define P where "P = (\<lambda>(s, l). l = 0 \<or> (2 \<le> l \<and> s + l \<le> length gs \<and> take l (drop s gs) = replicate l (0 :: int)))"
  define f where "f = (\<lambda>(s, l) i. let n = zero_run (drop i gs) in if 2 \<le> n \<and> l < n then (i, n) else (s, l))"
  have step: "P (f p i)" if "P p" "i < length gs" for p i
  proof -
    have "zero_run (drop i gs) \<le> length gs - i"
      "take (zero_run (drop i gs)) (drop i gs) = replicate (zero_run (drop i gs)) 0"
      using zero_run_zeros [of "drop i gs"] by auto
    with that show ?thesis by (cases p) (auto simp: P_def f_def Let_def)
  qed
  have "P (foldl f p ks)" if "P p" "\<forall>i \<in> set ks. i < length gs" for p ks
    using that
  proof (induction ks arbitrary: p)
    case (Cons i ks)
    then have "P (f p i)" by (simp add: step)
    with Cons show ?case by simp
  qed simp
  from this [of "(0, 0)" "[0..<length gs]"] show ?thesis
    using assms by (simp add: P_def longest_zero_run_def f_def)
qed

lemma bytes_int_append: "bytes_int (bs @ cs) = foldl (\<lambda>n b. n * 256 + b) (bytes_int bs) cs"
  by (simp add: bytes_int_def)

lemma bytes_int_groups:
  "foldl (\<lambda>n b. n * 256 + b) n (groups_bytes gs) = foldl (\<lambda>n g. n * 65536 + g) n gs"
proof (induction gs arbitrary: n)
  case (Cons g gs)
  have "(n * 256 + g div 256) * 256 + g mod 256 = n * 65536 + g" by simp
  with Cons show ?case by (simp add: group_bytes_def ac_simps)
qed simp

lemma v6_group_val: "uint (drop_bit k x AND 0xffff) = uint x div 2 ^ k mod 65536" for x :: ip
proof -
  have "drop_bit k x AND 0xffff = take_bit 16 (drop_bit k x)"
    by (simp add: take_bit_eq_mask mask_eq_exp_minus_1)
  then have "uint (drop_bit k x AND 0xffff) = take_bit 16 (uint (drop_bit k x))"
    by (simp only: unsigned_take_bit_eq)
  also have "uint (drop_bit k x) = drop_bit k (uint x)"
    by (rule bit_eqI) (simp add: bit_unsigned_iff bit_drop_bit_eq)
  finally show ?thesis by (simp only: drop_bit_eq_div take_bit_eq_mod) simp
qed

lemma v6_groups_value: "foldl (\<lambda>n g. n * 65536 + g) 0 (v6_groups x) = uint x"
proof -
  let ?N = "uint x"
  have step: "foldl (\<lambda>n g. n * 65536 + g) 0 (map (\<lambda>i. uint (drop_bit (112 - 16 * i) x AND 0xffff)) [0..<k])
      = ?N div 2 ^ (128 - 16 * k)" if "k \<le> 8" for k
    using that
  proof (induction k)
    case 0
    have "?N < 2 ^ 128" using uint_lt2p [of x] by simp
    then show ?case by simp
  next
    case (Suc k)
    have e: "128 - 16 * Suc k = 112 - 16 * k" "128 - 16 * k = (112 - 16 * k) + 16" using Suc.prems by auto
    have "?N div 2 ^ (128 - 16 * k) = ?N div 2 ^ (112 - 16 * k) div 65536"
      unfolding e(2) power_add by (simp add: zdiv_zmult2_eq)
    with Suc e(1) show ?case by (simp add: v6_group_val)
  qed
  from step [of 8] show ?thesis by (simp add: v6_groups_def)
qed

lemma v6_groups_ok: "groups_ok (v6_groups x)" "length (v6_groups x) = 8"
  by (auto simp: groups_ok_def v6_groups_def v6_group_val)

lemma v6_value: "word_of_int (bytes_int (groups_bytes (v6_groups x))) = x"
  unfolding bytes_int_def bytes_int_groups v6_groups_value by simp

lemma groups_bytes_zeros: "groups_bytes (replicate n 0) = replicate (2 * n) 0"
  by (induction n) (auto simp: group_bytes_def)

definition v6_chars :: "string \<Rightarrow> bool" where
  "v6_chars s \<longleftrightarrow> (\<forall>c \<in> set s. is_hex c \<or> c = CHR '':'')"

lemma v6_chars_join: "groups_ok gs \<Longrightarrow> v6_chars (join_groups gs)"
proof (induction gs)
  case (Cons g gs)
  then show ?case
    using hex_string_hex [of g]
    by (cases "gs = []") (auto simp: v6_chars_def groups_ok_def join_groups_Cons)
qed (simp add: v6_chars_def)

lemma v6_chars_find:
  "v6_chars s \<Longrightarrow> CHR '':'' \<in> set s \<Longrightarrow>
   find (\<lambda>c. c = CHR ''.'' \<or> c = CHR '':'' \<or> c = CHR 0x25) s = Some CHR '':'' \<and>
   find (\<lambda>c. c = CHR ''.'' \<or> c = CHR '':'') s = Some CHR '':''"
  using no_hex_sep by (induction s) (auto simp: v6_chars_def)

lemma v6_chars_no_zone: "v6_chars s \<Longrightarrow> CHR 0x25 \<notin> set s"
  using no_hex_sep by (auto simp: v6_chars_def)

lemma groups_ok_parts: "groups_ok gs \<Longrightarrow> groups_ok (take n gs)" "groups_ok gs \<Longrightarrow> groups_ok (drop n gs)"
  by (auto simp: groups_ok_def dest: in_set_takeD in_set_dropD)

lemma no_ellipsis_prefix: "gs \<noteq> [] \<Longrightarrow> groups_ok gs \<Longrightarrow> \<not> has_prefix (join_groups gs @ t) ''::''"
  using hd_join_groups [of gs t] by (cases "join_groups gs @ t") (auto simp: has_prefix_def)

lemma v6_string_facts:
  "v6_chars (v6_string x) \<and> CHR '':'' \<in> set (v6_string x) \<and> parse_ipv6 (v6_string x) = Some x"
proof -
  let ?gs = "v6_groups x"
  obtain s l where sl: "longest_zero_run ?gs = (s, l)" by (cases "longest_zero_run ?gs")
  note gs = v6_groups_ok [of x]
  have ne: "?gs \<noteq> []" using gs(2) by auto
  show ?thesis
  proof (cases "l = 0")
    case True
    have v: "v6_string x = join_groups ?gs" using True sl by (simp add: v6_string_def Let_def)
    have c: "v6_chars (join_groups ?gs)" by (rule v6_chars_join [OF gs(1)])
    obtain g h hs where gh: "?gs = g # h # hs" using gs(2) by (cases ?gs; cases "tl ?gs") auto
    have "CHR '':'' \<in> set (join_groups ?gs)" unfolding gh by simp
    moreover have "parse_ipv6 (join_groups ?gs) = Some x"
      using v6_chars_no_zone [OF c] no_ellipsis_prefix [OF ne gs(1), of "[]"]
        v6_loop_join [OF ne gs(1), of "[]" None] gs(2) v6_value [of x]
      by (simp add: parse_ipv6_def v6_finish_def)
    ultimately show ?thesis using c v by simp
  next
    case False
    then have r: "2 \<le> l" "s + l \<le> 8" "take l (drop s ?gs) = replicate l 0"
      using longest_zero_run_ok [OF sl] gs(2) by auto
    let ?a = "take s ?gs" and ?b = "drop (s + l) ?gs"
    note ab = groups_ok_parts [OF gs(1)]
    have split: "?gs = ?a @ replicate l 0 @ ?b"
      using r(3) by (metis append_take_drop_id drop_drop add.commute)
    have v: "v6_string x = join_groups ?a @ ''::'' @ join_groups ?b"
      using False sl by (simp add: v6_string_def Let_def)
    have c: "v6_chars (join_groups ?a @ ''::'' @ join_groups ?b)"
      using v6_chars_join [OF ab(1)] v6_chars_join [OF ab(2)] by (auto simp: v6_chars_def)
    have val: "word_of_int (bytes_int (groups_bytes ?a @ replicate (2 * l) 0 @ groups_bytes ?b)) = x"
      using v6_value [of x] split groups_bytes_zeros [of l]
      by (metis concat_append map_append)
    have len: "length ?a = s" "length ?b = 8 - (s + l)" using gs(2) r by auto
    have "parse_ipv6 (join_groups ?a @ ''::'' @ join_groups ?b) = Some x"
    proof (cases "s = 0")
      case True
      show ?thesis
      proof (cases "?b = []")
        case T: True
        then have "bytes_int (replicate (2 * l) 0) = 0 \<Longrightarrow> x = 0" using val True by simp
        moreover have "foldl (\<lambda>n b. n * 256 + b) 0 (replicate k 0) = (0 :: int)" for k
          by (induction k) auto
        ultimately have "x = 0" by (simp add: bytes_int_def)
        with True T show ?thesis by (simp add: parse_ipv6_def has_prefix_def)
      next
        case F: False
        have "v6_loop [] (Some 0) (join_groups ?b) = Some (groups_bytes ?b, Some 0, [])"
          using v6_loop_join [OF F ab(2), of "[]" "Some 0"] gs(2) by simp
        moreover have "join_groups ?b \<noteq> []" using hd_join_groups [OF F ab(2), of "[]"] by simp
        ultimately show ?thesis
          using v6_chars_no_zone [OF c] True val r len
          by (simp add: parse_ipv6_def has_prefix_def v6_finish_def diff_mult_distrib2)
      qed
    next
      case False
      then have ane: "?a \<noteq> []" using ne by simp
      have "v6_loop [] None (join_groups ?a @ ''::'' @ join_groups ?b) =
          Some (groups_bytes ?a @ groups_bytes ?b, Some (2 * s), [])"
        using v6_loop_ellipsis [OF ane ab(1) ab(2), of "[]"] len r by simp
      moreover have "16 - (2 * s + 2 * (8 - (s + l))) = 2 * l" "2 * s + 2 * (8 - (s + l)) < 16"
        using r by auto
      ultimately show ?thesis
        using v6_chars_no_zone [OF c] no_ellipsis_prefix [OF ane ab(1)] val r len
        by (simp add: parse_ipv6_def v6_finish_def)
    qed
    with c v show ?thesis by simp
  qed
qed

lemma parse_ip_string: "parse_ip (ip_string x) = Some x"
proof (cases "to4 x")
  case None
  with v6_string_facts [of x] v6_chars_find [of "v6_string x"] show ?thesis
    by (simp add: ip_string_def parse_ip_def)
qed (rule parse_ip_string_v4)

lemma find_v4_colon:
  "find (\<lambda>c. c = CHR ''.'' \<or> c = CHR '':'') (v4_string w) = Some CHR ''.''"
proof -
  have none: "find (\<lambda>c. c = CHR ''.'' \<or> c = CHR '':'') (itoa_int n) = None" if "0 \<le> n" for n
    using that by (auto simp: find_None_iff dest: itoa_int_no)
  have app: "find P (xs @ y # ys) = Some y" if "find P xs = None" "P y" for P and xs ys :: string and y
    using that by (induction xs) (auto split: if_splits)
  show ?thesis unfolding v4_string_def v4_bytes_def
    by (simp add: app [OF none] pos_imp_zdiv_nonneg_iff)
qed

lemma host_text_string: "host_text (ip_string x) x"
proof (cases "to4 x")
  case None
  with v6_string_facts [of x] v6_chars_find [of "v6_string x"] show ?thesis
    by (simp add: host_text_def parse_ip_string) (simp add: ip_string_def)
next
  case (Some w)
  then show ?thesis
    using find_v4_colon [of w] by (simp add: host_text_def parse_ip_string) (simp add: ip_string_def)
qed

end
