(* ===== verification/IpFilter.thy ===== *)
theory IpFilter
  imports NetIP
begin

text \<open>
  internal/controller/ip\_filter.go: the two filters between the resolver and the NetworkPolicy. The
  consensus filter keeps the addresses enough upstream resolvers returned; the block filter drops
  private, loopback and link-local addresses unless the policy opts out. A range over the results map
  only feeds counters, so its order does not show (\<open>count_agreement_lookup\<close>).
\<close>

section \<open>The blocked networks\<close>

record blocked_ip =
  bi_ip :: string
  bi_cidr :: string
  bi_field :: string

definition blocked_message :: "blocked_ip \<Rightarrow> string \<Rightarrow> string" where
  "blocked_message b hostname =
     hostname @ '' resolved to private IP '' @ bi_ip b @ '' (blocked by security.'' @ bi_field b @ '')''"

text \<open>None is the panic of a malformed literal at package initialisation.\<close>

fun mustParseCIDRs :: "string list \<Rightarrow> ipnet list option" where
  "mustParseCIDRs [] = Some []"
| "mustParseCIDRs (c # cs) = (case parse_cidr c of
     None \<Rightarrow> None
   | Some n \<Rightarrow> map_option (\<lambda>ns. n # ns) (mustParseCIDRs cs))"

definition private_cidrs :: "string list" where
  "private_cidrs = [''10.0.0.0/8'', ''172.16.0.0/12'', ''192.168.0.0/16'', ''100.64.0.0/10'']"

definition loopback_cidrs :: "string list" where
  "loopback_cidrs = [''127.0.0.0/8'', ''::1/128'']"

definition link_local_cidrs :: "string list" where
  "link_local_cidrs = [''169.254.0.0/16'', ''fe80::/10'']"

definition privateNets :: "ipnet list" where
  "privateNets = the (mustParseCIDRs private_cidrs)"

definition loopbackNets :: "ipnet list" where
  "loopbackNets = the (mustParseCIDRs loopback_cidrs)"

definition linkLocalNets :: "ipnet list" where
  "linkLocalNets = the (mustParseCIDRs link_local_cidrs)"

fun matchingCIDR :: "ip \<Rightarrow> ipnet list \<Rightarrow> ipnet option" where
  "matchingCIDR x [] = None"
| "matchingCIDR x (n # ns) = (if net_contains n x then Some n else matchingCIDR x ns)"

section \<open>Consensus\<close>

record rejected_ip =
  ri_ip :: string
  ri_agreement :: int
  ri_required :: int

definition rejected_message :: "rejected_ip \<Rightarrow> string \<Rightarrow> string" where
  "rejected_message c hostname =
     hostname @ '' resolved to '' @ ri_ip c @ '', but only '' @ itoa_int (ri_agreement c) @ '' of '' @
     itoa_int (ri_required c) @
     '' required resolvers agreed on it (blocked by security.minResolverAgreement)''"

definition count_of :: "(string, int) gomap \<Rightarrow> string \<Rightarrow> int" where
  "count_of m ip = (case map_of m ip of None \<Rightarrow> 0 | Some n \<Rightarrow> n)"

fun count_ips :: "string list \<Rightarrow> (string, int) gomap \<Rightarrow> (string, int) gomap" where
  "count_ips [] m = m"
| "count_ips (ip # ips) m = count_ips ips (put ip (count_of m ip + 1) m)"

fun count_agreement :: "(string, string list) gomap \<Rightarrow> (string, int) gomap \<Rightarrow> (string, int) gomap" where
  "count_agreement [] m = m"
| "count_agreement ((u, ips) # rs) m = count_agreement rs (count_ips ips m)"

fun consensus_loop ::
  "(string, int) gomap \<Rightarrow> int \<Rightarrow> string list \<Rightarrow> string list \<times> rejected_ip list" where
  "consensus_loop ag k [] = ([], [])"
| "consensus_loop ag k (ip # ips) =
     (let (al, rj) = consensus_loop ag k ips in
      if k \<le> count_of ag ip then (ip # al, rj)
      else (al, \<lparr>ri_ip = ip, ri_agreement = count_of ag ip, ri_required = k\<rparr> # rj))"

definition filterByConsensus ::
  "string list \<Rightarrow> (string, string list) gomap \<Rightarrow> int \<Rightarrow> string list \<times> rejected_ip list" where
  "filterByConsensus ips results k =
     (if results = [] \<or> k \<le> 1 then (ips, [])
      else consensus_loop (count_agreement results []) k ips)"

section \<open>Private, loopback and link-local addresses\<close>

definition doBlock :: "security_spec option \<Rightarrow> (security_spec \<Rightarrow> bool option) \<Rightarrow> bool" where
  "doBlock sec field = (case sec of
     None \<Rightarrow> True
   | Some s \<Rightarrow> (case field s of None \<Rightarrow> True | Some b \<Rightarrow> b))"

fun filterBlockedIPs :: "string list \<Rightarrow> security_spec option \<Rightarrow> string list \<times> blocked_ip list" where
  "filterBlockedIPs [] sec = ([], [])"
| "filterBlockedIPs (s # ips) sec =
     (let (al, bl) = filterBlockedIPs ips sec in
      case parse_ip s of
        None \<Rightarrow> (s # al, bl)
      | Some x \<Rightarrow>
         (case if doBlock sec ss_block_loopback then matchingCIDR x loopbackNets else None of
            Some n \<Rightarrow> (al, \<lparr>bi_ip = s, bi_cidr = net_string n, bi_field = ''blockLoopback''\<rparr> # bl)
          | None \<Rightarrow>
         (case if doBlock sec ss_block_private then matchingCIDR x privateNets else None of
            Some n \<Rightarrow> (al, \<lparr>bi_ip = s, bi_cidr = net_string n, bi_field = ''blockPrivateIPs''\<rparr> # bl)
          | None \<Rightarrow>
         (case if doBlock sec ss_block_link_local then matchingCIDR x linkLocalNets else None of
            Some n \<Rightarrow> (al, \<lparr>bi_ip = s, bi_cidr = net_string n, bi_field = ''blockLinkLocal''\<rparr> # bl)
          | None \<Rightarrow> (s # al, bl)))))"

section \<open>What the networks hold\<close>

text \<open>The literals parse, so package initialisation does not panic, and these are the networks.\<close>

lemma must_parse_private:
  "mustParseCIDRs private_cidrs = Some
     [Net4 0x0a000000 8, Net4 0xac100000 12, Net4 0xc0a80000 16, Net4 0x64400000 10]"
  by code_simp

lemma must_parse_loopback: "mustParseCIDRs loopback_cidrs = Some [Net4 0x7f000000 8, Net6 1 128]"
  by code_simp

lemma must_parse_link_local:
  "mustParseCIDRs link_local_cidrs = Some
     [Net4 0xa9fe0000 16, Net6 0xfe800000000000000000000000000000 10]"
  by code_simp

lemma privateNets_eq:
  "privateNets = [Net4 0x0a000000 8, Net4 0xac100000 12, Net4 0xc0a80000 16, Net4 0x64400000 10]"
  by (simp add: privateNets_def must_parse_private)

lemma loopbackNets_eq: "loopbackNets = [Net4 0x7f000000 8, Net6 1 128]"
  by (simp add: loopbackNets_def must_parse_loopback)

lemma linkLocalNets_eq:
  "linkLocalNets = [Net4 0xa9fe0000 16, Net6 0xfe800000000000000000000000000000 10]"
  by (simp add: linkLocalNets_def must_parse_link_local)

lemma matchingCIDR_None: "matchingCIDR x ns = None \<longleftrightarrow> (\<forall>n \<in> set ns. \<not> net_contains n x)"
  by (induction ns) auto

lemma matchingCIDR_Some: "matchingCIDR x ns = Some n \<Longrightarrow> n \<in> set ns \<and> net_contains n x"
  by (induction ns) (auto split: if_splits)

text \<open>
  The address ranges as their definitions (RFC 1918, RFC 6598, RFC 1122, RFC 3927, RFC 4291) write
  them: the leading bits of the address.
\<close>

definition private_range :: "ip \<Rightarrow> bool" where
  "private_range x = (case to4 x of
     Some w \<Rightarrow> drop_bit 24 w = 10 \<or> drop_bit 20 w = 0xac1 \<or> drop_bit 16 w = 0xc0a8 \<or>
       drop_bit 22 w = 0x191
   | None \<Rightarrow> False)"

definition loopback_range :: "ip \<Rightarrow> bool" where
  "loopback_range x = (case to4 x of Some w \<Rightarrow> drop_bit 24 w = 127 | None \<Rightarrow> x = 1)"

definition link_local_range :: "ip \<Rightarrow> bool" where
  "link_local_range x = (case to4 x of
     Some w \<Rightarrow> drop_bit 16 w = 0xa9fe | None \<Rightarrow> drop_bit 118 x = 0x3fa)"

lemmas matching_simps = matchingCIDR_None privateNets_eq loopbackNets_eq linkLocalNets_eq
  net_contains_cases private_range_def loopback_range_def link_local_range_def

lemma to4_one: "to4 1 = None"
  by code_simp

lemma to4_fe80: "to4 0xfe800000000000000000000000000000 = None"
  by code_simp

lemma matching_private: "matchingCIDR x privateNets = None \<longleftrightarrow> \<not> private_range x"
  by (cases "to4 x") (auto simp: matching_simps to4_eq_Some simp del: net_contains.simps)

lemma matching_loopback: "matchingCIDR x loopbackNets = None \<longleftrightarrow> \<not> loopback_range x"
  by (cases "to4 x") (auto simp: matching_simps to4_eq_Some to4_one simp del: net_contains.simps)

lemma matching_link_local: "matchingCIDR x linkLocalNets = None \<longleftrightarrow> \<not> link_local_range x"
  by (cases "to4 x") (auto simp: matching_simps to4_eq_Some to4_fe80 simp del: net_contains.simps)

section \<open>The consensus filter\<close>

lemma count_ips_lookup: "count_of (count_ips ips m) ip = count_of m ip + int (count_list ips ip)"
  by (induction ips arbitrary: m) (auto simp: count_of_def)

lemma count_agreement_lookup:
  "count_of (count_agreement rs m) ip =
     count_of m ip + (\<Sum>(u, ips)\<leftarrow>rs. int (count_list ips ip))"
  by (induction rs arbitrary: m) (auto simp: count_ips_lookup)

text \<open>When no resolver lists an address twice, the counter is the number of resolvers.\<close>

definition resolvers_of :: "(string, string list) gomap \<Rightarrow> string \<Rightarrow> string set" where
  "resolvers_of rs ip = {u. \<exists>ips. map_of rs u = Some ips \<and> ip \<in> set ips}"

lemma resolvers_of_Cons:
  assumes "gomap_ok ((u, ips) # rs)"
  shows "resolvers_of ((u, ips) # rs) ip =
    (if ip \<in> set ips then insert u (resolvers_of rs ip) else resolvers_of rs ip)"
    and "u \<notin> resolvers_of rs ip"
proof -
  have "map_of rs u = None"
    using assms by (simp add: gomap_ok_def map_of_eq_None_iff)
  then show "u \<notin> resolvers_of rs ip" by (simp add: resolvers_of_def)
  show "resolvers_of ((u, ips) # rs) ip =
    (if ip \<in> set ips then insert u (resolvers_of rs ip) else resolvers_of rs ip)"
    using \<open>map_of rs u = None\<close> by (auto simp: resolvers_of_def)
qed

lemma finite_resolvers_of: "finite (resolvers_of rs ip)"
proof (rule finite_subset)
  show "resolvers_of rs ip \<subseteq> dom (map_of rs)" by (auto simp: resolvers_of_def)
qed (simp add: finite_dom_map_of)

lemma agreement_card:
  assumes "gomap_ok rs" and "\<And>u ips. (u, ips) \<in> set rs \<Longrightarrow> distinct ips"
  shows "count_of (count_agreement rs []) ip = int (card (resolvers_of rs ip))"
proof -
  have "(\<Sum>(u, ips)\<leftarrow>rs. int (count_list ips ip)) = int (card (resolvers_of rs ip))"
    using assms
  proof (induction rs)
    case Nil
    then show ?case by (simp add: resolvers_of_def)
  next
    case (Cons r rs)
    obtain u ips where r: "r = (u, ips)" by (cases r)
    have ok: "gomap_ok rs" using Cons.prems(1) by (simp add: gomap_ok_def)
    have d: "distinct ips" using Cons.prems(2) r by auto
    have c: "count_list ips ip = (if ip \<in> set ips then 1 else 0)"
      using d by (induction ips) auto
    show ?case
      using Cons.IH [OF ok] Cons.prems resolvers_of_Cons [of u ips rs ip] finite_resolvers_of [of rs ip]
      by (auto simp: r c)
  qed
  then show ?thesis by (simp add: count_agreement_lookup) (simp add: count_of_def)
qed

lemma consensus_loop_eq:
  "consensus_loop ag k ips =
     (filter (\<lambda>ip. k \<le> count_of ag ip) ips,
      map (\<lambda>ip. \<lparr>ri_ip = ip, ri_agreement = count_of ag ip, ri_required = k\<rparr>)
        (filter (\<lambda>ip. \<not> k \<le> count_of ag ip) ips))"
  by (induction ips) auto

lemma filterByConsensus_subset: "set (fst (filterByConsensus ips rs k)) \<subseteq> set ips"
  by (auto simp: filterByConsensus_def consensus_loop_eq)

section \<open>The block filter\<close>

text \<open>The verdict on one address string: the field that blocks it, if one does.\<close>

definition block_field :: "security_spec option \<Rightarrow> string \<Rightarrow> string option" where
  "block_field sec s = (case parse_ip s of
     None \<Rightarrow> None
   | Some x \<Rightarrow>
       if doBlock sec ss_block_loopback \<and> loopback_range x then Some ''blockLoopback''
       else if doBlock sec ss_block_private \<and> private_range x then Some ''blockPrivateIPs''
       else if doBlock sec ss_block_link_local \<and> link_local_range x then Some ''blockLinkLocal''
       else None)"

lemma block_field_match:
  "block_field sec s = (case parse_ip s of
     None \<Rightarrow> None
   | Some x \<Rightarrow>
       if doBlock sec ss_block_loopback \<and> matchingCIDR x loopbackNets \<noteq> None
       then Some ''blockLoopback''
       else if doBlock sec ss_block_private \<and> matchingCIDR x privateNets \<noteq> None
       then Some ''blockPrivateIPs''
       else if doBlock sec ss_block_link_local \<and> matchingCIDR x linkLocalNets \<noteq> None
       then Some ''blockLinkLocal''
       else None)"
  by (simp add: block_field_def matching_private matching_loopback matching_link_local
      split: option.split)

lemma filterBlocked_Cons:
  "fst (filterBlockedIPs (s # ips) sec) =
     (if block_field sec s = None then s # fst (filterBlockedIPs ips sec)
      else fst (filterBlockedIPs ips sec))"
  "map (\<lambda>b. (bi_ip b, bi_field b)) (snd (filterBlockedIPs (s # ips) sec)) =
     (case block_field sec s of
        None \<Rightarrow> map (\<lambda>b. (bi_ip b, bi_field b)) (snd (filterBlockedIPs ips sec))
      | Some f \<Rightarrow> (s, f) # map (\<lambda>b. (bi_ip b, bi_field b)) (snd (filterBlockedIPs ips sec)))"
  by (auto simp: block_field_match split: prod.split option.split)

lemma filterBlocked_allowed:
  "fst (filterBlockedIPs ips sec) = filter (\<lambda>s. block_field sec s = None) ips"
  by (induction ips) (simp_all add: filterBlocked_Cons del: filterBlockedIPs.simps(2))

lemma filterBlocked_blocked:
  "map (\<lambda>b. (bi_ip b, bi_field b)) (snd (filterBlockedIPs ips sec)) =
     map (\<lambda>s. (s, the (block_field sec s))) (filter (\<lambda>s. block_field sec s \<noteq> None) ips)"
  by (induction ips) (auto simp add: filterBlocked_Cons simp del: filterBlockedIPs.simps(2))

lemma filterBlocked_none_iff:
  "snd (filterBlockedIPs ips sec) = [] \<longleftrightarrow> (\<forall>s \<in> set ips. block_field sec s = None)"
proof -
  have "snd (filterBlockedIPs ips sec) = [] \<longleftrightarrow>
      map (\<lambda>b. (bi_ip b, bi_field b)) (snd (filterBlockedIPs ips sec)) = []" by simp
  also have "\<dots> \<longleftrightarrow> (\<forall>s \<in> set ips. block_field sec s = None)"
    by (simp add: filterBlocked_blocked filter_empty_conv)
  finally show ?thesis .
qed

text \<open>Every network of the three lists is printed in a form that parses back to it, so the CIDR the
  status message names is the network that matched.\<close>

lemma net_round_trip:
  "map (\<lambda>n. parse_cidr (net_string n)) (privateNets @ loopbackNets @ linkLocalNets) =
     map Some (privateNets @ loopbackNets @ linkLocalNets)"
  unfolding privateNets_eq loopbackNets_eq linkLocalNets_eq by code_simp

lemma blocked_names_network:
  assumes "b \<in> set (snd (filterBlockedIPs ips sec))"
  shows "\<exists>n x. parse_cidr (bi_cidr b) = Some n \<and> parse_ip (bi_ip b) = Some x \<and> net_contains n x"
proof -
  have nets: "parse_cidr (net_string n) = Some n"
    if "n \<in> set privateNets \<or> n \<in> set loopbackNets \<or> n \<in> set linkLocalNets" for n
    using net_round_trip that by (auto simp: map_eq_conv)
  have "\<exists>n x. bi_cidr b = net_string n \<and> parse_ip (bi_ip b) = Some x \<and> net_contains n x \<and>
      (n \<in> set privateNets \<or> n \<in> set loopbackNets \<or> n \<in> set linkLocalNets)"
    using assms
    by (induction ips)
      (auto split: option.splits if_splits prod.splits dest!: matchingCIDR_Some)
  with nets show ?thesis by metis
qed

section \<open>Properties\<close>

text \<open>C11. The block filter partitions its input in order: it keeps exactly the strings with no
  verdict, and records every other one with the field that blocks it, where loopback is asked before
  private and private before link-local; a string that is no address is kept; the CIDR of a record
  parses to a network that holds the address.\<close>

theorem filter_blocked_partition:
  "fst (filterBlockedIPs ips sec) = filter (\<lambda>s. block_field sec s = None) ips \<and>
   map (\<lambda>b. (bi_ip b, bi_field b)) (snd (filterBlockedIPs ips sec)) =
     map (\<lambda>s. (s, the (block_field sec s))) (filter (\<lambda>s. block_field sec s \<noteq> None) ips) \<and>
   {b \<in> set (snd (filterBlockedIPs ips sec)). \<not> (\<exists>n x. parse_cidr (bi_cidr b) = Some n \<and>
      parse_ip (bi_ip b) = Some x \<and> net_contains n x)} = {}"
  using filterBlocked_allowed filterBlocked_blocked blocked_names_network by auto

text \<open>Secure by default. With no security section, or one that leaves the three fields unset,
  no address the filter lets through is private (RFC 1918 or carrier-grade NAT), loopback or
  link-local; IPv4-mapped IPv6 text is judged as the IPv4 address it is.\<close>

theorem filter_blocked_secure_default:
  assumes "\<forall>sp. sec = Some sp \<longrightarrow> ss_block_private sp = None \<and> ss_block_loopback sp = None \<and>
      ss_block_link_local sp = None"
    and "s \<in> set (fst (filterBlockedIPs ips sec))" and "parse_ip s = Some x"
  shows "\<not> private_range x \<and> \<not> loopback_range x \<and> \<not> link_local_range x"
proof -
  have "doBlock sec ss_block_private" "doBlock sec ss_block_loopback" "doBlock sec ss_block_link_local"
    using assms(1) by (auto simp: doBlock_def split: option.split)
  with assms(2,3) show ?thesis
    by (auto simp: filterBlocked_allowed block_field_def split: if_splits)
qed

lemma filter_blocked_secure_default_witness:
  "\<not> private_range (ip_of_v4 0x08080808)"
proof -
  have "''8.8.8.8'' \<in> set (fst (filterBlockedIPs [''10.1.2.3'', ''8.8.8.8''] None))" by code_simp
  moreover have "parse_ip ''8.8.8.8'' = Some (ip_of_v4 0x08080808)" by code_simp
  ultimately show ?thesis
    using filter_blocked_secure_default [of None "''8.8.8.8''" "[''10.1.2.3'', ''8.8.8.8'']"
      "ip_of_v4 0x08080808"] by simp
qed

text \<open>C18. Consensus. When the results of the upstream resolvers are there and more than one must
  agree, the filter keeps, in order, exactly the addresses at least that many resolvers returned, and
  reports every other one with the number that did; no resolver is counted twice as long as none lists
  an address twice.\<close>

theorem consensus_keeps_agreed:
  assumes "gomap_ok results" and "\<forall>(u, us) \<in> set results. distinct us"
    and "results \<noteq> []" and "1 < k"
  shows "filterByConsensus ips results k =
    (filter (\<lambda>ip. k \<le> int (card (resolvers_of results ip))) ips,
     map (\<lambda>ip. \<lparr>ri_ip = ip, ri_agreement = int (card (resolvers_of results ip)), ri_required = k\<rparr>)
       (filter (\<lambda>ip. int (card (resolvers_of results ip)) < k) ips))"
proof -
  have "count_of (count_agreement results []) ip = int (card (resolvers_of results ip))" for ip
    using assms(1,2) by (intro agreement_card) auto
  with assms(3,4) show ?thesis
    by (simp add: filterByConsensus_def consensus_loop_eq not_le)
qed

definition sample_results :: "(string, string list) gomap" where
  "sample_results = [(''1.1.1.1'', [''9.9.9.1'', ''9.9.9.2'']), (''8.8.8.8'', [''9.9.9.1''])]"

lemma consensus_keeps_agreed_witness:
  "fst (filterByConsensus [''9.9.9.1'', ''9.9.9.2''] sample_results 2) =
     filter (\<lambda>ip. 2 \<le> int (card (resolvers_of sample_results ip))) [''9.9.9.1'', ''9.9.9.2'']"
  using consensus_keeps_agreed [of sample_results 2 "[''9.9.9.1'', ''9.9.9.2'']"]
  by (simp add: sample_results_def gomap_ok_def)

end
