(* ===== verification/NetPol.thy ===== *)
theory NetPol
  imports NetIP ApiTypes
begin

text \<open>
  internal/netpol (builder.go, helpers.go): the translation of a resolved FQDNNetworkPolicy into a
  networking.k8s.io/v1 NetworkPolicy. The networking types keep the fields the program writes or
  reads. \<open>egress_allows\<close> is what the Kubernetes API documents such a policy to let through; the
  theorems compare it with what the rules of the FQDNNetworkPolicy ask for.
\<close>

section \<open>NetworkPolicy objects\<close>

record np_port =
  npp_protocol :: string
  npp_port :: int32

record np_peer =
  peer_ip_block :: "string option"

record np_rule =
  nr_to :: "np_peer list"
  nr_ports :: "np_port list"

record owner_ref =
  or_api_version :: string
  or_kind :: string
  or_name :: string
  or_uid :: string
  or_controller :: bool
  or_block_deletion :: bool

record network_policy =
  np_name :: string
  np_namespace :: string
  np_labels :: "(string, string) gomap"
  np_owners :: "owner_ref list"
  np_pod_selector :: label_selector
  np_policy_types :: "string list"
  np_egress :: "np_rule list"

text \<open>
  GroupVersion of api/v1alpha1/groupversion\_info.go, and metav1.NewControllerRef, which sets both
  flags of the reference.
\<close>

definition api_version :: string where
  "api_version = ''netsec.kunal.dev/v1alpha1''"

definition controller_ref :: "fqdn_policy \<Rightarrow> owner_ref" where
  "controller_ref fp = \<lparr>or_api_version = api_version, or_kind = ''FQDNNetworkPolicy'',
     or_name = om_name (fp_meta fp), or_uid = om_uid (fp_meta fp),
     or_controller = True, or_block_deletion = True\<rparr>"

section \<open>helpers.go\<close>

definition hostCIDR :: "string \<Rightarrow> string" where
  "hostCIDR s = (case parse_ip s of
     Some x \<Rightarrow> if to4 x = None then s @ ''/128'' else s @ ''/32''
   | None \<Rightarrow> s @ ''/32'')"

definition corev1Protocol :: "string \<Rightarrow> string" where
  "corev1Protocol p = (if p = [] then ''TCP'' else p)"

text \<open>intstr.FromInt takes an int and keeps 32 bits of it.\<close>

definition intstrPort :: "int32 \<Rightarrow> int32" where
  "intstrPort p = word_of_int (sint p)"

section \<open>builder.go\<close>

definition OwnerName :: "string \<Rightarrow> string" where
  "OwnerName n = ''fqdnnp-'' @ n"

definition allowDNSRule :: np_rule where
  "allowDNSRule = \<lparr>nr_to = [], nr_ports =
     [\<lparr>npp_protocol = corev1Protocol ''UDP'', npp_port = intstrPort 53\<rparr>,
      \<lparr>npp_protocol = corev1Protocol ''TCP'', npp_port = intstrPort 53\<rparr>]\<rparr>"

definition collectPorts :: "fqdn_policy \<Rightarrow> np_port list" where
  "collectPorts fp = concat (map (\<lambda>r.
     map (\<lambda>p. \<lparr>npp_protocol = corev1Protocol (pp_protocol p), npp_port = intstrPort (pp_port p)\<rparr>)
       (fr_ports r)) (sp_egress (fp_spec fp)))"

definition policy_labels :: "string \<Rightarrow> (string, string) gomap" where
  "policy_labels n = [(''netsec.kunal.dev/managed-by'', ''fqdn-network-policy''),
     (''netsec.kunal.dev/fqdnnetworkpolicy'', n)]"

definition denyAllEgress :: "fqdn_policy \<Rightarrow> network_policy" where
  "denyAllEgress fp =
     \<lparr>np_name = OwnerName (om_name (fp_meta fp)),
      np_namespace = om_namespace (fp_meta fp),
      np_labels = policy_labels (om_name (fp_meta fp)),
      np_owners = [controller_ref fp],
      np_pod_selector = pss_selector (sp_pod_selector (fp_spec fp)),
      np_policy_types = [''Egress''],
      np_egress = [allowDNSRule]\<rparr>"

definition collect_peers :: "resolved_host list \<Rightarrow> np_peer list" where
  "collect_peers hosts = concat (map (\<lambda>h.
     map (\<lambda>ip. \<lparr>peer_ip_block = Some (hostCIDR ip)\<rparr>) (rh_ips h)) hosts)"

text \<open>The error result of Build is the left summand; the code never produces it.\<close>

definition Build :: "fqdn_policy \<Rightarrow> string + network_policy" where
  "Build fp =
     (if st_resolved_hosts (fp_status fp) = [] then Inr (denyAllEgress fp)
      else Inr \<lparr>np_name = OwnerName (om_name (fp_meta fp)),
        np_namespace = om_namespace (fp_meta fp),
        np_labels = policy_labels (om_name (fp_meta fp)),
        np_owners = [controller_ref fp],
        np_pod_selector = pss_selector (sp_pod_selector (fp_spec fp)),
        np_policy_types = [''Egress''],
        np_egress = [\<lparr>nr_to = collect_peers (st_resolved_hosts (fp_status fp)),
                      nr_ports = collectPorts fp\<rparr>,
                     allowDNSRule]\<rparr>)"

section \<open>What a NetworkPolicy lets through\<close>

text \<open>
  The documented meaning of an egress NetworkPolicy for the pods it selects: a connection to address
  \<open>x\<close> is allowed when some rule admits both its destination and its protocol and port, where an empty
  peer list admits every destination and an empty port list every port.
\<close>

definition peer_admits :: "np_peer \<Rightarrow> ip \<Rightarrow> bool" where
  "peer_admits p x = (case peer_ip_block p of
     None \<Rightarrow> False
   | Some c \<Rightarrow> (case parse_cidr c of None \<Rightarrow> False | Some n \<Rightarrow> net_contains n x))"

definition port_admits :: "np_port \<Rightarrow> string \<Rightarrow> int32 \<Rightarrow> bool" where
  "port_admits p proto q \<longleftrightarrow> npp_protocol p = proto \<and> npp_port p = q"

definition rule_admits :: "np_rule \<Rightarrow> ip \<Rightarrow> string \<Rightarrow> int32 \<Rightarrow> bool" where
  "rule_admits r x proto q \<longleftrightarrow>
     (nr_to r = [] \<or> (\<exists>p \<in> set (nr_to r). peer_admits p x)) \<and>
     (nr_ports r = [] \<or> (\<exists>p \<in> set (nr_ports r). port_admits p proto q))"

definition egress_allows :: "network_policy \<Rightarrow> ip \<Rightarrow> string \<Rightarrow> int32 \<Rightarrow> bool" where
  "egress_allows np x proto q \<longleftrightarrow> (\<exists>r \<in> set (np_egress np). rule_admits r x proto q)"

definition is_dns :: "string \<Rightarrow> int32 \<Rightarrow> bool" where
  "is_dns proto q \<longleftrightarrow> (proto = ''UDP'' \<or> proto = ''TCP'') \<and> q = 53"

text \<open>What the policy asks for: the resolved addresses, and the ports its rules name.\<close>

definition resolved_addresses :: "fqdn_policy \<Rightarrow> ip set" where
  "resolved_addresses fp =
     {x. \<exists>h \<in> set (st_resolved_hosts (fp_status fp)). \<exists>s \<in> set (rh_ips h). parse_ip s = Some x}"

definition port_named :: "policy_port \<Rightarrow> string \<Rightarrow> int32 \<Rightarrow> bool" where
  "port_named p proto q \<longleftrightarrow> (if pp_protocol p = [] then ''TCP'' else pp_protocol p) = proto \<and> pp_port p = q"

definition rule_ports_admit :: "fqdn_rule \<Rightarrow> string \<Rightarrow> int32 \<Rightarrow> bool" where
  "rule_ports_admit r proto q \<longleftrightarrow> fr_ports r = [] \<or> (\<exists>p \<in> set (fr_ports r). port_named p proto q)"

definition rules_intend :: "fqdn_policy \<Rightarrow> ip \<Rightarrow> string \<Rightarrow> int32 \<Rightarrow> bool" where
  "rules_intend fp x proto q \<longleftrightarrow>
     (\<exists>r \<in> set (sp_egress (fp_spec fp)). \<exists>h \<in> set (st_resolved_hosts (fp_status fp)).
        rh_hostname h = fr_match r \<and> (\<exists>s \<in> set (rh_ips h). parse_ip s = Some x) \<and>
        rule_ports_admit r proto q)"

definition host_texts :: "resolved_host list \<Rightarrow> bool" where
  "host_texts hosts \<longleftrightarrow> (\<forall>h \<in> set hosts. \<forall>s \<in> set (rh_ips h). \<exists>x. host_text s x)"

section \<open>Lemmas\<close>

lemma intstrPort_id [simp]: "intstrPort p = p"
  by (simp add: intstrPort_def)

lemma rule_admits_dns [simp]: "rule_admits allowDNSRule x proto q \<longleftrightarrow> is_dns proto q"
  by (auto simp: rule_admits_def allowDNSRule_def port_admits_def corev1Protocol_def is_dns_def)

text \<open>The one-address block admits exactly its address.\<close>

lemma host_peer_admits:
  assumes "host_text s x"
  shows "peer_admits \<lparr>peer_ip_block = Some (hostCIDR s)\<rparr> y \<longleftrightarrow> y = x"
proof (cases "to4 x")
  case None
  then have "hostCIDR s = s @ ''/128''" using assms by (simp add: hostCIDR_def host_text_def)
  then show ?thesis
    using parse_cidr_host6 [OF assms None] host6_contains [OF None] by (simp add: peer_admits_def)
next
  case (Some w)
  then have "hostCIDR s = s @ ''/32''" using assms by (simp add: hostCIDR_def host_text_def)
  then show ?thesis
    using parse_cidr_host4 [OF assms Some] host4_contains [of w y] Some
    by (simp add: peer_admits_def to4_eq_Some)
qed

lemma collect_peers_admit:
  assumes "host_texts hosts"
  shows "(\<exists>p \<in> set (collect_peers hosts). peer_admits p y) \<longleftrightarrow>
    (\<exists>h \<in> set hosts. \<exists>s \<in> set (rh_ips h). parse_ip s = Some y)"
proof -
  have "peer_admits \<lparr>peer_ip_block = Some (hostCIDR s)\<rparr> y \<longleftrightarrow> parse_ip s = Some y"
    if "h \<in> set hosts" "s \<in> set (rh_ips h)" for h s
  proof -
    have "\<exists>x. host_text s x" using assms that by (simp add: host_texts_def)
    then obtain x where x: "host_text s x" by blast
    then have "parse_ip s = Some x" by (simp add: host_text_def)
    with host_peer_admits [OF x, of y] show ?thesis by auto
  qed
  then show ?thesis by (auto simp: collect_peers_def)
qed

lemma collect_peers_Nil_iff: "collect_peers hosts = [] \<longleftrightarrow> (\<forall>h \<in> set hosts. rh_ips h = [])"
  by (auto simp: collect_peers_def)

lemma collectPorts_Nil_iff: "collectPorts fp = [] \<longleftrightarrow> (\<forall>r \<in> set (sp_egress (fp_spec fp)). fr_ports r = [])"
  by (auto simp: collectPorts_def)

lemma collectPorts_admit:
  "(\<exists>p \<in> set (collectPorts fp). port_admits p proto q) \<longleftrightarrow>
   (\<exists>r \<in> set (sp_egress (fp_spec fp)). \<exists>p \<in> set (fr_ports r). port_named p proto q)"
  by (auto simp: collectPorts_def port_admits_def port_named_def corev1Protocol_def)

lemma Build_allows:
  assumes "Build fp = Inr np"
  shows "egress_allows np x proto q \<longleftrightarrow> is_dns proto q \<or>
    (st_resolved_hosts (fp_status fp) \<noteq> [] \<and>
     rule_admits \<lparr>nr_to = collect_peers (st_resolved_hosts (fp_status fp)),
       nr_ports = collectPorts fp\<rparr> x proto q)"
  using assms by (auto simp: Build_def egress_allows_def denyAllEgress_def split: if_splits)

lemma Build_Inr: "\<exists>np. Build fp = Inr np"
  by (simp add: Build_def)

lemma Build_fields:
  assumes "Build fp = Inr np"
  shows "np_name np = OwnerName (om_name (fp_meta fp))" "np_namespace np = om_namespace (fp_meta fp)"
    "np_pod_selector np = pss_selector (sp_pod_selector (fp_spec fp))"
    "np_labels np = policy_labels (om_name (fp_meta fp))" "np_owners np = [controller_ref fp]"
    "np_policy_types np = [''Egress'']"
  using assms by (auto simp: Build_def denyAllEgress_def split: if_splits)

lemma Build_allows_addresses:
  assumes "Build fp = Inr np" "host_texts (st_resolved_hosts (fp_status fp))"
    and "\<exists>h \<in> set (st_resolved_hosts (fp_status fp)). rh_ips h \<noteq> []"
  shows "egress_allows np x proto q \<longleftrightarrow> is_dns proto q \<or>
    (x \<in> resolved_addresses fp \<and>
     ((\<forall>r \<in> set (sp_egress (fp_spec fp)). fr_ports r = []) \<or>
      (\<exists>r \<in> set (sp_egress (fp_spec fp)). \<exists>p \<in> set (fr_ports r). port_named p proto q)))"
proof -
  have "collect_peers (st_resolved_hosts (fp_status fp)) \<noteq> []"
    using assms(3) by (simp add: collect_peers_Nil_iff)
  moreover have "st_resolved_hosts (fp_status fp) \<noteq> []" using assms(3) by auto
  ultimately show ?thesis
    using collect_peers_admit [OF assms(2), of x]
    by (simp add: Build_allows [OF assms(1)] rule_admits_def resolved_addresses_def
        collectPorts_Nil_iff collectPorts_admit)
qed

text \<open>Two inputs for the witnesses: one host with an address of each family, one without any.\<close>

definition sample_meta :: object_meta where
  "sample_meta = \<lparr>om_name = ''web'', om_namespace = ''prod'', om_uid = ''u1'', om_generation = 1,
     om_created = 0, om_labels = [], om_annotations = []\<rparr>"

definition sample_selector :: pod_selector_spec where
  "sample_selector = \<lparr>pss_selector =
     \<lparr>ls_match_labels = [(''app'', ''web'')], ls_match_expressions = []\<rparr>\<rparr>"

definition sample_host :: "string \<Rightarrow> string list \<Rightarrow> resolved_host" where
  "sample_host h ips = \<lparr>rh_hostname = h, rh_ips = ips, rh_last_seen = 0, rh_source = ''ActiveQuery'',
     rh_ttl_seconds = 60, rh_cname_chain = [], rh_security = None, rh_enrichments = []\<rparr>"

definition sample_policy :: "fqdn_rule list \<Rightarrow> resolved_host list \<Rightarrow> fqdn_policy" where
  "sample_policy rules hosts =
     \<lparr>fp_meta = sample_meta,
      fp_spec = \<lparr>sp_pod_selector = sample_selector, sp_egress = rules, sp_mode = PolicyModeEnforce,
        sp_ttl_override = None, sp_coredns = [], sp_security = None\<rparr>,
      fp_status = \<lparr>st_resolved_hosts = hosts, st_generated = [], st_conditions = [],
        st_observed_generation = 0, st_unpolicied = []\<rparr>\<rparr>"

lemma host_text_v4: "host_text ''203.0.113.1'' (ip_of_v4 0xcb007101)"
  by code_simp

lemma host_text_v6: "host_text ''2001:db8::1'' 0x20010db8000000000000000000000001"
  by code_simp

lemma sample_host_texts:
  "host_texts [sample_host ''api.example.com'' [''203.0.113.1'', ''2001:db8::1'']]"
  using host_text_v4 host_text_v6 by (auto simp: host_texts_def sample_host_def)

section \<open>Properties\<close>

text \<open>C2. The generated NetworkPolicy is exact. Build never fails; when some resolved host has an
  address (and the addresses are written the way net.IP prints them), a selected pod may open a
  connection precisely to DNS (port 53 of UDP and TCP, anywhere) and to the resolved addresses on the
  ports the rules name, all ports when no rule names one. The /32 and /128 blocks let no other address
  through.\<close>

theorem build_allows_exactly:
  assumes "host_texts (st_resolved_hosts (fp_status fp))"
    and "\<exists>h \<in> set (st_resolved_hosts (fp_status fp)). rh_ips h \<noteq> []"
  shows "\<exists>np. Build fp = Inr np \<and>
    (\<forall>x proto q. egress_allows np x proto q \<longleftrightarrow> is_dns proto q \<or>
      (x \<in> resolved_addresses fp \<and>
       ((\<forall>r \<in> set (sp_egress (fp_spec fp)). fr_ports r = []) \<or>
        (\<exists>r \<in> set (sp_egress (fp_spec fp)). \<exists>p \<in> set (fr_ports r). port_named p proto q))))"
  using Build_Inr [of fp] Build_allows_addresses [OF _ assms] by blast

lemma build_allows_exactly_witness:
  "\<exists>np. Build (sample_policy [\<lparr>fr_match = ''api.example.com'', fr_ports = []\<rparr>]
      [sample_host ''api.example.com'' [''203.0.113.1'', ''2001:db8::1'']]) = Inr np"
  using build_allows_exactly [of "sample_policy [\<lparr>fr_match = ''api.example.com'', fr_ports = []\<rparr>]
      [sample_host ''api.example.com'' [''203.0.113.1'', ''2001:db8::1'']]"] sample_host_texts
  by (auto simp: sample_policy_def sample_host_def)

text \<open>What Build does when there is no address. With no resolved host the policy denies all
  egress but DNS; but with resolved hosts that all have an empty address list the peer list of the
  rule is empty too, which Kubernetes reads as every destination: the policy then lets the pods reach
  any address on the ports the rules name (any port when none is named).\<close>

theorem build_without_addresses:
  assumes "\<forall>h \<in> set (st_resolved_hosts (fp_status fp)). rh_ips h = []"
  shows "\<exists>np. Build fp = Inr np \<and>
    (\<forall>x proto q. egress_allows np x proto q \<longleftrightarrow> is_dns proto q \<or>
      (st_resolved_hosts (fp_status fp) \<noteq> [] \<and>
       ((\<forall>r \<in> set (sp_egress (fp_spec fp)). fr_ports r = []) \<or>
        (\<exists>r \<in> set (sp_egress (fp_spec fp)). \<exists>p \<in> set (fr_ports r). port_named p proto q))))"
proof -
  obtain np where np: "Build fp = Inr np" using Build_Inr by blast
  have "collect_peers (st_resolved_hosts (fp_status fp)) = []"
    using assms by (simp add: collect_peers_Nil_iff)
  with np show ?thesis
    by (auto simp: Build_allows [OF np] rule_admits_def collectPorts_Nil_iff collectPorts_admit)
qed

lemma build_without_addresses_witness:
  "\<exists>np. Build (sample_policy [\<lparr>fr_match = ''api.example.com'', fr_ports = []\<rparr>]
      [sample_host ''api.example.com'' []]) = Inr np \<and> egress_allows np 0x08080808 ''TCP'' 22"
  using build_without_addresses [of "sample_policy [\<lparr>fr_match = ''api.example.com'', fr_ports = []\<rparr>]
      [sample_host ''api.example.com'' []]"]
  by (auto simp: sample_policy_def sample_host_def)

text \<open>C17. Refinement of the rules. When every host that resolved belongs to a rule and all rules
  name the same ports, the generated policy opens exactly the connections some rule asks for (its own
  host, its own ports) and DNS: merging the ports of all rules over all peers then loses nothing.\<close>

theorem build_refines_rules:
  assumes "host_texts (st_resolved_hosts (fp_status fp))"
    and "\<exists>h \<in> set (st_resolved_hosts (fp_status fp)). rh_ips h \<noteq> []"
    and "\<forall>h \<in> set (st_resolved_hosts (fp_status fp)).
      \<exists>r \<in> set (sp_egress (fp_spec fp)). rh_hostname h = fr_match r"
    and "\<forall>r \<in> set (sp_egress (fp_spec fp)). fr_ports r = ps"
  shows "\<exists>np. Build fp = Inr np \<and>
    (\<forall>x proto q. egress_allows np x proto q \<longleftrightarrow> is_dns proto q \<or> rules_intend fp x proto q)"
proof -
  obtain np where np: "Build fp = Inr np" using Build_Inr by blast
  have "egress_allows np x proto q \<longleftrightarrow> is_dns proto q \<or> rules_intend fp x proto q" for x proto q
    using assms(3,4) unfolding Build_allows_addresses [OF np assms(1,2)]
    by (fastforce simp: resolved_addresses_def rules_intend_def rule_ports_admit_def)
  with np show ?thesis by blast
qed

lemma build_refines_rules_witness:
  "\<exists>np. Build (sample_policy [\<lparr>fr_match = ''api.example.com'', fr_ports = []\<rparr>]
      [sample_host ''api.example.com'' [''203.0.113.1'', ''2001:db8::1'']]) = Inr np"
  using build_refines_rules [of "sample_policy [\<lparr>fr_match = ''api.example.com'', fr_ports = []\<rparr>]
      [sample_host ''api.example.com'' [''203.0.113.1'', ''2001:db8::1'']]" "[]"] sample_host_texts
  by (auto simp: sample_policy_def sample_host_def)

text \<open>The rules are merged, not kept apart: with a rule naming TCP 443 and one naming no port, the
  connection the second rule asks for on port 80 stays closed; with rules naming different ports, each
  host is open on the other's port.\<close>

definition build_admits :: "fqdn_policy \<Rightarrow> ip \<Rightarrow> string \<Rightarrow> int32 \<Rightarrow> bool" where
  "build_admits fp x proto q =
     (case Build fp of Inl e \<Rightarrow> False | Inr np \<Rightarrow> egress_allows np x proto q)"

definition two_rules :: "policy_port list \<Rightarrow> policy_port list \<Rightarrow> fqdn_policy" where
  "two_rules ps qs = sample_policy
     [\<lparr>fr_match = ''a.io'', fr_ports = ps\<rparr>, \<lparr>fr_match = ''b.io'', fr_ports = qs\<rparr>]
     [sample_host ''a.io'' [''203.0.113.1''], sample_host ''b.io'' [''203.0.113.2'']]"

lemma build_merges_narrower:
  "rules_intend (two_rules [\<lparr>pp_protocol = ''TCP'', pp_port = 443\<rparr>] []) (ip_of_v4 0xcb007102) ''TCP'' 80
   \<and> \<not> build_admits (two_rules [\<lparr>pp_protocol = ''TCP'', pp_port = 443\<rparr>] []) (ip_of_v4 0xcb007102) ''TCP'' 80"
  by code_simp

lemma build_merges_wider:
  "build_admits (two_rules [\<lparr>pp_protocol = ''TCP'', pp_port = 443\<rparr>] [\<lparr>pp_protocol = ''TCP'', pp_port = 22\<rparr>])
     (ip_of_v4 0xcb007101) ''TCP'' 22
   \<and> \<not> rules_intend (two_rules [\<lparr>pp_protocol = ''TCP'', pp_port = 443\<rparr>] [\<lparr>pp_protocol = ''TCP'', pp_port = 22\<rparr>])
     (ip_of_v4 0xcb007101) ''TCP'' 22"
  by code_simp

end
