(* ===== verification/TtlQueue.thy ===== *)
theory TtlQueue
  imports GoLib
begin

text \<open>
  internal/dns/ttl\_queue.go: the min-heap of refresh times. container/heap of the standard library is
  modelled first, over the three operations its Interface asks for (Len, Less, Swap); the locale
  \<open>heap_interface\<close> is the contract of that interface, and the queue is its provider. The entries are
  shared between the heap slice and the map by pointer, and the heap writes an entry's position into
  it, so the model keeps an explicit store of entries and the invariant \<open>queue_ok\<close> ties the three
  together.
\<close>

section \<open>container/heap\<close>

function heap_up ::
  "('h \<Rightarrow> nat \<Rightarrow> nat \<Rightarrow> bool) \<Rightarrow> ('h \<Rightarrow> nat \<Rightarrow> nat \<Rightarrow> 'h) \<Rightarrow> 'h \<Rightarrow> nat \<Rightarrow> 'h" where
  "heap_up lss swap h j =
     (let i = (j - 1) div 2 in
      if i = j \<or> \<not> lss h j i then h else heap_up lss swap (swap h i j) i)"
  by pat_completeness auto
termination
  by (relation "measure (\<lambda>(lss, swap, h, j). j)") auto

function heap_down_loop ::
  "('h \<Rightarrow> nat \<Rightarrow> nat \<Rightarrow> bool) \<Rightarrow> ('h \<Rightarrow> nat \<Rightarrow> nat \<Rightarrow> 'h) \<Rightarrow> nat \<Rightarrow> 'h \<Rightarrow> nat \<Rightarrow> 'h \<times> nat" where
  "heap_down_loop lss swap n h i =
     (let j1 = 2 * i + 1 in
      if n \<le> j1 then (h, i)
      else let j = (if j1 + 1 < n \<and> lss h (j1 + 1) j1 then j1 + 1 else j1) in
        if \<not> lss h j i then (h, i) else heap_down_loop lss swap n (swap h i j) j)"
  by pat_completeness auto
termination
  by (relation "measure (\<lambda>(lss, swap, n, h, i). n - i)") (auto split: if_splits)

definition heap_down ::
  "('h \<Rightarrow> nat \<Rightarrow> nat \<Rightarrow> bool) \<Rightarrow> ('h \<Rightarrow> nat \<Rightarrow> nat \<Rightarrow> 'h) \<Rightarrow> 'h \<Rightarrow> nat \<Rightarrow> nat \<Rightarrow> 'h \<times> bool" where
  "heap_down lss swap h i0 n = (let (h', i) = heap_down_loop lss swap n h i0 in (h', i0 < i))"

definition heap_Fix ::
  "('h \<Rightarrow> nat) \<Rightarrow> ('h \<Rightarrow> nat \<Rightarrow> nat \<Rightarrow> bool) \<Rightarrow> ('h \<Rightarrow> nat \<Rightarrow> nat \<Rightarrow> 'h) \<Rightarrow> 'h \<Rightarrow> nat \<Rightarrow> 'h" where
  "heap_Fix len lss swap h i =
     (let (h', moved) = heap_down lss swap h i (len h) in
      if moved then h' else heap_up lss swap h' i)"

declare heap_up.simps [simp del] heap_down_loop.simps [simp del]

text \<open>The contract: Less compares keys, Swap exchanges the keys of two positions.\<close>

locale heap_interface =
  fixes len :: "'h \<Rightarrow> nat"
    and lss :: "'h \<Rightarrow> nat \<Rightarrow> nat \<Rightarrow> bool"
    and swap :: "'h \<Rightarrow> nat \<Rightarrow> nat \<Rightarrow> 'h"
    and key :: "'h \<Rightarrow> nat \<Rightarrow> 'k::linorder"
  assumes lss_key: "i < len h \<Longrightarrow> j < len h \<Longrightarrow> lss h i j \<longleftrightarrow> key h i < key h j"
    and swap_len: "len (swap h i j) = len h"
    and swap_key: "i < len h \<Longrightarrow> j < len h \<Longrightarrow> i \<noteq> j \<Longrightarrow> k < len h \<Longrightarrow>
      key (swap h i j) k = (if k = i then key h j else if k = j then key h i else key h k)"
begin

definition heap :: "'h \<Rightarrow> nat \<Rightarrow> bool" where
  "heap h n \<longleftrightarrow> (\<forall>k. 0 < k \<longrightarrow> k < n \<longrightarrow> key h ((k - 1) div 2) \<le> key h k)"

text \<open>The heap order with position \<open>i\<close> taken out: its children stay above its parent.\<close>

definition heap_but :: "'h \<Rightarrow> nat \<Rightarrow> nat \<Rightarrow> bool" where
  "heap_but h n i \<longleftrightarrow>
     (\<forall>k. 0 < k \<longrightarrow> k < n \<longrightarrow> k \<noteq> i \<longrightarrow> (k - 1) div 2 \<noteq> i \<longrightarrow> key h ((k - 1) div 2) \<le> key h k) \<and>
     (\<forall>k. 0 < k \<longrightarrow> k < n \<longrightarrow> (k - 1) div 2 = i \<longrightarrow> 0 < i \<longrightarrow> key h ((i - 1) div 2) \<le> key h k)"

definition above_children :: "'h \<Rightarrow> nat \<Rightarrow> nat \<Rightarrow> bool" where
  "above_children h n i \<longleftrightarrow> (\<forall>k. 0 < k \<longrightarrow> k < n \<longrightarrow> (k - 1) div 2 = i \<longrightarrow> key h i \<le> key h k)"

definition below_parent :: "'h \<Rightarrow> nat \<Rightarrow> bool" where
  "below_parent h i \<longleftrightarrow> (0 < i \<longrightarrow> key h ((i - 1) div 2) \<le> key h i)"

lemma heap_split: "i < n \<Longrightarrow> heap_but h n i \<Longrightarrow> above_children h n i \<Longrightarrow> below_parent h i \<Longrightarrow> heap h n"
  unfolding heap_def heap_but_def above_children_def below_parent_def by metis

lemma up_swap:
  assumes n: "n \<le> len h" and j: "0 < j" "j < n" and b: "heap_but h n j" and a: "above_children h n j"
    and lt: "key h j < key h ((j - 1) div 2)"
  defines "i \<equiv> (j - 1) div 2"
  shows "heap_but (swap h i j) n i" "above_children (swap h i j) n i"
proof -
  have ij: "i < j" using j by (simp add: i_def)
  have lt': "key h j < key h i" using lt by (simp add: i_def)
  have sw: "key (swap h i j) k = (if k = i then key h j else if k = j then key h i else key h k)"
    if "k < n" for k using swap_key [of i h j k] ij j n that by simp
  have first: "key h ((k - 1) div 2) \<le> key h k"
    if "0 < k" "k < n" "k \<noteq> j" "(k - 1) div 2 \<noteq> j" for k
    using b that by (simp add: heap_but_def)
  have second: "key h i \<le> key h k" if "0 < k" "k < n" "(k - 1) div 2 = j" for k
    using b that j by (simp add: heap_but_def i_def)
  have pi: "key h ((i - 1) div 2) \<le> key h i" if "0 < i"
    using first [of i] that ij j by auto
  have ge: "key h i \<le> key h k" if "0 < k" "k < n" "k \<noteq> j" "(k - 1) div 2 = i" for k
    using first [of k] that ij by simp
  show "above_children (swap h i j) n i"
    unfolding above_children_def
  proof (intro allI impI)
    fix k assume k: "0 < k" "k < n" "(k - 1) div 2 = i"
    then have "k \<noteq> i" by auto
    with k ge [of k] lt' ij j show "key (swap h i j) i \<le> key (swap h i j) k"
      by (cases "k = j") (auto simp: sw intro: order_trans less_imp_le)
  qed
  show "heap_but (swap h i j) n i"
    unfolding heap_but_def
  proof (intro conjI allI impI)
    fix k assume k: "0 < k" "k < n" "k \<noteq> i" "(k - 1) div 2 \<noteq> i"
    then have "k \<noteq> j" "(k - 1) div 2 < n" by (auto simp: i_def)
    with k first [of k] second [of k]
    show "key (swap h i j) ((k - 1) div 2) \<le> key (swap h i j) k"
      by (simp add: sw)
  next
    fix k assume k: "0 < k" "k < n" "(k - 1) div 2 = i" "0 < i"
    then have "k \<noteq> i" "(i - 1) div 2 \<noteq> i" "(i - 1) div 2 \<noteq> j" "(i - 1) div 2 < n" using ij j by auto
    with k pi ge [of k] show "key (swap h i j) ((i - 1) div 2) \<le> key (swap h i j) k"
      by (auto simp: sw)
  qed
qed

lemma up_heap:
  "j < len h \<Longrightarrow> n = len h \<Longrightarrow> heap_but h n j \<Longrightarrow> above_children h n j \<Longrightarrow>
   heap (heap_up lss swap h j) n"
proof (induction j arbitrary: h rule: less_induct)
  case (less j)
  define i where "i = (j - 1) div 2"
  show ?case
  proof (cases "i = j \<or> \<not> lss h j i")
    case True
    have "below_parent h j"
      using True less.prems lss_key [of j h i] by (auto simp: below_parent_def i_def)
    with less.prems have "heap h n" by (auto intro: heap_split)
    with True show ?thesis by (simp add: heap_up.simps [of _ _ h j] i_def Let_def)
  next
    case False
    then have j: "0 < j" "i < j" by (auto simp: i_def)
    then have lt: "key h j < key h i" using False less.prems lss_key [of j h i] by auto
    have "heap (heap_up lss swap (swap h i j) i) n"
      using less.IH [OF j(2), of "swap h i j"] up_swap [of n h j] less.prems j lt
      by (simp add: swap_len i_def)
    with False show ?thesis by (simp add: heap_up.simps [of _ _ h j] i_def Let_def)
  qed
qed

lemma down_swap:
  assumes n: "n \<le> len h" and j: "0 < j" "j < n" and i: "i = (j - 1) div 2"
    and b: "heap_but h n i" and lt: "key h j < key h i"
    and least: "\<And>k. 0 < k \<Longrightarrow> k < n \<Longrightarrow> (k - 1) div 2 = i \<Longrightarrow> key h j \<le> key h k"
  shows "heap_but (swap h i j) n j" "below_parent (swap h i j) j"
proof -
  have ij: "i < j" and par: "(j - Suc 0) div 2 = i" using j i by simp_all
  have sw: "key (swap h i j) k = (if k = i then key h j else if k = j then key h i else key h k)"
    if "k < n" for k using swap_key [of i h j k] ij j n that by simp
  have first: "key h ((k - 1) div 2) \<le> key h k"
    if "0 < k" "k < n" "k \<noteq> i" "(k - 1) div 2 \<noteq> i" for k
    using b that by (simp add: heap_but_def)
  have second: "key h ((i - 1) div 2) \<le> key h j" if "0 < i"
    using b that j i by (auto simp: heap_but_def)
  show "below_parent (swap h i j) j"
    using sw [of i] sw [of j] ij j lt by (simp add: below_parent_def par)
  show "heap_but (swap h i j) n j"
    unfolding heap_but_def
  proof (intro conjI allI impI)
    fix k assume k: "0 < k" "k < n" "k \<noteq> j" "(k - 1) div 2 \<noteq> j"
    then have kn: "(k - 1) div 2 < n" "(k - 1) div 2 \<noteq> k" by auto
    show "key (swap h i j) ((k - 1) div 2) \<le> key (swap h i j) k"
    proof (cases "k = i")
      case True
      with k kn second show ?thesis by (simp add: sw)
    next
      case False
      with k kn least [of k] first [of k] show ?thesis by (simp add: sw)
    qed
  next
    fix k assume k: "0 < k" "k < n" "(k - 1) div 2 = j" "0 < j"
    then have "k \<noteq> j" "k \<noteq> i" using ij by auto
    with k ij j first [of k] show "key (swap h i j) ((j - 1) div 2) \<le> key (swap h i j) k"
      by (simp add: sw par)
  qed
qed

lemma down_loop_heap:
  "n \<le> len h \<Longrightarrow> i < n \<Longrightarrow> heap_but h n i \<Longrightarrow> below_parent h i \<Longrightarrow>
   heap (fst (heap_down_loop lss swap n h i)) n"
proof (induction "n - i" arbitrary: h i rule: less_induct)
  case less
  show ?case
  proof (cases "n \<le> 2 * i + 1")
    case True
    then have "above_children h n i" by (auto simp: above_children_def)
    with less.prems have "heap h n" by (auto intro: heap_split)
    with True show ?thesis by (simp add: heap_down_loop.simps [of _ _ n h i])
  next
    case False
    define j where "j = (if 2 * i + 2 < n \<and> lss h (2 * i + 2) (2 * i + 1) then 2 * i + 2 else 2 * i + 1)"
    have j: "0 < j" "j < n" "i = (j - 1) div 2" "i < j" using False by (auto simp: j_def)
    have step: "heap_down_loop lss swap n h i =
        (if lss h j i then heap_down_loop lss swap n (swap h i j) j else (h, i))"
      using False by (simp add: heap_down_loop.simps [of _ _ n h i] Let_def j_def)
    have least: "key h j \<le> key h k" if "0 < k" "k < n" "(k - 1) div 2 = i" for k
    proof -
      have "k = 2 * i + 1 \<or> k = 2 * i + 2" using that by auto
      then show ?thesis
        using that less.prems(1) False lss_key [of "2 * i + 2" h "2 * i + 1"] by (auto simp: j_def)
    qed
    show ?thesis
    proof (cases "lss h j i")
      case False
      then have "key h i \<le> key h j" using less.prems j lss_key [of j h i] by auto
      then have "above_children h n i" using least by (auto simp: above_children_def intro: order_trans)
      with less.prems have "heap h n" by (auto intro: heap_split)
      with False show ?thesis by (simp add: step)
    next
      case True
      then have lt: "key h j < key h i" using less.prems j lss_key [of j h i] by auto
      have "n - j < n - i" using j by simp
      then have "heap (fst (heap_down_loop lss swap n (swap h i j) j)) n"
        using less.hyps [of j "swap h i j"] down_swap [OF less.prems(1) j(1,2,3) less.prems(3) lt least]
          less.prems(1) j(2) by (simp add: swap_len)
      with True show ?thesis by (simp add: step)
    qed
  qed
qed

text \<open>What every Swap keeps, the heap operations keep.\<close>

lemma up_keeps:
  assumes "\<And>h i j. P h \<Longrightarrow> i < len h \<Longrightarrow> j < len h \<Longrightarrow> P (swap h i j)"
  shows "P h \<Longrightarrow> j < len h \<Longrightarrow> P (heap_up lss swap h j)"
proof (induction j arbitrary: h rule: less_induct)
  case (less j)
  then show ?case
    using assms by (subst heap_up.simps) (auto simp: Let_def swap_len)
qed

lemma down_loop_keeps:
  assumes "\<And>h i j. P h \<Longrightarrow> i < len h \<Longrightarrow> j < len h \<Longrightarrow> P (swap h i j)"
  shows "P h \<Longrightarrow> n \<le> len h \<Longrightarrow> i < n \<Longrightarrow> P (fst (heap_down_loop lss swap n h i))"
proof (induction "n - i" arbitrary: h i rule: less_induct)
  case less
  then show ?case
    using assms by (subst heap_down_loop.simps) (auto simp: Let_def swap_len)
qed

lemma down_loop_moves:
  "i \<le> snd (heap_down_loop lss swap n h i) \<and>
   (snd (heap_down_loop lss swap n h i) = i \<longrightarrow> fst (heap_down_loop lss swap n h i) = h)"
proof (induction "n - i" arbitrary: h i rule: less_induct)
  case less
  show ?case
  proof (cases "n \<le> 2 * i + 1")
    case True
    then show ?thesis by (simp add: heap_down_loop.simps [of _ _ n h i])
  next
    case False
    define j where "j = (if 2 * i + 2 < n \<and> lss h (2 * i + 2) (2 * i + 1) then 2 * i + 2 else 2 * i + 1)"
    have step: "heap_down_loop lss swap n h i =
        (if lss h j i then heap_down_loop lss swap n (swap h i j) j else (h, i))"
      using False by (simp add: heap_down_loop.simps [of _ _ n h i] Let_def j_def)
    have "i < j" "n - j < n - i" using False by (auto simp: j_def)
    with less.hyps [of j "swap h i j"] show ?thesis by (auto simp: step)
  qed
qed

lemma fix_keeps:
  assumes "\<And>h i j. P h \<Longrightarrow> i < len h \<Longrightarrow> j < len h \<Longrightarrow> P (swap h i j)"
    and "P h" "i < len h"
  shows "P (heap_Fix len lss swap h i)"
proof -
  obtain h' i' where d: "heap_down_loop lss swap (len h) h i = (h', i')" by (cases "heap_down_loop lss swap (len h) h i")
  have "P h'" using down_loop_keeps [of P h "len h" i] assms d by auto
  moreover have "len h' = len h"
    using down_loop_keeps [of "\<lambda>g. len g = len h" h "len h" i] assms(3) d by (auto simp: swap_len)
  ultimately show ?thesis
    using up_keeps [of P h' i] assms d by (auto simp: heap_Fix_def heap_down_def)
qed

lemma heap_butI:
  assumes h: "heap h n" and i: "i < n"
  shows "heap_but h n i"
  unfolding heap_but_def
proof (intro conjI allI impI)
  fix k assume k: "0 < k" "k < n" "(k - 1) div 2 = i" "0 < i"
  then have "key h ((i - 1) div 2) \<le> key h i" "key h i \<le> key h k" using h i by (auto simp: heap_def)
  then show "key h ((i - 1) div 2) \<le> key h k" by simp
qed (use h in \<open>simp add: heap_def\<close>)

text \<open>Fix repairs the heap around a position whose key changed.\<close>

lemma fix_heap:
  assumes i: "i < len h" and b: "heap_but h (len h) i"
  shows "heap (heap_Fix len lss swap h i) (len h)"
proof -
  obtain h' i' where d: "heap_down_loop lss swap (len h) h i = (h', i')"
    by (cases "heap_down_loop lss swap (len h) h i")
  show ?thesis
  proof (cases "below_parent h i")
    case True
    have hp: "heap h' (len h)" using down_loop_heap [OF order_refl i b True] d by simp
    have len': "len h' = len h"
      using down_loop_keeps [of "\<lambda>g. len g = len h" h "len h" i] i d by (auto simp: swap_len)
    show ?thesis
    proof (cases "i < i'")
      case True
      with hp d show ?thesis by (simp add: heap_Fix_def heap_down_def)
    next
      case False
      have "above_children h' (len h) i"
        using hp by (auto simp: heap_def above_children_def)
      then have "heap (heap_up lss swap h' i) (len h)"
        using heap_butI [OF hp i] len' i by (intro up_heap) simp_all
      with d False show ?thesis by (simp add: heap_Fix_def heap_down_def)
    qed
  next
    case False
    then have lt: "0 < i" "key h i < key h ((i - 1) div 2)" by (auto simp: below_parent_def)
    have a: "above_children h (len h) i"
      unfolding above_children_def
    proof (intro allI impI)
      fix k assume k: "0 < k" "k < len h" "(k - 1) div 2 = i"
      then have "key h ((i - 1) div 2) \<le> key h k" using b lt by (simp add: heap_but_def)
      with lt show "key h i \<le> key h k" by simp
    qed
    have "heap_down_loop lss swap (len h) h i = (h, i)"
    proof -
      define j where "j = (if 2 * i + 2 < len h \<and> lss h (2 * i + 2) (2 * i + 1) then 2 * i + 2 else 2 * i + 1)"
      have "\<not> lss h j i" if "\<not> len h \<le> 2 * i + 1"
      proof -
        have j: "j < len h" "(j - 1) div 2 = i" "0 < j" using that by (auto simp: j_def)
        then have "key h i \<le> key h j" using a unfolding above_children_def by blast
        with i j lss_key [of j h i] show ?thesis by simp
      qed
      then show ?thesis
        by (auto simp: heap_down_loop.simps [of _ _ "len h" h i] Let_def j_def)
    qed
    with up_heap [OF i refl b a] show ?thesis by (simp add: heap_Fix_def heap_down_def)
  qed
qed

lemma root_least: "heap h n \<Longrightarrow> k < n \<Longrightarrow> key h 0 \<le> key h k"
proof (induction k rule: less_induct)
  case (less k)
  show ?case
  proof (cases "k = 0")
    case False
    then have "key h 0 \<le> key h ((k - 1) div 2)" using less by simp
    also have "\<dots> \<le> key h k" using less False by (auto simp: heap_def)
    finally show ?thesis .
  qed simp
qed

lemma heap_but_cong:
  assumes b: "heap_but h n i" and eq: "\<And>k. k < n \<Longrightarrow> k \<noteq> i \<Longrightarrow> key h' k = key h k"
  shows "heap_but h' n i"
  unfolding heap_but_def
proof (intro conjI allI impI)
  fix k assume k: "0 < k" "k < n" "k \<noteq> i" "(k - 1) div 2 \<noteq> i"
  then have "(k - 1) div 2 < n" by auto
  with k b eq show "key h' ((k - 1) div 2) \<le> key h' k" by (simp add: heap_but_def)
next
  fix k assume k: "0 < k" "k < n" "(k - 1) div 2 = i" "0 < i"
  then have "(i - 1) div 2 < n" "(i - 1) div 2 \<noteq> i" "k \<noteq> i" by auto
  with k b eq show "key h' ((i - 1) div 2) \<le> key h' k" by (simp add: heap_but_def)
qed

end

section \<open>The queue\<close>

text \<open>
  A pointer is the position of its entry in the store, in the order of allocation: items and byKey
  hold pointers, so a write through one is seen through the other.
\<close>

record ttl_entry =
  te_host :: string
  te_next :: gotime
  te_index :: nat

record ttl_queue =
  tq_store :: "ttl_entry list"
  tq_items :: "nat list"
  tq_byKey :: "(string, nat) gomap"

definition tq_key :: "ttl_queue \<Rightarrow> nat \<Rightarrow> gotime" where
  "tq_key q i = te_next (tq_store q ! (tq_items q ! i))"

definition tq_len :: "ttl_queue \<Rightarrow> nat" where
  "tq_len q = length (tq_items q)"

definition tq_less :: "ttl_queue \<Rightarrow> nat \<Rightarrow> nat \<Rightarrow> bool" where
  "tq_less q i j \<longleftrightarrow> te_next (tq_store q ! (tq_items q ! i)) < te_next (tq_store q ! (tq_items q ! j))"

definition set_index :: "nat \<Rightarrow> nat \<Rightarrow> ttl_entry list \<Rightarrow> ttl_entry list" where
  "set_index p i st = st[p := (st ! p)\<lparr>te_index := i\<rparr>]"

definition tq_swap :: "ttl_queue \<Rightarrow> nat \<Rightarrow> nat \<Rightarrow> ttl_queue" where
  "tq_swap q i j =
     (let its = (tq_items q)[i := tq_items q ! j, j := tq_items q ! i] in
      q\<lparr>tq_items := its, tq_store := set_index (its ! j) j (set_index (its ! i) i (tq_store q))\<rparr>)"

definition tq_push :: "nat \<Rightarrow> ttl_queue \<Rightarrow> ttl_queue" where
  "tq_push p q = q\<lparr>tq_store := set_index p (length (tq_items q)) (tq_store q),
     tq_items := tq_items q @ [p]\<rparr>"

definition tq_pop :: "ttl_queue \<Rightarrow> nat \<times> ttl_queue" where
  "tq_pop q = (let n = length (tq_items q); p = tq_items q ! (n - 1) in
     (p, q\<lparr>tq_items := take (n - 1) (tq_items q),
           tq_byKey := del (te_host (tq_store q ! p)) (tq_byKey q)\<rparr>))"

definition NewTTLQueue :: ttl_queue where
  "NewTTLQueue = \<lparr>tq_store = [], tq_items = [], tq_byKey = []\<rparr>"

definition tq_Upsert :: "gotime \<Rightarrow> string \<Rightarrow> duration \<Rightarrow> ttl_queue \<Rightarrow> ttl_queue" where
  "tq_Upsert now hostname ttl q =
     (let nxt = now + ttl in
      case map_of (tq_byKey q) hostname of
        Some p \<Rightarrow>
          let q1 = q\<lparr>tq_store := (tq_store q)[p := (tq_store q ! p)\<lparr>te_next := nxt\<rparr>]\<rparr> in
          heap_Fix tq_len tq_less tq_swap q1 (te_index (tq_store q1 ! p))
      | None \<Rightarrow>
          let p = length (tq_store q);
              q1 = q\<lparr>tq_store := tq_store q @ [\<lparr>te_host = hostname, te_next = nxt, te_index = 0\<rparr>]\<rparr>;
              q2 = tq_push p q1;
              q3 = heap_up tq_less tq_swap q2 (tq_len q2 - 1)
          in q3\<lparr>tq_byKey := put hostname p (tq_byKey q3)\<rparr>)"

definition tq_PeekNext :: "ttl_queue \<Rightarrow> gotime" where
  "tq_PeekNext q = (if tq_items q = [] then zero_time else te_next (tq_store q ! (tq_items q ! 0)))"

definition tq_MinDelay :: "gotime \<Rightarrow> duration \<Rightarrow> ttl_queue \<Rightarrow> duration" where
  "tq_MinDelay now floor q =
     (let next = tq_PeekNext q in
      if next = zero_time then floor
      else let d = time_sub next now in if d < floor then floor else d)"

section \<open>The heap of the queue\<close>

lemma te_next_set_index [simp]: "te_next (set_index p i st ! k) = te_next (st ! k)"
  by (cases "p < length st"; cases "k = p") (auto simp: set_index_def list_update_beyond not_less)

lemma te_host_set_index [simp]: "te_host (set_index p i st ! k) = te_host (st ! k)"
  by (cases "p < length st"; cases "k = p") (auto simp: set_index_def list_update_beyond not_less)

lemma length_set_index [simp]: "length (set_index p i st) = length st"
  by (simp add: set_index_def)

lemma te_index_set_index:
  "p < length st \<Longrightarrow> te_index (set_index p i st ! k) = (if k = p then i else te_index (st ! k))"
  by (auto simp: set_index_def)

interpretation ttl_heap: heap_interface tq_len tq_less tq_swap tq_key
  by unfold_locales (auto simp: tq_len_def tq_less_def tq_key_def tq_swap_def Let_def nth_list_update)

text \<open>The part of the invariant Swap keeps, relative to the state before the heap operation.\<close>

definition items_ok :: "ttl_queue \<Rightarrow> bool" where
  "items_ok q \<longleftrightarrow> distinct (tq_items q) \<and> (\<forall>p \<in> set (tq_items q). p < length (tq_store q)) \<and>
     (\<forall>i < length (tq_items q). te_index (tq_store q ! (tq_items q ! i)) = i)"

definition same_entries :: "ttl_queue \<Rightarrow> ttl_queue \<Rightarrow> bool" where
  "same_entries q q' \<longleftrightarrow> tq_byKey q' = tq_byKey q \<and> set (tq_items q') = set (tq_items q) \<and>
     length (tq_items q') = length (tq_items q) \<and>
     (\<forall>p. te_host (tq_store q' ! p) = te_host (tq_store q ! p) \<and>
          te_next (tq_store q' ! p) = te_next (tq_store q ! p))"

lemma swap_items_ok:
  assumes "items_ok q" "i < tq_len q" "j < tq_len q"
  shows "items_ok (tq_swap q i j)"
proof -
  define its where "its = (tq_items q)[i := tq_items q ! j, j := tq_items q ! i]"
  have li: "length its = length (tq_items q)" by (simp add: its_def)
  have d: "distinct its" and s: "set its = set (tq_items q)"
    using assms by (auto simp: its_def items_ok_def tq_len_def)
  have r: "its ! i < length (tq_store q)" "its ! j < length (tq_store q)"
    using assms s by (auto simp: items_ok_def tq_len_def its_def nth_list_update)
  have "te_index (set_index (its ! j) j (set_index (its ! i) i (tq_store q)) ! (its ! k)) = k"
    if "k < length its" for k
  proof -
    have k: "k < length (tq_items q)" using that by (simp add: its_def)
    have "its ! k = its ! i \<longleftrightarrow> k = i" "its ! k = its ! j \<longleftrightarrow> k = j"
      using nth_eq_iff_index_eq [OF d that] assms(2,3) li by (simp_all add: tq_len_def)
    then show ?thesis
      using assms k r by (auto simp: te_index_set_index items_ok_def its_def nth_list_update)
  qed
  with d s r assms(1) show ?thesis
    by (auto simp: items_ok_def tq_swap_def Let_def its_def [symmetric])
qed

lemma swap_same_entries:
  assumes "same_entries q0 q" "i < tq_len q" "j < tq_len q"
  shows "same_entries q0 (tq_swap q i j)"
  using assms by (auto simp: same_entries_def tq_swap_def Let_def tq_len_def)

lemma up_queue:
  "items_ok q \<Longrightarrow> i < tq_len q \<Longrightarrow>
   items_ok (heap_up tq_less tq_swap q i) \<and> same_entries q (heap_up tq_less tq_swap q i)"
  using ttl_heap.up_keeps [of "\<lambda>r. items_ok r \<and> same_entries q r" q i]
  by (simp add: swap_items_ok swap_same_entries) (simp add: same_entries_def)

lemma fix_queue:
  "items_ok q \<Longrightarrow> i < tq_len q \<Longrightarrow>
   items_ok (heap_Fix tq_len tq_less tq_swap q i) \<and> same_entries q (heap_Fix tq_len tq_less tq_swap q i)"
  using ttl_heap.fix_keeps [of "\<lambda>r. items_ok r \<and> same_entries q r" q i]
  by (simp add: swap_items_ok swap_same_entries) (simp add: same_entries_def)

section \<open>The schedule the queue keeps\<close>

definition queue_ok :: "ttl_queue \<Rightarrow> bool" where
  "queue_ok q \<longleftrightarrow> items_ok q \<and> gomap_ok (tq_byKey q) \<and>
     (\<forall>h p. map_of (tq_byKey q) h = Some p \<longleftrightarrow> p \<in> set (tq_items q) \<and> te_host (tq_store q ! p) = h)"

definition ttl_ok :: "ttl_queue \<Rightarrow> bool" where
  "ttl_ok q \<longleftrightarrow> queue_ok q \<and> ttl_heap.heap q (tq_len q)"

definition schedule :: "ttl_queue \<Rightarrow> string \<Rightarrow> gotime option" where
  "schedule q h = map_option (\<lambda>p. te_next (tq_store q ! p)) (map_of (tq_byKey q) h)"

lemma ttl_ok_new: "ttl_ok NewTTLQueue"
  by (simp add: ttl_ok_def queue_ok_def items_ok_def NewTTLQueue_def ttl_heap.heap_def tq_len_def)

lemma ran_schedule:
  "queue_ok q \<Longrightarrow> ran (schedule q) = (\<lambda>p. te_next (tq_store q ! p)) ` set (tq_items q)"
  unfolding queue_ok_def ran_def schedule_def by fastforce

lemma Upsert_known:
  assumes ok: "ttl_ok q" and p: "map_of (tq_byKey q) h = Some p"
  shows "ttl_ok (tq_Upsert now h ttl q)" "schedule (tq_Upsert now h ttl q) = (schedule q)(h \<mapsto> now + ttl)"
proof -
  define q1 where "q1 = q\<lparr>tq_store := (tq_store q)[p := (tq_store q ! p)\<lparr>te_next := now + ttl\<rparr>]\<rparr>"
  define i where "i = te_index (tq_store q1 ! p)"
  define q2 where "q2 = heap_Fix tq_len tq_less tq_swap q1 i"
  have U: "tq_Upsert now h ttl q = q2" by (simp add: tq_Upsert_def p q1_def q2_def i_def Let_def)
  have okq: "items_ok q" "gomap_ok (tq_byKey q)"
    "\<And>h p. map_of (tq_byKey q) h = Some p \<longleftrightarrow> p \<in> set (tq_items q) \<and> te_host (tq_store q ! p) = h"
    using ok by (auto simp: ttl_ok_def queue_ok_def)
  have pr: "p \<in> set (tq_items q)" "p < length (tq_store q)" "te_host (tq_store q ! p) = h"
    using okq p by (auto simp: items_ok_def)
  have st: "te_host (tq_store q1 ! k) = te_host (tq_store q ! k)"
    "te_index (tq_store q1 ! k) = te_index (tq_store q ! k)"
    "te_next (tq_store q1 ! k) = (if k = p then now + ttl else te_next (tq_store q ! k))" for k
    using pr by (auto simp: q1_def nth_list_update)
  have its: "tq_items q1 = tq_items q" "tq_byKey q1 = tq_byKey q" "length (tq_store q1) = length (tq_store q)"
    by (simp_all add: q1_def)
  obtain j where j: "j < length (tq_items q)" "tq_items q ! j = p" using pr by (auto simp: in_set_conv_nth)
  then have ij: "i = j" using okq(1) by (auto simp: i_def st items_ok_def)
  have ok1: "items_ok q1" using okq(1) by (auto simp: items_ok_def its st)
  have i: "i < tq_len q1" using j ij by (simp add: tq_len_def its)
  have keys: "tq_key q1 k = tq_key q k" if "k < length (tq_items q)" "k \<noteq> i" for k
    using that okq(1) j ij by (auto simp: tq_key_def its st items_ok_def nth_eq_iff_index_eq)
  have "ttl_heap.heap_but q1 (tq_len q1) i"
    using ttl_heap.heap_but_cong [of q "tq_len q1" i q1] ttl_heap.heap_butI [of q "tq_len q1" i] ok i keys
    by (simp add: ttl_ok_def tq_len_def its)
  then have heap: "ttl_heap.heap q2 (tq_len q1)" using ttl_heap.fix_heap [OF i] by (simp add: q2_def)
  have ok2: "items_ok q2" and se: "same_entries q1 q2" using fix_queue [OF ok1 i] by (auto simp: q2_def)
  have "queue_ok q2"
    using ok2 se okq by (auto simp: queue_ok_def same_entries_def its st)
  with heap se show "ttl_ok (tq_Upsert now h ttl q)"
    by (simp add: U ttl_ok_def same_entries_def tq_len_def)
  have "schedule q2 h' = ((schedule q)(h \<mapsto> now + ttl)) h'" for h'
  proof (cases "map_of (tq_byKey q) h'")
    case (Some p')
    have "te_host (tq_store q ! p') = h'" using okq(3) Some by blast
    then have "p' = p \<longleftrightarrow> h' = h" using Some p pr(3) by (metis option.inject)
    with Some p se show ?thesis by (auto simp: schedule_def same_entries_def its st)
  qed (use p se in \<open>auto simp: schedule_def same_entries_def its\<close>)
  then show "schedule (tq_Upsert now h ttl q) = (schedule q)(h \<mapsto> now + ttl)" unfolding U by blast
qed

lemma Upsert_new:
  assumes ok: "ttl_ok q" and p: "map_of (tq_byKey q) h = None"
  shows "ttl_ok (tq_Upsert now h ttl q)" "schedule (tq_Upsert now h ttl q) = (schedule q)(h \<mapsto> now + ttl)"
proof -
  define a where "a = length (tq_store q)"
  define q2 where "q2 = tq_push a (q\<lparr>tq_store := tq_store q @
      [\<lparr>te_host = h, te_next = now + ttl, te_index = 0\<rparr>]\<rparr>)"
  define q3 where "q3 = heap_up tq_less tq_swap q2 (tq_len q2 - 1)"
  have U: "tq_Upsert now h ttl q = q3\<lparr>tq_byKey := put h a (tq_byKey q3)\<rparr>"
    by (simp add: tq_Upsert_def p a_def q2_def q3_def Let_def)
  have okq: "items_ok q" "gomap_ok (tq_byKey q)"
    "\<And>h p. map_of (tq_byKey q) h = Some p \<longleftrightarrow> p \<in> set (tq_items q) \<and> te_host (tq_store q ! p) = h"
    using ok by (auto simp: ttl_ok_def queue_ok_def)
  have its: "tq_items q2 = tq_items q @ [a]" "tq_byKey q2 = tq_byKey q" "length (tq_store q2) = Suc a"
    by (simp_all add: q2_def tq_push_def a_def)
  have old: "k < a" if "k \<in> set (tq_items q)" for k using that okq(1) by (auto simp: items_ok_def a_def)
  have st: "te_host (tq_store q2 ! k) = (if k = a then h else te_host (tq_store q ! k))"
    "te_index (tq_store q2 ! k) = (if k = a then length (tq_items q) else te_index (tq_store q ! k))"
    "te_next (tq_store q2 ! k) = (if k = a then now + ttl else te_next (tq_store q ! k))" if "k \<le> a" for k
    using that by (auto simp: q2_def tq_push_def a_def nth_append te_index_set_index)
  have "te_index (tq_store q2 ! (tq_items q ! k)) = k" if "k < length (tq_items q)" for k
    using old [OF nth_mem [OF that]] that okq(1) by (simp add: st items_ok_def)
  then have ok2: "items_ok q2"
    using okq(1) old by (auto simp: items_ok_def its st nth_append less_Suc_eq dest: less_imp_le)
  have i: "tq_len q2 - 1 < tq_len q2" by (simp add: tq_len_def its)
  have keys: "tq_key q2 k = tq_key q k" if "k < length (tq_items q)" for k
    using old [OF nth_mem [OF that]] that by (simp add: tq_key_def its nth_append st)
  have hq: "ttl_heap.heap q (length (tq_items q))" using ok by (simp add: ttl_ok_def tq_len_def)
  have hb: "ttl_heap.heap_but q2 (tq_len q2) (tq_len q2 - 1)"
    using hq keys by (auto simp: ttl_heap.heap_but_def ttl_heap.heap_def tq_len_def its)
  have ab: "ttl_heap.above_children q2 (tq_len q2) (tq_len q2 - 1)"
    by (auto simp: ttl_heap.above_children_def)
  have heap: "ttl_heap.heap q3 (tq_len q2)"
    using ttl_heap.up_heap [OF i refl hb ab] by (simp add: q3_def)
  have ok3: "items_ok q3" and se: "same_entries q2 q3" using up_queue [OF ok2 i] by (auto simp: q3_def)
  have set3: "set (tq_items q3) = insert a (set (tq_items q))" using se by (simp add: same_entries_def its)
  have nh: "te_host (tq_store q ! k) \<noteq> h" if "k \<in> set (tq_items q)" for k
    using okq(3) [of h k] p that by simp
  have an: "a \<notin> set (tq_items q)" using old by blast
  have host3: "te_host (tq_store q3 ! a) = h"
    "\<And>k. k \<in> set (tq_items q) \<Longrightarrow> te_host (tq_store q3 ! k) = te_host (tq_store q ! k)"
    using se old by (auto simp: same_entries_def st less_imp_le dest: less_imp_neq)
  have by3: "tq_byKey q3 = tq_byKey q" using se by (simp add: same_entries_def its)
  have "map_of (put h a (tq_byKey q3)) x = Some y \<longleftrightarrow>
      y \<in> set (tq_items q3) \<and> te_host (tq_store q3 ! y) = x" for x y
  proof (cases "x = h")
    case True
    then show ?thesis using nh an host3 by (auto simp: set3)
  next
    case False
    then show ?thesis using okq(3) [of x y] nh an host3 by (auto simp: set3 by3)
  qed
  then have "queue_ok (q3\<lparr>tq_byKey := put h a (tq_byKey q3)\<rparr>)"
    using ok3 okq(2) unfolding queue_ok_def by (auto simp: items_ok_def by3)
  moreover have "ttl_heap.heap (q3\<lparr>tq_byKey := put h a (tq_byKey q3)\<rparr>) (tq_len q2)"
    using heap by (simp add: ttl_heap.heap_def tq_key_def)
  ultimately show "ttl_ok (tq_Upsert now h ttl q)"
    using se by (simp add: U ttl_ok_def same_entries_def tq_len_def)
  have "schedule (q3\<lparr>tq_byKey := put h a (tq_byKey q3)\<rparr>) h' = ((schedule q)(h \<mapsto> now + ttl)) h'" for h'
  proof (cases "map_of (tq_byKey q) h'")
    case (Some p')
    then have "p' < a" using okq(3) old by blast
    with Some p se show ?thesis by (auto simp: schedule_def same_entries_def its st)
  qed (use p se in \<open>auto simp: schedule_def same_entries_def its st\<close>)
  then show "schedule (tq_Upsert now h ttl q) = (schedule q)(h \<mapsto> now + ttl)" unfolding U by blast
qed

lemma PeekNext_least:
  assumes ok: "ttl_ok q"
  shows "tq_PeekNext q = (if ran (schedule q) = {} then zero_time else Min (ran (schedule q)))"
proof (cases "tq_items q = []")
  case True
  with ok show ?thesis by (simp add: tq_PeekNext_def ran_schedule ttl_ok_def)
next
  case False
  have r: "ran (schedule q) = (\<lambda>p. te_next (tq_store q ! p)) ` set (tq_items q)"
    using ok by (simp add: ran_schedule ttl_ok_def)
  have "Min (ran (schedule q)) = tq_key q 0"
  proof (rule Min_eqI)
    show "finite (ran (schedule q))" by (simp add: r)
    show "tq_key q 0 \<in> ran (schedule q)" using False by (simp add: r tq_key_def)
    fix t assume "t \<in> ran (schedule q)"
    then obtain k where "k < tq_len q" "t = tq_key q k"
      by (auto simp: r tq_key_def tq_len_def in_set_conv_nth)
    then show "tq_key q 0 \<le> t" using ok ttl_heap.root_least [of q "tq_len q" k] by (simp add: ttl_ok_def)
  qed
  with False show ?thesis by (simp add: r tq_PeekNext_def tq_key_def)
qed

section \<open>What a scheduler's client relies on\<close>

text \<open>
  The reconcilers keep one refresh time per hostname and ask for the delay until the next one. The
  contract names the operations they call and what these promise about the times that are due.
\<close>

locale refresh_schedule =
  fixes upsert :: "gotime \<Rightarrow> string \<Rightarrow> duration \<Rightarrow> 'q \<Rightarrow> 'q"
    and min_delay :: "gotime \<Rightarrow> duration \<Rightarrow> 'q \<Rightarrow> duration"
    and ok :: "'q \<Rightarrow> bool"
    and due :: "'q \<Rightarrow> string \<Rightarrow> gotime option"
  assumes ok_upsert: "ok q \<Longrightarrow> ok (upsert now h ttl q)"
    and due_upsert: "ok q \<Longrightarrow> due (upsert now h ttl q) = (due q)(h \<mapsto> now + ttl)"
    and delay_floor: "floor \<le> min_delay now floor q"
    and delay_due: "ok q \<Longrightarrow> due q h = Some t \<Longrightarrow> min_delay now floor q \<le> max floor (time_sub t now)"
begin

lemma delay_after_upsert:
  assumes "ok q" "0 \<le> ttl" "now \<le> now'"
  shows "min_delay now' floor (upsert now h ttl q) \<le> max floor ttl"
proof -
  have "due (upsert now h ttl q) h = Some (now + ttl)" by (simp add: due_upsert assms)
  then have "min_delay now' floor (upsert now h ttl q) \<le> max floor (time_sub (now + ttl) now')"
    by (rule delay_due [OF ok_upsert [OF assms(1)]])
  also have "time_sub (now + ttl) now' \<le> ttl" using assms by (auto simp: time_sub_def sat64_def)
  then have "max floor (time_sub (now + ttl) now') \<le> max floor ttl" by auto
  finally show ?thesis .
qed

fun upserts :: "(gotime \<times> string \<times> duration) list \<Rightarrow> 'q \<Rightarrow> 'q" where
  "upserts [] q = q"
| "upserts ((now, h, ttl) # us) q = upserts us (upsert now h ttl q)"

lemma ok_upserts: "ok q \<Longrightarrow> ok (upserts us q)"
  by (induction us q rule: upserts.induct) (simp_all add: ok_upsert)

lemma due_upserts:
  "ok q \<Longrightarrow> due (upserts us q) = (due q) ++ map_of (rev (map (\<lambda>(now, h, ttl). (h, now + ttl)) us))"
proof (induction us q rule: upserts.induct)
  case (2 now h ttl us q)
  show ?case
    using 2 by (auto simp: ok_upsert due_upsert map_add_def fun_eq_iff split: option.splits)
qed simp

end

lemma MinDelay_eq:
  assumes "ttl_ok q"
  shows "tq_MinDelay now floor q =
    (if ran (schedule q) = {} \<or> Min (ran (schedule q)) = zero_time then floor
     else max floor (time_sub (Min (ran (schedule q))) now))"
  using PeekNext_least [OF assms] by (simp add: tq_MinDelay_def Let_def max_def)

lemma MinDelay_floor: "floor \<le> tq_MinDelay now floor q"
  by (simp add: tq_MinDelay_def Let_def)

lemma schedule_finite: "ttl_ok q \<Longrightarrow> finite (ran (schedule q))"
  by (simp add: ttl_ok_def ran_schedule)

lemma MinDelay_due:
  assumes "ttl_ok q" "schedule q h = Some t"
  shows "tq_MinDelay now floor q \<le> max floor (time_sub t now)"
proof -
  have t: "t \<in> ran (schedule q)" using assms(2) by (auto simp: ran_def)
  then have "Min (ran (schedule q)) \<le> t" using assms(1) by (simp add: schedule_finite)
  then have "time_sub (Min (ran (schedule q))) now \<le> time_sub t now"
    by (simp add: time_sub_def sat64_mono)
  then show ?thesis by (auto simp: MinDelay_eq [OF assms(1)])
qed

lemma Upsert_ok_schedule:
  assumes "ttl_ok q"
  shows "ttl_ok (tq_Upsert now h ttl q) \<and> schedule (tq_Upsert now h ttl q) = (schedule q)(h \<mapsto> now + ttl)"
  using Upsert_known [OF assms] Upsert_new [OF assms] by (cases "map_of (tq_byKey q) h") auto

interpretation refresh: refresh_schedule tq_Upsert tq_MinDelay ttl_ok schedule
  by unfold_locales (simp_all add: Upsert_ok_schedule MinDelay_floor MinDelay_due)

section \<open>Properties\<close>

text \<open>C8. Upsert implements a map update. On a queue whose slice is a heap, whose index fields hold
  the slice positions and whose map points at exactly the slice's entries, Upsert keeps all three and
  changes the schedule at this hostname only, to the clock reading plus the TTL, for a hostname it
  knows (heap.Fix at the stored index) and for a new one (heap.Push).\<close>

theorem ttl_upsert_updates_schedule:
  assumes "ttl_ok q"
  shows "ttl_ok (tq_Upsert now h ttl q) \<and> schedule (tq_Upsert now h ttl q) = (schedule q)(h \<mapsto> now + ttl)"
  using assms by (rule Upsert_ok_schedule)

lemma ttl_upsert_updates_schedule_witness:
  "schedule (tq_Upsert 5 ''a.io'' 30 NewTTLQueue) ''a.io'' = Some 35"
  using ttl_upsert_updates_schedule [OF ttl_ok_new, of 5 "''a.io''" 30] by simp

text \<open>C19. The delay is right. Whatever sequence of upserts built the queue, MinDelay never returns
  less than the floor; if some hostname is scheduled it returns the time to the earliest one, or the
  floor when that is sooner (or already past); and it returns the floor on an empty queue.\<close>

theorem ttl_min_delay_exact:
  assumes "q = refresh.upserts us NewTTLQueue" and "\<forall>(now, h, ttl) \<in> set us. now + ttl \<noteq> zero_time"
  shows "tq_MinDelay now floor q =
    (if us = [] then floor
     else max floor (time_sub (Min (ran (map_of (rev (map (\<lambda>(now, h, ttl). (h, now + ttl)) us))))) now))"
proof -
  let ?m = "map_of (rev (map (\<lambda>(now, h, ttl). (h, now + ttl)) us))"
  have ok: "ttl_ok q" using assms(1) refresh.ok_upserts [OF ttl_ok_new] by simp
  have "schedule NewTTLQueue = Map.empty" by (simp add: schedule_def NewTTLQueue_def fun_eq_iff)
  then have s: "schedule q = ?m" using assms(1) refresh.due_upserts [OF ttl_ok_new, of us] by simp
  have e: "ran ?m = {} \<longleftrightarrow> us = []"
    by (cases us rule: rev_cases) (auto simp: ran_def split: prod.splits)
  have z: "zero_time \<notin> ran ?m"
  proof
    assume "zero_time \<in> ran ?m"
    then obtain h where "?m h = Some zero_time" by (auto simp: ran_def)
    then have "(h, zero_time) \<in> set (rev (map (\<lambda>(now, h, ttl). (h, now + ttl)) us))"
      by (rule map_of_SomeD)
    with assms(2) show False by force
  qed
  have "Min (ran ?m) \<noteq> zero_time" if "us \<noteq> []"
    using Min_in [OF schedule_finite [OF ok]] that e z s by metis
  with e show ?thesis by (simp add: MinDelay_eq [OF ok] s)
qed

lemma ttl_min_delay_exact_witness:
  "tq_MinDelay 10 5 (refresh.upserts [(0, ''a.io'', 60), (1, ''b.io'', 30)] NewTTLQueue) = 21"
proof -
  let ?us = "[(0, ''a.io'', 60), (1, ''b.io'', 30)] :: (gotime \<times> string \<times> duration) list"
  have r: "ran (map_of (rev (map (\<lambda>(now, h, ttl). (h, now + ttl)) ?us))) = {31, 60}"
    by (simp add: ran_map_upd)
  have "tq_MinDelay 10 5 (refresh.upserts ?us NewTTLQueue) = max 5 (time_sub (Min {31, 60}) 10)"
    using ttl_min_delay_exact [OF refl, of ?us 10 5] unfolding r by (simp add: zero_time_def)
  then show ?thesis by (simp add: time_sub_def sat64_def)
qed

end
