(* ===== verification/ChurnTracker.thy ===== *)
theory ChurnTracker
  imports GoLib
begin

text \<open>
  internal/dns/churn\_tracker.go: a ring of the last ten address sets per hostname. A
  map[string]struct{} is the list of its keys (nil is the empty one); only its members and its size
  are used, so the order of a range over it does not show.
\<close>

section \<open>State and operations\<close>

definition churnRingSize :: nat where
  "churnRingSize = 10"

record churn_ring =
  cr_slots :: "string list list"
  cr_head :: nat

type_synonym churn_tracker = "(string, churn_ring) gomap"

definition NewChurnTracker :: churn_tracker where
  "NewChurnTracker = []"

definition new_ring :: churn_ring where
  "new_ring = \<lparr>cr_slots = replicate churnRingSize [], cr_head = 0\<rparr>"

definition ring_write :: "string list \<Rightarrow> churn_ring \<Rightarrow> churn_ring" where
  "ring_write ips r = \<lparr>cr_slots = (cr_slots r)[cr_head r := unique_from [] ips],
     cr_head = (cr_head r + 1) mod churnRingSize\<rparr>"

definition ring_count :: "churn_ring \<Rightarrow> nat" where
  "ring_count r = length (unique_from [] (concat (cr_slots r)))"

definition churn_Record :: "string \<Rightarrow> string list \<Rightarrow> churn_tracker \<Rightarrow> nat \<times> churn_tracker" where
  "churn_Record hostname ips t =
     (let r = (case map_of t hostname of None \<Rightarrow> new_ring | Some r \<Rightarrow> r);
          r' = ring_write ips r
      in (ring_count r', put hostname r' t))"

text \<open>A run of cycles, with the count each one returns.\<close>

fun churn_run :: "(string \<times> string list) list \<Rightarrow> churn_tracker \<Rightarrow> nat list \<times> churn_tracker" where
  "churn_run [] t = ([], t)"
| "churn_run ((h, ips) # es) t =
     (let (n, t') = churn_Record h ips t; (ns, t'') = churn_run es t' in (n # ns, t''))"

section \<open>What a ring holds\<close>

text \<open>The ring after the cycles \<open>xs\<close> of one hostname: slot \<open>k\<close> has the newest cycle that wrote it.\<close>

definition ring_holds :: "string list list \<Rightarrow> churn_ring \<Rightarrow> bool" where
  "ring_holds xs r \<longleftrightarrow> length (cr_slots r) = 10 \<and> cr_head r = length xs mod 10 \<and>
     (\<forall>k < 10. set (cr_slots r ! k) =
        (\<Union>i \<in> {i. length xs - 10 \<le> i \<and> i < length xs \<and> i mod 10 = k}. set (xs ! i)))"

lemma ring_holds_new: "ring_holds [] new_ring"
  by (simp add: ring_holds_def new_ring_def churnRingSize_def)

lemma newest_slot:
  assumes "k < (10 :: nat)"
  shows "{i. Suc n - 10 \<le> i \<and> i < Suc n \<and> i mod 10 = k} =
    (if k = n mod 10 then {n} else {i. n - 10 \<le> i \<and> i < n \<and> i mod 10 = k})"
proof (rule set_eqI)
  fix i
  have "i = n" if "Suc n - 10 \<le> i" "i < Suc n" "i mod 10 = n mod 10"
  proof -
    have "10 dvd n - i" using that by (simp add: mod_eq_dvd_iff_nat [symmetric])
    then have "n - i = 0 \<or> 10 \<le> n - i" using dvd_imp_le by blast
    with that show ?thesis by linarith
  qed
  moreover have "Suc n - 10 \<le> i" if "n - 10 \<le> i" "i < n" "i mod 10 \<noteq> n mod 10"
  proof (rule ccontr)
    assume "\<not> Suc n - 10 \<le> i"
    with that have "n = i + 10" by linarith
    with that show False by simp
  qed
  ultimately show "i \<in> {i. Suc n - 10 \<le> i \<and> i < Suc n \<and> i mod 10 = k} \<longleftrightarrow>
      i \<in> (if k = n mod 10 then {n} else {i. n - 10 \<le> i \<and> i < n \<and> i mod 10 = k})"
    by (auto simp: less_Suc_eq)
qed

lemma ring_holds_write:
  assumes "ring_holds xs r"
  shows "ring_holds (xs @ [ips]) (ring_write ips r)"
proof -
  let ?n = "length xs"
  have r: "length (cr_slots r) = 10" "cr_head r = ?n mod 10"
    and old: "\<And>k. k < 10 \<Longrightarrow> set (cr_slots r ! k) =
      (\<Union>i \<in> {i. ?n - 10 \<le> i \<and> i < ?n \<and> i mod 10 = k}. set (xs ! i))"
    using assms by (auto simp: ring_holds_def)
  have "set (cr_slots (ring_write ips r) ! k) =
      (\<Union>i \<in> {i. Suc ?n - 10 \<le> i \<and> i < Suc ?n \<and> i mod 10 = k}. set ((xs @ [ips]) ! i))"
    if k: "k < 10" for k
  proof (cases "k = ?n mod 10")
    case True
    then show ?thesis
      using newest_slot [OF k, of ?n] r by (simp add: ring_write_def set_unique_from)
  next
    case False
    have "set (cr_slots (ring_write ips r) ! k) = set (cr_slots r ! k)"
      using False r by (simp add: ring_write_def)
    then show ?thesis
      using newest_slot [OF k, of ?n] False old [OF k] by (simp add: nth_append)
  qed
  with r show ?thesis
    by (auto simp: ring_holds_def churnRingSize_def ring_write_def mod_Suc)
qed

lemma ring_holds_count:
  assumes "ring_holds xs r"
  shows "ring_count r = card (\<Union> (set ` set (drop (length xs - 10) xs)))"
proof -
  let ?n = "length xs"
  have "set (cr_slots r) = (\<lambda>k. cr_slots r ! k) ` {..<10}"
    using assms by (auto simp: ring_holds_def set_conv_nth)
  then have "set (concat (cr_slots r)) = (\<Union>k \<in> {..<10}. set (cr_slots r ! k))" by simp
  also have "\<dots> = (\<Union>k \<in> {..<10}. \<Union>i \<in> {i. ?n - 10 \<le> i \<and> i < ?n \<and> i mod 10 = k}. set (xs ! i))"
    using assms by (simp add: ring_holds_def)
  also have "\<dots> = (\<Union>i \<in> {i. ?n - 10 \<le> i \<and> i < ?n}. set (xs ! i))"
  proof (intro equalityI subsetI)
    fix x assume "x \<in> (\<Union>i \<in> {i. ?n - 10 \<le> i \<and> i < ?n}. set (xs ! i))"
    then obtain i where "?n - 10 \<le> i" "i < ?n" "x \<in> set (xs ! i)" by blast
    then show "x \<in> (\<Union>k \<in> {..<10}. \<Union>i \<in> {i. ?n - 10 \<le> i \<and> i < ?n \<and> i mod 10 = k}. set (xs ! i))"
      by (intro UN_I [of "i mod 10"] UN_I [of i]) auto
  qed auto
  also have "\<dots> = \<Union> (set ` set (drop (?n - 10) xs))"
  proof -
    have "drop (?n - 10) xs = map (nth xs) [?n - 10..<?n]"
      by (metis add_0 drop_map drop_upt map_nth)
    then show ?thesis by auto
  qed
  finally show ?thesis
    using distinct_card [OF distinct_unique_from [of "[]" "concat (cr_slots r)"]]
    by (simp add: ring_count_def set_unique_from)
qed

text \<open>The cycles of one hostname in a run, and the invariant over the whole tracker.\<close>

definition cycles_of :: "string \<Rightarrow> (string \<times> string list) list \<Rightarrow> string list list" where
  "cycles_of h es = map snd (filter (\<lambda>(g, ips). g = h) es)"

definition ring_of :: "churn_tracker \<Rightarrow> string \<Rightarrow> churn_ring" where
  "ring_of t h = (case map_of t h of None \<Rightarrow> new_ring | Some r \<Rightarrow> r)"

definition tracker_holds :: "(string \<times> string list) list \<Rightarrow> churn_tracker \<Rightarrow> bool" where
  "tracker_holds es t \<longleftrightarrow> (\<forall>h. ring_holds (cycles_of h es) (ring_of t h))"

lemma tracker_step:
  assumes "tracker_holds es t"
  shows "tracker_holds (es @ [(h, ips)]) (snd (churn_Record h ips t))"
    and "fst (churn_Record h ips t) =
      card (\<Union> (set ` set (drop (length (cycles_of h es) + 1 - 10) (cycles_of h es @ [ips]))))"
proof -
  define r where "r = ring_of t h"
  have "ring_holds (cycles_of h es) r" using assms by (simp add: tracker_holds_def r_def)
  then have w: "ring_holds (cycles_of h es @ [ips]) (ring_write ips r)" by (rule ring_holds_write)
  have rec: "churn_Record h ips t = (ring_count (ring_write ips r), put h (ring_write ips r) t)"
    by (simp add: churn_Record_def r_def ring_of_def Let_def)
  show "fst (churn_Record h ips t) =
      card (\<Union> (set ` set (drop (length (cycles_of h es) + 1 - 10) (cycles_of h es @ [ips]))))"
    using ring_holds_count [OF w] by (simp add: rec)
  have c: "cycles_of g (es @ [(h, ips)]) = (if g = h then cycles_of h es @ [ips] else cycles_of g es)" for g
    by (simp add: cycles_of_def)
  show "tracker_holds (es @ [(h, ips)]) (snd (churn_Record h ips t))"
    using assms w by (auto simp: tracker_holds_def c rec ring_of_def)
qed

lemma churn_run_holds:
  "tracker_holds es0 t \<Longrightarrow> tracker_holds (es0 @ es) (snd (churn_run es t))"
proof (induction es t arbitrary: es0 rule: churn_run.induct)
  case (2 h ips es t)
  obtain n t' where r: "churn_Record h ips t = (n, t')" by (cases "churn_Record h ips t")
  then have "tracker_holds (es0 @ [(h, ips)]) t'" using tracker_step(1) [OF "2.prems", of h ips] by simp
  then have "tracker_holds ((es0 @ [(h, ips)]) @ es) (snd (churn_run es t'))"
    by (rule "2.IH" [OF refl r [symmetric]])
  then show ?case by (cases "churn_run es t'") (simp add: r)
qed simp

section \<open>Properties\<close>

text \<open>C21. The churn rate is the size of a sliding window. After any run of resolution cycles over any
  hostnames, recording one more cycle of a hostname returns the number of distinct addresses in the
  union of its last ten cycles, this one included, whatever the other hostnames did.\<close>

theorem churn_counts_window:
  "fst (churn_Record h ips (snd (churn_run es NewChurnTracker))) =
     card (\<Union> (set ` set (drop (length (cycles_of h es) + 1 - 10) (cycles_of h es @ [ips]))))"
proof -
  have "tracker_holds [] NewChurnTracker"
    by (simp add: tracker_holds_def NewChurnTracker_def cycles_of_def ring_of_def ring_holds_new)
  from churn_run_holds [OF this, of es] show ?thesis by (simp add: tracker_step(2))
qed

end
