(* ===== verification/Resolver.thy ===== *)
theory Resolver
  imports NetIP ApiTypes
begin

text \<open>
  internal/dns/resolver.go: the Resolution a strategy returns, the contract of the Resolver interface
  (the locale \<open>resolver\<close>) and the active A+AAAA lookup. The DNS library and the system resolver are
  not part of the repository: what they answer during one call is a \<open>dns_net\<close>, an argument of every
  definition that queries. An address record carries an address: one with empty RDATA, whose nil address
  Go prints as <nil>, has no \<open>dns_rr\<close>. The two lookups of one call run concurrently; the order in which their
  results arrive is an argument.
\<close>

section \<open>The network during a call\<close>

datatype dns_rr =
    RR_CNAME string
  | RR_A "32 word" uint32
  | RR_AAAA ip uint32
  | RR_Other

record dns_msg =
  dm_rcode :: int
  dm_ad :: bool
  dm_answer :: "dns_rr list"

text \<open>
  Exchange of a question (name and type) with a name server, net.DefaultResolver.LookupIPAddr, mdns.Fqdn
  and mdns.RcodeToString.
\<close>

record dns_net =
  dn_exchange :: "string \<Rightarrow> string \<Rightarrow> int \<Rightarrow> string + dns_msg"
  dn_lookup :: "string \<Rightarrow> string + ip list"
  dn_fqdn :: "string \<Rightarrow> string"
  dn_rcode_string :: "int \<Rightarrow> string"

abbreviation (input) TypeA :: int where "TypeA \<equiv> 1"
abbreviation (input) TypeAAAA :: int where "TypeAAAA \<equiv> 28"
abbreviation (input) RcodeSuccess :: int where "RcodeSuccess \<equiv> 0"
abbreviation (input) RcodeNameError :: int where "RcodeNameError \<equiv> 3"

section \<open>Resolutions\<close>

definition ttlFloor :: duration where
  "ttlFloor = 5 * second"

definition ttlCeiling :: duration where
  "ttlCeiling = 300 * second"

record resolution =
  rs_hostname :: string
  rs_ips :: "string list"
  rs_chain :: "string list"
  rs_ttl :: duration
  rs_dnssec :: bool
  rs_divergence :: int
  rs_results :: "(string, string list) gomap"

definition empty_resolution :: resolution where
  "empty_resolution = \<lparr>rs_hostname = [], rs_ips = [], rs_chain = [], rs_ttl = 0, rs_dnssec = False,
     rs_divergence = 0, rs_results = []\<rparr>"

definition clampTTL :: "duration \<Rightarrow> duration" where
  "clampTTL d = (if d < ttlFloor then ttlFloor else if ttlCeiling < d then ttlCeiling else d)"

section \<open>The active resolver\<close>

text \<open>
  The loop over the answer section: addresses, CNAME targets and the least TTL of the address records,
  starting from the ceiling.
\<close>

fun scan_answer ::
  "dns_rr list \<Rightarrow> string list \<times> string list \<times> uint32 \<Rightarrow> string list \<times> string list \<times> uint32" where
  "scan_answer [] acc = acc"
| "scan_answer (RR_CNAME t # rs) (ips, chain, m) = scan_answer rs (ips, chain @ [trim_suffix t ''.''], m)"
| "scan_answer (RR_A a ttl # rs) (ips, chain, m) =
     scan_answer rs (ips @ [v4_string a], chain, if ttl < m then ttl else m)"
| "scan_answer (RR_AAAA a ttl # rs) (ips, chain, m) =
     scan_answer rs (ips @ [ip_string a], chain, if ttl < m then ttl else m)"
| "scan_answer (RR_Other # rs) (ips, chain, m) = scan_answer rs (ips, chain, m)"

definition ceiling_seconds :: uint32 where
  "ceiling_seconds = word_of_int (ttlCeiling div second)"

text \<open>fallbackLookup keeps the addresses of the asked family; its TTL is 0.\<close>

definition fallbackLookup :: "dns_net \<Rightarrow> string \<Rightarrow> int \<Rightarrow> string + string list \<times> duration" where
  "fallbackLookup net hostname qtype = (case dn_lookup net hostname of
     Inl e \<Rightarrow> Inl e
   | Inr addrs \<Rightarrow> Inr (map ip_string (filter (\<lambda>x.
        (qtype = TypeA \<and> to4 x \<noteq> None) \<or> (qtype = TypeAAAA \<and> to4 x = None)) addrs), 0))"

definition active_query ::
  "dns_net \<Rightarrow> string \<Rightarrow> string \<Rightarrow> int \<Rightarrow> string + string list \<times> string list \<times> duration" where
  "active_query net ns hostname qtype = (case dn_exchange net ns (dn_fqdn net hostname) qtype of
     Inl e \<Rightarrow> (case fallbackLookup net hostname qtype of
        Inl e' \<Rightarrow> Inl e'
      | Inr (ips, ttl) \<Rightarrow> Inr (ips, [], ttl))
   | Inr resp \<Rightarrow>
       if dm_rcode resp \<noteq> RcodeSuccess then
         (if dm_rcode resp = RcodeNameError then Inr ([], [], ttlCeiling)
          else Inl (''DNS rcode '' @ dn_rcode_string net (dm_rcode resp) @ '' for '' @ hostname @
                 '' type '' @ itoa_int qtype))
       else (let (ips, chain, m) = scan_answer (dm_answer resp) ([], [], ceiling_seconds) in
             Inr (ips, chain, uint m * second)))"

text \<open>The loop that receives the two results: addresses, chain, least TTL, errors.\<close>

fun active_collect ::
  "(string + string list \<times> string list \<times> duration) list \<Rightarrow>
   string list \<times> string list \<times> duration \<times> string list \<Rightarrow>
   string list \<times> string list \<times> duration \<times> string list" where
  "active_collect [] acc = acc"
| "active_collect (Inl e # rs) (ips, chain, m, errs) = active_collect rs (ips, chain, m, errs @ [e])"
| "active_collect (Inr (ips', chain', ttl) # rs) (ips, chain, m, errs) =
     active_collect rs (ips @ ips', if chain = [] then chain' else chain, if ttl < m then ttl else m, errs)"

definition active_Resolve :: "dns_net \<Rightarrow> bool \<Rightarrow> string \<Rightarrow> string \<Rightarrow> string + resolution" where
  "active_Resolve net aaaa_first ns hostname =
     (if hostname = [] then Inl ''empty hostname''
      else
        let (ips, chain, m, errs) =
              active_collect (map (active_query net ns hostname)
                (if aaaa_first then [TypeAAAA, TypeA] else [TypeA, TypeAAAA])) ([], [], ttlCeiling, [])
        in if ips = [] then
             (if errs \<noteq> [] then Inl (hd errs) else Inl (''no A or AAAA records for '' @ hostname))
           else Inr (empty_resolution\<lparr>rs_hostname := hostname, rs_ips := ips, rs_chain := chain,
                       rs_ttl := clampTTL m\<rparr>))"

text \<open>systemNameserver: the first server of /etc/resolv.conf (the argument), or the fallback.\<close>

definition systemNameserver :: "(string list \<times> string) option \<Rightarrow> (string \<Rightarrow> string \<Rightarrow> string) \<Rightarrow> string" where
  "systemNameserver cfg join = (case cfg of
     None \<Rightarrow> ''8.8.8.8:53''
   | Some (servers, port) \<Rightarrow> if servers = [] then ''8.8.8.8:53'' else join (hd servers) port)"

section \<open>The contract of a resolver\<close>

text \<open>
  What a caller may rely on when Resolve succeeds: the answer is for this hostname, has at least one
  address, every address is text net.IP prints, and the TTL is within the clamp.
\<close>

definition ips_ok :: "string list \<Rightarrow> bool" where
  "ips_ok ips \<longleftrightarrow> (\<forall>s \<in> set ips. \<exists>x. host_text s x)"

definition resolution_ok :: "string \<Rightarrow> resolution \<Rightarrow> bool" where
  "resolution_ok h r \<longleftrightarrow> rs_hostname r = h \<and> rs_ips r \<noteq> [] \<and> ips_ok (rs_ips r) \<and>
     ttlFloor \<le> rs_ttl r \<and> rs_ttl r \<le> ttlCeiling"

locale resolver =
  fixes resolve :: "'env \<Rightarrow> 's \<Rightarrow> string \<Rightarrow> (string + resolution) \<times> 's"
    and env_ok :: "'env \<Rightarrow> bool"
    and inv :: "'s \<Rightarrow> bool"
  assumes keeps: "env_ok e \<Longrightarrow> inv s \<Longrightarrow> inv (snd (resolve e s h))"
    and answers: "env_ok e \<Longrightarrow> inv s \<Longrightarrow> fst (resolve e s h) = Inr r \<Longrightarrow> resolution_ok h r"
begin

text \<open>A run of calls, each in its own environment, as the loops over rules and prefixes make.\<close>

fun resolve_all :: "('env \<times> string) list \<Rightarrow> 's \<Rightarrow> (string \<times> (string + resolution)) list \<times> 's" where
  "resolve_all [] s = ([], s)"
| "resolve_all ((e, h) # hs) s =
     (let (r, s') = resolve e s h; (rs, s'') = resolve_all hs s' in ((h, r) # rs, s''))"

lemma resolve_all_ok:
  "(\<And>e h. (e, h) \<in> set hs \<Longrightarrow> env_ok e) \<Longrightarrow> inv s \<Longrightarrow>
   inv (snd (resolve_all hs s)) \<and>
   (\<forall>(h, r) \<in> set (fst (resolve_all hs s)). case r of Inl e \<Rightarrow> True | Inr rs \<Rightarrow> resolution_ok h rs)"
proof (induction hs s rule: resolve_all.induct)
  case (2 e h hs s)
  obtain r s' where r: "resolve e s h = (r, s')" by (cases "resolve e s h")
  have e: "env_ok e" using "2.prems" by auto
  have "inv s'" using keeps [OF e "2.prems"(2), of h] r by simp
  moreover have "case r of Inl e \<Rightarrow> True | Inr rs \<Rightarrow> resolution_ok h rs"
    using answers [OF e "2.prems"(2), of h] r by (cases r) auto
  ultimately show ?case
    using "2.IH" [OF refl r [symmetric]] "2.prems"(1) r
    by (cases "resolve_all hs s'") auto
qed simp

end

section \<open>Lemmas\<close>

lemma second_pos [simp, go_time]: "0 < second"
  by (simp add: second_def)

lemma clamp_bounds: "ttlFloor \<le> clampTTL d" "clampTTL d \<le> ttlCeiling"
  by (simp_all add: clampTTL_def ttlFloor_def ttlCeiling_def second_def)

lemma clamp_id: "ttlFloor \<le> d \<Longrightarrow> d \<le> ttlCeiling \<Longrightarrow> clampTTL d = d"
  by (simp add: clampTTL_def)

lemma v4_host_text: "host_text (v4_string w) (ip_of_v4 w)"
  using host_text_string [of "ip_of_v4 w"] by (simp add: ip_string_def)

lemma ips_ok_append [simp]: "ips_ok (xs @ ys) \<longleftrightarrow> ips_ok xs \<and> ips_ok ys"
  by (auto simp: ips_ok_def)

lemma ips_ok_subset: "ips_ok ys \<Longrightarrow> set xs \<subseteq> set ys \<Longrightarrow> ips_ok xs"
  by (auto simp: ips_ok_def)

lemma ips_ok_map [simp]: "ips_ok (map ip_string xs)"
  using host_text_string by (auto simp: ips_ok_def)

text \<open>The addresses and the least TTL of an answer section, as functions of the records.\<close>

fun rr_ip :: "dns_rr \<Rightarrow> string list" where
  "rr_ip (RR_A a ttl) = [v4_string a]"
| "rr_ip (RR_AAAA a ttl) = [ip_string a]"
| "rr_ip rr = []"

fun rr_ttl :: "dns_rr \<Rightarrow> uint32 list" where
  "rr_ttl (RR_A a ttl) = [ttl]"
| "rr_ttl (RR_AAAA a ttl) = [ttl]"
| "rr_ttl rr = []"

fun rr_target :: "dns_rr \<Rightarrow> string list" where
  "rr_target (RR_CNAME t) = [trim_suffix t ''.'']"
| "rr_target rr = []"

lemma scan_answer_eq:
  "scan_answer rs (ips, chain, m) =
     (ips @ concat (map rr_ip rs), chain @ concat (map rr_target rs),
      foldl min m (concat (map rr_ttl rs)))"
  by (induction rs "(ips, chain, m)" arbitrary: ips chain m rule: scan_answer.induct)
    (auto simp: min_def not_less intro!: arg_cong [where f = "\<lambda>m. foldl _ m _"])

lemma rr_ip_ok: "ips_ok (concat (map rr_ip rs))"
proof (induction rs)
  case (Cons r rs)
  have "ips_ok (rr_ip r)"
    by (cases r) (use v4_host_text host_text_string in \<open>auto simp: ips_ok_def\<close>)
  with Cons show ?case by simp
qed (simp add: ips_ok_def)

lemma active_query_ips_ok:
  "active_query net ns h qt = Inr (ips, chain, ttl) \<Longrightarrow> ips_ok ips"
  by (auto simp: active_query_def fallbackLookup_def scan_answer_eq rr_ip_ok ips_ok_def [of "[]"] Let_def
      split: sum.splits if_splits)

text \<open>The results of the two queries that came back, in the order they arrived.\<close>

definition answered :: "(string + string list \<times> string list \<times> duration) list \<Rightarrow> (string list \<times> string list \<times> duration) list" where
  "answered rs = concat (map (\<lambda>r. case r of Inl e \<Rightarrow> [] | Inr a \<Rightarrow> [a]) rs)"

definition failed :: "(string + string list \<times> string list \<times> duration) list \<Rightarrow> string list" where
  "failed rs = concat (map (\<lambda>r. case r of Inl e \<Rightarrow> [e] | Inr a \<Rightarrow> []) rs)"

lemma active_collect_eq:
  "active_collect rs (ips, chain, m, errs) =
     (ips @ concat (map fst (answered rs)),
      (if chain = [] then hd (filter (\<lambda>c. c \<noteq> []) (map (fst \<circ> snd) (answered rs)) @ [[]]) else chain),
      foldl min m (map (snd \<circ> snd) (answered rs)), errs @ failed rs)"
proof (induction rs "(ips, chain, m, errs)" arbitrary: ips chain m errs rule: active_collect.induct)
  case (3 ips' chain' ttl rs ips chain m errs)
  have "(if ttl < m then ttl else m) = min m ttl" by (simp add: min_def)
  with 3 show ?case by (auto simp: answered_def failed_def)
qed (auto simp: answered_def failed_def)

lemma active_Resolve_ok:
  assumes "active_Resolve net fst_aaaa ns h = Inr r"
  shows "resolution_ok h r"
proof -
  define qs where "qs = map (active_query net ns h) (if fst_aaaa then [TypeAAAA, TypeA] else [TypeA, TypeAAAA])"
  have "ips_ok (concat (map fst (answered qs)))"
    using active_query_ips_ok
    by (auto simp: ips_ok_def [of "[]"] qs_def answered_def split: sum.splits)
  then show ?thesis
    using assms clamp_bounds
    by (auto simp: active_Resolve_def qs_def [symmetric] active_collect_eq resolution_ok_def
        empty_resolution_def simp del: concat_eq_Nil_conv split: if_splits)
qed

interpretation active: resolver
  "\<lambda>(net, aaaa_first) ns h. (active_Resolve net aaaa_first ns h, ns)" "\<lambda>e. True" "\<lambda>ns. True"
  by unfold_locales (auto split: prod.splits dest: active_Resolve_ok)

section \<open>Properties\<close>

text \<open>The least TTL of the address records of an answer section, at most the ceiling.\<close>

definition least_seconds :: "dns_rr list \<Rightarrow> int" where
  "least_seconds rrs = Min (insert 300 (uint ` set (concat (map rr_ttl rrs))))"

lemma foldl_min: "foldl min m ts = Min (insert m (set ts))" for m :: "'a::linorder"
proof -
  have "foldl min m ts = fold min ts m" by (simp add: foldl_conv_fold min.commute)
  also have "\<dots> = Min (set (m # ts))" by (rule Min.set_eq_fold [symmetric])
  finally show ?thesis by simp
qed

lemma least_seconds_eq: "uint (foldl min ceiling_seconds (concat (map rr_ttl rrs))) = least_seconds rrs"
proof -
  let ?ts = "concat (map rr_ttl rrs)"
  have "mono (uint :: uint32 \<Rightarrow> int)" by (rule monoI) (simp add: word_le_def)
  then have "uint (Min (insert ceiling_seconds (set ?ts))) = Min (uint ` insert ceiling_seconds (set ?ts))"
    by (rule mono_Min_commute) simp_all
  moreover have "uint ceiling_seconds = 300" by (simp add: ceiling_seconds_def ttlCeiling_def second_def)
  ultimately show ?thesis unfolding foldl_min least_seconds_def by (simp only: image_insert)
qed

lemma answered_ttl:
  "foldl min ttlCeiling (map (snd \<circ> snd) (answered rs)) = Min (insert ttlCeiling (snd ` snd ` set (answered rs)))"
  unfolding foldl_min by (simp only: set_map image_comp)

text \<open>One query, branch by branch.\<close>

lemma active_query_eq:
  "active_query net ns h qt = (case dn_exchange net ns (dn_fqdn net h) qt of
     Inl e \<Rightarrow> (case dn_lookup net h of
         Inl e' \<Rightarrow> Inl e'
       | Inr addrs \<Rightarrow> Inr (map ip_string (filter (\<lambda>x. (qt = TypeA \<and> to4 x \<noteq> None) \<or> (qt = TypeAAAA \<and> to4 x = None)) addrs), [], 0))
   | Inr m \<Rightarrow>
       if dm_rcode m = RcodeSuccess then
         Inr (concat (map rr_ip (dm_answer m)), concat (map rr_target (dm_answer m)), least_seconds (dm_answer m) * second)
       else if dm_rcode m = RcodeNameError then Inr ([], [], ttlCeiling)
       else Inl (''DNS rcode '' @ dn_rcode_string net (dm_rcode m) @ '' for '' @ h @ '' type '' @ itoa_int qt))"
  by (simp add: active_query_def fallbackLookup_def scan_answer_eq least_seconds_eq split: sum.split)

text \<open>C23. The active lookup, on every branch. A query that is answered brings the addresses and CNAME
  targets of the answer section, in order, with the least TTL of its address records, at most 300 seconds; NXDOMAIN
  is an empty answer; another response code is an error that names it; when the exchange fails, the system's
  lookup gives the addresses of the asked family with TTL 0, or its error. Of the two queries in the order
  their results arrive, the lookup returns all addresses, the first CNAME chain that is not empty and the
  least TTL of those that came back, clamped to 5..300 seconds; without any address it returns the first
  error, or that there are no records. The empty hostname is an error.\<close>

theorem active_resolve_correct:
  "active_query net ns h TypeA = (case dn_exchange net ns (dn_fqdn net h) TypeA of
     Inl e \<Rightarrow> map_sum id (\<lambda>addrs. (map ip_string (filter (\<lambda>x. to4 x \<noteq> None) addrs), [], 0)) (dn_lookup net h)
   | Inr m \<Rightarrow>
       if dm_rcode m = RcodeSuccess then
         Inr (concat (map rr_ip (dm_answer m)), concat (map rr_target (dm_answer m)), least_seconds (dm_answer m) * second)
       else if dm_rcode m = RcodeNameError then Inr ([], [], 300 * second)
       else Inl (''DNS rcode '' @ dn_rcode_string net (dm_rcode m) @ '' for '' @ h @ '' type 1'')) \<and>
   active_query net ns h TypeAAAA = (case dn_exchange net ns (dn_fqdn net h) TypeAAAA of
     Inl e \<Rightarrow> map_sum id (\<lambda>addrs. (map ip_string (filter (\<lambda>x. to4 x = None) addrs), [], 0)) (dn_lookup net h)
   | Inr m \<Rightarrow>
       if dm_rcode m = RcodeSuccess then
         Inr (concat (map rr_ip (dm_answer m)), concat (map rr_target (dm_answer m)), least_seconds (dm_answer m) * second)
       else if dm_rcode m = RcodeNameError then Inr ([], [], 300 * second)
       else Inl (''DNS rcode '' @ dn_rcode_string net (dm_rcode m) @ '' for '' @ h @ '' type 28'')) \<and>
   active_Resolve net aaaa_first ns h =
     (let qs = map (active_query net ns h) (if aaaa_first then [TypeAAAA, TypeA] else [TypeA, TypeAAAA]);
          ips = concat (map fst (answered qs))
      in if h = [] then Inl ''empty hostname''
         else if ips = [] then Inl (hd (failed qs @ [''no A or AAAA records for '' @ h]))
         else Inr \<lparr>rs_hostname = h, rs_ips = ips,
           rs_chain = hd (filter (\<lambda>c. c \<noteq> []) (map (fst \<circ> snd) (answered qs)) @ [[]]),
           rs_ttl = max (5 * second) (min (300 * second) (Min (snd ` snd ` set (answered qs)))),
           rs_dnssec = False, rs_divergence = 0, rs_results = []\<rparr>) \<and>
   {r. active_Resolve net aaaa_first ns h = Inr r} \<subseteq> {r. resolution_ok h r}"
proof -
  let ?qs = "map (active_query net ns h) (if aaaa_first then [TypeAAAA, TypeA] else [TypeA, TypeAAAA])"
  have t: "clampTTL (Min (insert ttlCeiling (snd ` snd ` set (answered ?qs)))) =
      max (5 * second) (min (300 * second) (Min (snd ` snd ` set (answered ?qs))))"
    if "concat (map fst (answered ?qs)) \<noteq> []"
  proof -
    have "answered ?qs \<noteq> []" using that by auto
    then have "Min (insert ttlCeiling (snd ` snd ` set (answered ?qs))) = min ttlCeiling (Min (snd ` snd ` set (answered ?qs)))"
      by (intro Min_insert) simp_all
    then show ?thesis by (simp add: clampTTL_def ttlFloor_def ttlCeiling_def second_def min_def max_def)
  qed
  have r: "active_Resolve net aaaa_first ns h =
     (let qs = ?qs; ips = concat (map fst (answered qs))
      in if h = [] then Inl ''empty hostname''
         else if ips = [] then Inl (hd (failed qs @ [''no A or AAAA records for '' @ h]))
         else Inr \<lparr>rs_hostname = h, rs_ips = ips,
           rs_chain = hd (filter (\<lambda>c. c \<noteq> []) (map (fst \<circ> snd) (answered qs)) @ [[]]),
           rs_ttl = max (5 * second) (min (300 * second) (Min (snd ` snd ` set (answered qs)))),
           rs_dnssec = False, rs_divergence = 0, rs_results = []\<rparr>)"
    using t unfolding active_Resolve_def active_collect_eq answered_ttl
    by (auto simp: Let_def empty_resolution_def hd_append simp del: concat_eq_Nil_conv)
  have n: "itoa_int 1 = ''1''" "itoa_int 28 = ''28''" by code_simp+
  show ?thesis
    using r active_Resolve_ok [of net aaaa_first ns h]
    by (auto simp: active_query_eq n ttlCeiling_def split: sum.split)
qed

definition sample_net :: "dns_rr list \<Rightarrow> dns_net" where
  "sample_net rrs = \<lparr>dn_exchange = (\<lambda>ns name qt. if qt = TypeA
       then Inr \<lparr>dm_rcode = 0, dm_ad = False, dm_answer = rrs\<rparr> else Inl ''timeout''),
     dn_lookup = (\<lambda>h. Inl ''no such host''), dn_fqdn = (\<lambda>h. h @ ''.''), dn_rcode_string = (\<lambda>c. ''?'')\<rparr>"

end
