(* ===== verification/Enrich.thy ===== *)
theory Enrich
  imports ApiTypes
begin

text \<open>
  internal/enrich (cache.go, client.go, manager.go) and internal/controller/enrichment.go: the optional
  ASN enrichment of resolved addresses. RequestAsync puts a request on a bounded queue unless the cached
  entry is fresh; a worker takes one, looks it up and stores the result; buildIPEnrichments reads what is
  stored. The HTTP exchange with ipinfo.io and the decoding of its JSON body are arguments; a worker
  left alone is the step \<open>worker\<close>, the goroutines and their interleavings are in EnrichPool.
\<close>

section \<open>cache.go\<close>

record enrich_result =
  er_asn :: string
  er_org :: string
  er_country :: string

record enrich_entry =
  ee_result :: enrich_result
  ee_at :: gotime

type_synonym enrich_cache = "(string, enrich_entry) gomap"

definition cacheTTL :: duration where
  "cacheTTL = 6 * 3600 * second"

definition enrich_cache_Get :: "string \<Rightarrow> enrich_cache \<Rightarrow> enrich_entry option" where
  "enrich_cache_Get ip c = map_of c ip"

definition enrich_cache_Fresh :: "gotime \<Rightarrow> string \<Rightarrow> enrich_cache \<Rightarrow> enrich_entry option" where
  "enrich_cache_Fresh now ip c = (case enrich_cache_Get ip c of
     None \<Rightarrow> None
   | Some e \<Rightarrow> if cacheTTL \<le> time_sub now (ee_at e) then None else Some e)"

definition enrich_cache_Set :: "gotime \<Rightarrow> string \<Rightarrow> enrich_result \<Rightarrow> enrich_cache \<Rightarrow> enrich_cache" where
  "enrich_cache_Set now ip r c = put ip \<lparr>ee_result = r, ee_at = now\<rparr> c"

section \<open>client.go\<close>

text \<open>strings.SplitN with n = 2: the text before and after the first separator.\<close>

fun split2 :: "char \<Rightarrow> string \<Rightarrow> string \<Rightarrow> string list" where
  "split2 d pre [] = [pre]"
| "split2 d pre (c # s) = (if c = d then [pre, s] else split2 d (pre @ [c]) s)"

definition splitASNOrg :: "string \<Rightarrow> string \<times> string" where
  "splitASNOrg combined =
     (if combined = [] then ([], [])
      else (case split2 CHR 0x20 [] combined of
        [f, g] \<Rightarrow> if has_prefix f ''AS'' then (f, g) else ([], combined)
      | _ \<Rightarrow> ([], combined)))"

text \<open>
  The answer of the HTTP client to the request for this URL (an error, or a status code and the decoded
  body: an error, or the two fields read), and the two escapes of package net/url.
\<close>

record ipinfo_net =
  in_get :: "string \<Rightarrow> string + int \<times> (string + string \<times> string)"
  in_path_escape :: "string \<Rightarrow> string"
  in_query_escape :: "string \<Rightarrow> string"

definition defaultIPInfoBaseURL :: string where
  "defaultIPInfoBaseURL = ''https://ipinfo.io''"

record ipinfo_client =
  ic_base :: string
  ic_token :: string

definition NewIPInfoClient :: "string \<Rightarrow> ipinfo_client" where
  "NewIPInfoClient token = \<lparr>ic_base = defaultIPInfoBaseURL, ic_token = token\<rparr>"

definition ipinfo_Lookup :: "ipinfo_net \<Rightarrow> ipinfo_client \<Rightarrow> string \<Rightarrow> string + enrich_result" where
  "ipinfo_Lookup net c ip =
     (let base = (if ic_base c = [] then defaultIPInfoBaseURL else ic_base c);
          url0 = trim_suffix base ''/'' @ ''/'' @ in_path_escape net ip @ ''/json'';
          url = (if ic_token c \<noteq> [] then url0 @ ''?token='' @ in_query_escape net (ic_token c) else url0)
      in case in_get net url of
           Inl e \<Rightarrow> Inl e
         | Inr (status, body) \<Rightarrow>
             if status \<noteq> 200 then
               Inl (''ipinfo lookup for '' @ ip @ '': unexpected status '' @ itoa_int status)
             else (case body of
               Inl e \<Rightarrow> Inl (''ipinfo lookup for '' @ ip @ '': decode response: '' @ e)
             | Inr (org, country) \<Rightarrow>
                 let (asn, name) = splitASNOrg org in
                 Inr \<lparr>er_asn = asn, er_org = name, er_country = country\<rparr>))"

section \<open>manager.go\<close>

definition enrichQueueLen :: nat where
  "enrichQueueLen = 256"

record enrich_manager =
  em_client :: ipinfo_client
  em_cache :: enrich_cache
  em_queue :: "(string \<times> string) list"

definition NewManager :: "ipinfo_client \<Rightarrow> enrich_manager" where
  "NewManager c = \<lparr>em_client = c, em_cache = [], em_queue = []\<rparr>"

definition NewManagerFromConfig :: "string \<Rightarrow> string \<Rightarrow> enrich_manager option" where
  "NewManagerFromConfig mode token =
     (if mode \<noteq> ''ipinfo'' then None else Some (NewManager (NewIPInfoClient token)))"

definition manager_Get :: "string \<Rightarrow> enrich_manager \<Rightarrow> (enrich_result \<times> gotime) option" where
  "manager_Get ip m = map_option (\<lambda>e. (ee_result e, ee_at e)) (enrich_cache_Get ip (em_cache m))"

definition RequestAsync :: "gotime \<Rightarrow> string \<Rightarrow> string \<Rightarrow> enrich_manager \<Rightarrow> enrich_manager" where
  "RequestAsync now hostname ip m =
     (if enrich_cache_Fresh now ip (em_cache m) \<noteq> None then m
      else if length (em_queue m) < enrichQueueLen then m\<lparr>em_queue := em_queue m @ [(hostname, ip)]\<rparr>
      else m)"

text \<open>One worker step: take the oldest request and process it. The flag says whether the ASN changed.\<close>

definition process :: "ipinfo_net \<Rightarrow> gotime \<Rightarrow> string \<times> string \<Rightarrow> enrich_manager \<Rightarrow> bool \<times> enrich_manager" where
  "process net now req m = (case ipinfo_Lookup net (em_client m) (snd req) of
     Inl e \<Rightarrow> (False, m)
   | Inr r \<Rightarrow>
       ((case enrich_cache_Get (snd req) (em_cache m) of
           None \<Rightarrow> False
         | Some prev \<Rightarrow> er_asn (ee_result prev) \<noteq> [] \<and> er_asn r \<noteq> [] \<and> er_asn (ee_result prev) \<noteq> er_asn r),
        m\<lparr>em_cache := enrich_cache_Set now (snd req) r (em_cache m)\<rparr>))"

definition worker :: "ipinfo_net \<Rightarrow> gotime \<Rightarrow> enrich_manager \<Rightarrow> bool \<times> enrich_manager" where
  "worker net now m = (case em_queue m of
     [] \<Rightarrow> (False, m)
   | req # rest \<Rightarrow> process net now req (m\<lparr>em_queue := rest\<rparr>))"

section \<open>enrichment.go\<close>

text \<open>One reading of the clock for each address, from the reading numbered \<open>t\<close> on.\<close>

fun enrich_loop ::
  "(nat \<Rightarrow> gotime) \<Rightarrow> nat \<Rightarrow> string \<Rightarrow> string list \<Rightarrow> enrich_manager \<Rightarrow> (string, ip_enrichment) gomap \<Rightarrow>
   (string, ip_enrichment) gomap \<times> enrich_manager" where
  "enrich_loop clk t hostname [] m acc = (acc, m)"
| "enrich_loop clk t hostname (ip # ips) m acc =
     (let m' = RequestAsync (clk t) hostname ip m in
      case manager_Get ip m' of
        None \<Rightarrow> enrich_loop clk (Suc t) hostname ips m' acc
      | Some (r, at) \<Rightarrow>
          if er_asn r = [] \<and> er_org r = [] \<and> er_country r = []
          then enrich_loop clk (Suc t) hostname ips m' acc
          else enrich_loop clk (Suc t) hostname ips m'
                 (put ip \<lparr>ie_asn = er_asn r, ie_org = er_org r, ie_country = er_country r,
                    ie_enriched_at = Some at\<rparr> acc))"

definition buildIPEnrichments ::
  "(nat \<Rightarrow> gotime) \<Rightarrow> nat \<Rightarrow> enrich_manager option \<Rightarrow> string \<Rightarrow> string list \<Rightarrow>
   (string, ip_enrichment) gomap \<times> enrich_manager option" where
  "buildIPEnrichments clk t enricher hostname ips = (case enricher of
     None \<Rightarrow> ([], None)
   | Some m \<Rightarrow> (let (es, m') = enrich_loop clk t hostname ips m [] in (es, Some m')))"

section \<open>Lemmas\<close>

lemma split2_eq:
  "split2 d pre s = (if d \<in> set s then [pre @ takeWhile (\<lambda>c. c \<noteq> d) s, tl (dropWhile (\<lambda>c. c \<noteq> d) s)] else [pre @ s])"
  by (induction s arbitrary: pre) auto

lemma request_queue: "length (em_queue m) \<le> enrichQueueLen \<Longrightarrow> length (em_queue (RequestAsync now h ip m)) \<le> enrichQueueLen"
  by (simp add: RequestAsync_def)

lemma request_frame [simp]:
  "em_cache (RequestAsync now h ip m) = em_cache m" "em_client (RequestAsync now h ip m) = em_client m"
  by (simp_all add: RequestAsync_def)

text \<open>A request that is queued is for an address with no fresh entry.\<close>

lemma request_fresh: "enrich_cache_Fresh now ip (em_cache m) \<noteq> None \<Longrightarrow> RequestAsync now h ip m = m"
  by (simp add: RequestAsync_def)

lemma enrich_loop_frame:
  "length (em_queue m) \<le> enrichQueueLen \<Longrightarrow>
   em_cache (snd (enrich_loop clk t h ips m acc)) = em_cache m \<and>
   length (em_queue (snd (enrich_loop clk t h ips m acc))) \<le> enrichQueueLen"
proof (induction ips arbitrary: t m acc)
  case (Cons ip ips)
  have "length (em_queue (RequestAsync (clk t) h ip m)) \<le> enrichQueueLen"
    using Cons.prems by (rule request_queue)
  with Cons.IH show ?case by (auto simp: Let_def split: option.split)
qed simp

text \<open>What is known of an address and worth showing.\<close>

definition known_enrichment :: "enrich_cache \<Rightarrow> string \<Rightarrow> ip_enrichment option" where
  "known_enrichment c ip = (case map_of c ip of
     None \<Rightarrow> None
   | Some e \<Rightarrow>
       if er_asn (ee_result e) = [] \<and> er_org (ee_result e) = [] \<and> er_country (ee_result e) = [] then None
       else Some \<lparr>ie_asn = er_asn (ee_result e), ie_org = er_org (ee_result e),
         ie_country = er_country (ee_result e), ie_enriched_at = Some (ee_at e)\<rparr>)"

lemma enrich_loop_lookup:
  "map_of (fst (enrich_loop clk t h ips m acc)) ip =
     (if ip \<in> set ips \<and> known_enrichment (em_cache m) ip \<noteq> None then known_enrichment (em_cache m) ip
      else map_of acc ip)"
proof (induction ips arbitrary: t m acc)
  case (Cons i ips)
  show ?case
    using Cons.IH [of "Suc t" "RequestAsync (clk t) h i m"]
    by (auto simp: Let_def manager_Get_def enrich_cache_Get_def known_enrichment_def split: option.split)
qed simp

section \<open>Properties\<close>

text \<open>The combined field of ipinfo.io. splitASNOrg splits at the first space exactly when the text
  before it starts with AS: then that text (which has no space) and the rest put back together with the
  space give the input; otherwise there is no ASN and the organisation is the whole input.\<close>

theorem split_asn_org_correct:
  "case splitASNOrg s of (asn, org) \<Rightarrow>
     (if asn = [] then org = s else s = asn @ '' '' @ org \<and> has_prefix asn ''AS'' \<and> CHR 0x20 \<notin> set asn) \<and>
     (asn = [] \<longleftrightarrow> \<not> (CHR 0x20 \<in> set s \<and> has_prefix (takeWhile (\<lambda>c. c \<noteq> CHR 0x20) s) ''AS''))"
proof (cases "CHR 0x20 \<in> set s")
  case False
  then show ?thesis by (auto simp: splitASNOrg_def split2_eq)
next
  case True
  let ?f = "takeWhile (\<lambda>c. c \<noteq> CHR 0x20) s" and ?g = "tl (dropWhile (\<lambda>c. c \<noteq> CHR 0x20) s)"
  have "dropWhile (\<lambda>c. c \<noteq> CHR 0x20) s \<noteq> []" using True by auto
  then have "dropWhile (\<lambda>c. c \<noteq> CHR 0x20) s = CHR 0x20 # ?g"
    using hd_dropWhile [of "\<lambda>c. c \<noteq> CHR 0x20" s] by (cases "dropWhile (\<lambda>c. c \<noteq> CHR 0x20) s") auto
  then have s: "s = ?f @ CHR 0x20 # ?g" using takeWhile_dropWhile_id by metis
  have n: "CHR 0x20 \<notin> set ?f" by (auto dest: set_takeWhileD)
  have "splitASNOrg s = (if has_prefix ?f ''AS'' then (?f, ?g) else ([], s))"
    using True by (auto simp: splitASNOrg_def split2_eq)
  moreover have "\<not> has_prefix [] ''AS''" by (simp add: has_prefix_def)
  ultimately show ?thesis using s n True by (cases "?f = []") (auto split: if_splits)
qed

text \<open>C27. The enrichment of a host never blocks and never invents. For the addresses of one host,
  buildIPEnrichments leaves the cache alone, keeps the queue within its bound, and returns exactly what
  the cache holds for those addresses, leaving out the entries with no data; without an enricher it
  returns nothing.\<close>

theorem build_enrichments_correct:
  assumes "length (em_queue m) \<le> enrichQueueLen"
  shows "\<exists>es m'. buildIPEnrichments clk t (Some m) h ips = (es, Some m') \<and>
    em_cache m' = em_cache m \<and> length (em_queue m') \<le> enrichQueueLen \<and>
    (\<forall>ip. map_of es ip = (if ip \<in> set ips then known_enrichment (em_cache m) ip else None)) \<and>
    buildIPEnrichments clk t None h ips = ([], None)"
  using enrich_loop_frame [OF assms, of clk t h ips "[]"] enrich_loop_lookup [of clk t h ips m "[]"]
  by (cases "enrich_loop clk t h ips m []") (auto simp: buildIPEnrichments_def)

lemma build_enrichments_correct_witness:
  "\<exists>es m'. buildIPEnrichments (\<lambda>n. int n) 0 (Some (NewManager (NewIPInfoClient []))) ''a.io'' [''1.2.3.4''] = (es, Some m') \<and>
     em_cache m' = []"
  using build_enrichments_correct [of "NewManager (NewIPInfoClient [])" "\<lambda>n. int n" 0 "''a.io''" "[''1.2.3.4'']"]
  by (auto simp: NewManager_def enrichQueueLen_def)

end
