(* ===== verification/HostLoop.thy ===== *)
theory HostLoop
  imports IpFilter NetPol TtlQueue ChurnTracker Resolver Enrich
begin

text \<open>
  The loop over the egress rules, which the two policy controllers of internal/controller share (the same
  statements over two object types): resolve, filter by consensus, drop blocked addresses, record churn
  and metadata, append the host. What a step does outside the object (events, metrics, writes to the API
  server) is appended to a log in the order it happens. The resolver is an interface in the code, so here
  it is a function argument, as are its environment for each call and the clock, a function of the
  number of readings made so far.
\<close>

section \<open>Effects\<close>

datatype effect =
    Ev string string string
  | MetInc string "string list"
  | MetDec string
  | MetSet string "string list" int
  | MetObserve string "string list" duration
  | ApiCreate network_policy
  | ApiUpdate network_policy
  | ApiDelete string string
  | ApiStatus fqdn_policy
  | ApiClusterStatus cluster_policy

definition reconcilePollInterval :: duration where
  "reconcilePollInterval = 60 * second"

definition shortTTLThreshold :: duration where
  "shortTTLThreshold = 10 * second"

record 's loop_state =
  lp_resolver :: 's
  lp_churn :: "churn_tracker option"
  lp_enricher :: "enrich_manager option"
  lp_queue :: ttl_queue
  lp_resolved :: "resolved_host list"
  lp_errors :: "string list"
  lp_log :: "effect list"
  lp_tick :: nat

section \<open>Helpers\<close>

definition findPrevious :: "resolved_host list \<Rightarrow> string \<Rightarrow> resolved_host option" where
  "findPrevious hosts hostname = find (\<lambda>h. rh_hostname h = hostname) hosts"

definition findPreviousCluster :: "resolved_host list \<Rightarrow> string \<Rightarrow> resolved_host option" where
  "findPreviousCluster hosts hostname = find (\<lambda>h. rh_hostname h = hostname) hosts"

definition classifyError :: "string \<Rightarrow> string" where
  "classifyError msg =
     (if contains_str msg ''no such host'' \<or> contains_str msg ''NXDOMAIN'' then ''nxdomain''
      else if contains_str msg ''timeout'' \<or> contains_str msg ''i/o timeout'' then ''timeout''
      else if contains_str msg ''SERVFAIL'' then ''servfail''
      else ''other'')"

text \<open>int32(ttl.Seconds()), which truncates towards zero.\<close>

definition ttl_seconds :: "duration \<Rightarrow> int32" where
  "ttl_seconds ttl = word_of_int (if 0 \<le> ttl then ttl div second else - (- ttl div second))"

definition consensus_step ::
  "security_spec option \<Rightarrow> resolution \<Rightarrow> string list \<times> rejected_ip list" where
  "consensus_step sec res = (case sec of
     None \<Rightarrow> (rs_ips res, [])
   | Some s \<Rightarrow> (case ss_min_agreement s of
       None \<Rightarrow> (rs_ips res, [])
     | Some n \<Rightarrow> filterByConsensus (rs_ips res) (rs_results res) (sint n)))"

definition cname_errors :: "security_spec option \<Rightarrow> string \<Rightarrow> resolution \<Rightarrow> string list" where
  "cname_errors sec hostname res = (case sec of
     None \<Rightarrow> []
   | Some s \<Rightarrow> (case ss_max_cname_depth s of
       None \<Rightarrow> []
     | Some n \<Rightarrow>
         if 0 < sint n \<and> sint n < int (length (rs_chain res)) then
           [hostname @ '': CNAME chain depth '' @ itoa (length (rs_chain res)) @
            '' exceeds maxCNAMEDepth '' @ itoa_int (sint n)]
         else []))"

definition effective_ttl :: "resolution \<Rightarrow> duration" where
  "effective_ttl res = (if rs_ttl res = 0 then reconcilePollInterval else rs_ttl res)"

section \<open>A rule that resolved\<close>

definition host_security :: "nat \<Rightarrow> resolution \<Rightarrow> dns_security" where
  "host_security churn res =
     \<lparr>ds_dnssec_validated = rs_dnssec res, ds_ip_churn_rate = int churn, ds_divergence = rs_divergence res,
      ds_resolver_results = (if 0 < rs_divergence res then rs_results res else []),
      ds_short_ttl = (0 < rs_ttl res \<and> rs_ttl res < shortTTLThreshold)\<rparr>"

text \<open>The part from the allowed addresses on: churn, metadata, the host, the CNAME check.\<close>

definition admit_host ::
  "(nat \<Rightarrow> gotime) \<Rightarrow> security_spec option \<Rightarrow> string \<Rightarrow> string \<Rightarrow> resolution \<Rightarrow> string list \<Rightarrow>
   's loop_state \<Rightarrow> 's loop_state" where
  "admit_host clk sec policy hostname res allowed st =
     (let (churn, tracker) = (case lp_churn st of
            None \<Rightarrow> (0, None)
          | Some t \<Rightarrow> (let (n, t') = churn_Record hostname allowed t in (n, Some t')));
          now = clk (lp_tick st);
          (enr, manager) = buildIPEnrichments clk (lp_tick st + 1) (lp_enricher st) hostname allowed
      in st\<lparr>lp_churn := tracker, lp_enricher := manager,
            lp_tick := lp_tick st + 1 + length allowed,
            lp_resolved := lp_resolved st @
              [\<lparr>rh_hostname = hostname, rh_ips = allowed, rh_last_seen = now, rh_source = ''active-lookup'',
                rh_ttl_seconds = ttl_seconds (effective_ttl res), rh_cname_chain = rs_chain res,
                rh_security = Some (host_security churn res), rh_enrichments = enr\<rparr>],
            lp_errors := lp_errors st @ cname_errors sec hostname res,
            lp_log := lp_log st @ [MetSet ''fqdn_resolved_ips_count'' [hostname] (int (length allowed))] @
              (if 0 < rs_divergence res then [MetInc ''fqdnnp_resolver_divergence_total'' [hostname, policy]]
               else [])\<rparr>)"

definition admit_resolution ::
  "(nat \<Rightarrow> gotime) \<Rightarrow> security_spec option \<Rightarrow> string \<Rightarrow> string \<Rightarrow> resolution \<Rightarrow>
   's loop_state \<Rightarrow> 's loop_state" where
  "admit_resolution clk sec policy hostname res st =
     (let queue = tq_Upsert (clk (lp_tick st)) hostname (effective_ttl res) (lp_queue st);
          (consensus, rejected) = consensus_step sec res;
          (allowed, blocked) = filterBlockedIPs consensus sec;
          rmsgs = map (\<lambda>r. rejected_message r hostname) rejected;
          bmsgs = map (\<lambda>b. blocked_message b hostname) blocked;
          st1 = st\<lparr>lp_queue := queue, lp_tick := lp_tick st + 1,
                   lp_errors := lp_errors st @ rmsgs @ bmsgs,
                   lp_log := lp_log st @ map (Ev ''Warning'' ''ConsensusBlocked'') rmsgs @
                     map (Ev ''Warning'' ''PrivateIPBlocked'') bmsgs\<rparr>
      in if allowed = [] \<and> blocked \<noteq> [] then
           st1\<lparr>lp_log := lp_log st1 @ [MetSet ''fqdn_resolved_ips_count'' [hostname] 0]\<rparr>
         else admit_host clk sec policy hostname res allowed st1)"

section \<open>One rule of a FQDNNetworkPolicy\<close>

text \<open>A failed resolution keeps the host of the previous status.\<close>

definition retain_previous ::
  "(nat \<Rightarrow> gotime) \<Rightarrow> resolved_host list \<Rightarrow> string \<Rightarrow> string \<Rightarrow> 's loop_state \<Rightarrow> 's loop_state" where
  "retain_previous clk prev hostname e st =
     (let st1 = st\<lparr>lp_errors := lp_errors st @ [hostname @ '': '' @ e],
            lp_log := lp_log st @ [MetInc ''fqdn_dns_lookup_failures_total'' [hostname, classifyError e],
              Ev ''Warning'' ''ResolutionFailed'' (''DNS lookup failed for '' @ hostname @ '': '' @ e)]\<rparr>
      in case findPrevious prev hostname of
           None \<Rightarrow> st1
         | Some h \<Rightarrow> st1\<lparr>lp_resolved := lp_resolved st1 @ [h],
             lp_queue := tq_Upsert (clk (lp_tick st1)) hostname reconcilePollInterval (lp_queue st1),
             lp_tick := lp_tick st1 + 1\<rparr>)"

definition timed_resolve ::
  "('e \<Rightarrow> 's \<Rightarrow> string \<Rightarrow> (string + resolution) \<times> 's) \<Rightarrow> (nat \<Rightarrow> gotime) \<Rightarrow> 'e \<Rightarrow> string \<Rightarrow>
   's loop_state \<Rightarrow> (string + resolution) \<times> 's loop_state" where
  "timed_resolve resolve clk env hostname st =
     (let (res, s') = resolve env (lp_resolver st) hostname;
          elapsed = time_sub (clk (lp_tick st + 1)) (clk (lp_tick st))
      in (res, st\<lparr>lp_resolver := s', lp_tick := lp_tick st + 2,
                  lp_log := lp_log st @
                    [MetObserve ''fqdn_dns_lookup_duration_seconds'' [hostname, ''active''] elapsed]\<rparr>))"

definition policy_rule ::
  "('e \<Rightarrow> 's \<Rightarrow> string \<Rightarrow> (string + resolution) \<times> 's) \<Rightarrow> (nat \<Rightarrow> gotime) \<Rightarrow> 'e \<Rightarrow> fqdn_policy \<Rightarrow>
   fqdn_rule \<Rightarrow> 's loop_state \<Rightarrow> 's loop_state" where
  "policy_rule resolve clk env fp rule st =
     (if contains_str (fr_match rule) ''*'' then
        st\<lparr>lp_errors := lp_errors st @ [''wildcard pattern '' @ quote_str (fr_match rule) @
             '' requires the snoop resolver, skipping'']\<rparr>
      else
        let (res, st1) = timed_resolve resolve clk env (fr_match rule) st in
        case res of
          Inl e \<Rightarrow> retain_previous clk (st_resolved_hosts (fp_status fp)) (fr_match rule) e st1
        | Inr r \<Rightarrow> admit_resolution clk (sp_security (fp_spec fp)) (om_name (fp_meta fp)) (fr_match rule) r st1)"

fun policy_rules ::
  "('e \<Rightarrow> 's \<Rightarrow> string \<Rightarrow> (string + resolution) \<times> 's) \<Rightarrow> (nat \<Rightarrow> gotime) \<Rightarrow> (nat \<Rightarrow> 'e) \<Rightarrow> nat \<Rightarrow>
   fqdn_policy \<Rightarrow> fqdn_rule list \<Rightarrow> 's loop_state \<Rightarrow> 's loop_state" where
  "policy_rules resolve clk envs i fp [] st = st"
| "policy_rules resolve clk envs i fp (rule # rules) st =
     policy_rules resolve clk envs (Suc i) fp rules (policy_rule resolve clk (envs i) fp rule st)"

section \<open>One rule of a ClusterFQDNNetworkPolicy\<close>

text \<open>The same, without the wildcard check and without a refresh time for a retained host.\<close>

definition retain_previous_cluster ::
  "resolved_host list \<Rightarrow> string \<Rightarrow> string \<Rightarrow> 's loop_state \<Rightarrow> 's loop_state" where
  "retain_previous_cluster prev hostname e st =
     (let st1 = st\<lparr>lp_errors := lp_errors st @ [hostname @ '': '' @ e],
            lp_log := lp_log st @ [MetInc ''fqdn_dns_lookup_failures_total'' [hostname, classifyError e],
              Ev ''Warning'' ''ResolutionFailed'' (''DNS lookup failed for '' @ hostname @ '': '' @ e)]\<rparr>
      in case findPreviousCluster prev hostname of
           None \<Rightarrow> st1
         | Some h \<Rightarrow> st1\<lparr>lp_resolved := lp_resolved st1 @ [h]\<rparr>)"

definition cluster_rule ::
  "('e \<Rightarrow> 's \<Rightarrow> string \<Rightarrow> (string + resolution) \<times> 's) \<Rightarrow> (nat \<Rightarrow> gotime) \<Rightarrow> 'e \<Rightarrow> cluster_policy \<Rightarrow>
   fqdn_rule \<Rightarrow> 's loop_state \<Rightarrow> 's loop_state" where
  "cluster_rule resolve clk env cp rule st =
     (let (res, st1) = timed_resolve resolve clk env (fr_match rule) st in
      case res of
        Inl e \<Rightarrow> retain_previous_cluster (cst_resolved_hosts (cp_status cp)) (fr_match rule) e st1
      | Inr r \<Rightarrow> admit_resolution clk (cs_security (cp_spec cp)) (om_name (cp_meta cp)) (fr_match rule) r st1)"

fun cluster_rules ::
  "('e \<Rightarrow> 's \<Rightarrow> string \<Rightarrow> (string + resolution) \<times> 's) \<Rightarrow> (nat \<Rightarrow> gotime) \<Rightarrow> (nat \<Rightarrow> 'e) \<Rightarrow> nat \<Rightarrow>
   cluster_policy \<Rightarrow> fqdn_rule list \<Rightarrow> 's loop_state \<Rightarrow> 's loop_state" where
  "cluster_rules resolve clk envs i cp [] st = st"
| "cluster_rules resolve clk envs i cp (rule # rules) st =
     cluster_rules resolve clk envs (Suc i) cp rules (cluster_rule resolve clk (envs i) cp rule st)"

section \<open>What a step contributes\<close>

definition allowed_ips :: "security_spec option \<Rightarrow> resolution \<Rightarrow> string list" where
  "allowed_ips sec res = fst (filterBlockedIPs (fst (consensus_step sec res)) sec)"

definition blocked_ips :: "security_spec option \<Rightarrow> resolution \<Rightarrow> blocked_ip list" where
  "blocked_ips sec res = snd (filterBlockedIPs (fst (consensus_step sec res)) sec)"

definition rejected_ips :: "security_spec option \<Rightarrow> resolution \<Rightarrow> rejected_ip list" where
  "rejected_ips sec res = snd (consensus_step sec res)"

text \<open>The host is left out exactly when the block filter emptied its list.\<close>

definition host_dropped :: "security_spec option \<Rightarrow> resolution \<Rightarrow> bool" where
  "host_dropped sec res \<longleftrightarrow> allowed_ips sec res = [] \<and> blocked_ips sec res \<noteq> []"

lemma consensus_step_subset: "set (fst (consensus_step sec res)) \<subseteq> set (rs_ips res)"
  using filterByConsensus_subset by (fastforce simp: consensus_step_def split: option.splits)

lemma allowed_ips_eq:
  "allowed_ips sec res = filter (\<lambda>s. block_field sec s = None) (fst (consensus_step sec res))"
  by (simp add: allowed_ips_def filterBlocked_allowed)

lemma allowed_ips_subset: "set (allowed_ips sec res) \<subseteq> set (rs_ips res)"
  using consensus_step_subset by (auto simp: allowed_ips_eq)

lemma admit_host_simps:
  "lp_resolver (admit_host clk sec pol h res al st) = lp_resolver st"
  "lp_queue (admit_host clk sec pol h res al st) = lp_queue st"
  "lp_tick (admit_host clk sec pol h res al st) = lp_tick st + 1 + length al"
  "lp_errors (admit_host clk sec pol h res al st) = lp_errors st @ cname_errors sec h res"
  "\<exists>host. lp_resolved (admit_host clk sec pol h res al st) = lp_resolved st @ [host] \<and>
     rh_hostname host = h \<and> rh_ips host = al \<and> rh_cname_chain host = rs_chain res \<and>
     (\<exists>s. rh_security host = Some s \<and> ds_divergence s = rs_divergence res)"
  "lp_log (admit_host clk sec pol h res al st) = lp_log st @
     [MetSet ''fqdn_resolved_ips_count'' [h] (int (length al))] @
     (if 0 < rs_divergence res then [MetInc ''fqdnnp_resolver_divergence_total'' [h, pol]] else [])"
  by (simp_all add: admit_host_def Let_def host_security_def split: prod.split option.split)

lemma admit_simps:
  "lp_resolver (admit_resolution clk sec pol h res st) = lp_resolver st"
  "lp_queue (admit_resolution clk sec pol h res st) =
     tq_Upsert (clk (lp_tick st)) h (effective_ttl res) (lp_queue st)"
  "lp_tick st \<le> lp_tick (admit_resolution clk sec pol h res st)"
  "lp_errors (admit_resolution clk sec pol h res st) = lp_errors st @
     map (\<lambda>r. rejected_message r h) (rejected_ips sec res) @
     map (\<lambda>b. blocked_message b h) (blocked_ips sec res) @
     (if host_dropped sec res then [] else cname_errors sec h res)"
  by (simp_all add: admit_resolution_def Let_def admit_host_simps rejected_ips_def blocked_ips_def
      allowed_ips_def host_dropped_def split: prod.split)

lemma admit_resolved:
  "if host_dropped sec res
   then lp_resolved (admit_resolution clk sec pol h res st) = lp_resolved st
   else \<exists>host. lp_resolved (admit_resolution clk sec pol h res st) = lp_resolved st @ [host] \<and>
     rh_hostname host = h \<and> rh_ips host = allowed_ips sec res \<and> rh_cname_chain host = rs_chain res \<and>
     (\<exists>s. rh_security host = Some s \<and> ds_divergence s = rs_divergence res)"
proof -
  obtain cs rj where c: "consensus_step sec res = (cs, rj)" by (cases "consensus_step sec res")
  obtain al bl where f: "filterBlockedIPs cs sec = (al, bl)" by (cases "filterBlockedIPs cs sec")
  show ?thesis
  proof (cases "host_dropped sec res")
    case True
    then show ?thesis
      by (simp add: admit_resolution_def c f Let_def host_dropped_def allowed_ips_def blocked_ips_def)
  next
    case False
    define st1 where "st1 = st\<lparr>lp_queue := tq_Upsert (clk (lp_tick st)) h (effective_ttl res) (lp_queue st),
      lp_tick := lp_tick st + 1,
      lp_errors := lp_errors st @ map (\<lambda>r. rejected_message r h) rj @ map (\<lambda>b. blocked_message b h) bl,
      lp_log := lp_log st @ map (Ev ''Warning'' ''ConsensusBlocked'') (map (\<lambda>r. rejected_message r h) rj) @
        map (Ev ''Warning'' ''PrivateIPBlocked'') (map (\<lambda>b. blocked_message b h) bl)\<rparr>"
    have al: "allowed_ips sec res = al" by (simp add: allowed_ips_def c f)
    have "admit_resolution clk sec pol h res st = admit_host clk sec pol h res al st1"
      using False by (auto simp: admit_resolution_def c f Let_def host_dropped_def allowed_ips_def
          blocked_ips_def st1_def)
    moreover have "lp_resolved st1 = lp_resolved st" by (simp add: st1_def)
    ultimately show ?thesis
      using admit_host_simps(5) [of clk sec pol h res al st1] False by (simp add: al)
  qed
qed

lemma retain_simps:
  "lp_resolver (retain_previous clk prev h e st) = lp_resolver st"
  "lp_queue (retain_previous clk prev h e st) = (case findPrevious prev h of
     None \<Rightarrow> lp_queue st | Some x \<Rightarrow> tq_Upsert (clk (lp_tick st)) h reconcilePollInterval (lp_queue st))"
  "lp_tick st \<le> lp_tick (retain_previous clk prev h e st)"
  "lp_errors (retain_previous clk prev h e st) = lp_errors st @ [h @ '': '' @ e]"
  "lp_resolved (retain_previous clk prev h e st) = lp_resolved st @
     (case findPrevious prev h of None \<Rightarrow> [] | Some x \<Rightarrow> [x])"
  "lp_log (retain_previous clk prev h e st) = lp_log st @
     [MetInc ''fqdn_dns_lookup_failures_total'' [h, classifyError e],
      Ev ''Warning'' ''ResolutionFailed'' (''DNS lookup failed for '' @ h @ '': '' @ e)]"
  by (simp_all add: retain_previous_def Let_def split: option.split)

lemma retain_cluster_simps:
  "lp_resolver (retain_previous_cluster prev h e st) = lp_resolver st"
  "lp_queue (retain_previous_cluster prev h e st) = lp_queue st"
  "lp_tick (retain_previous_cluster prev h e st) = lp_tick st"
  "lp_errors (retain_previous_cluster prev h e st) = lp_errors st @ [h @ '': '' @ e]"
  "lp_resolved (retain_previous_cluster prev h e st) = lp_resolved st @
     (case findPreviousCluster prev h of None \<Rightarrow> [] | Some x \<Rightarrow> [x])"
  "lp_log (retain_previous_cluster prev h e st) = lp_log st @
     [MetInc ''fqdn_dns_lookup_failures_total'' [h, classifyError e],
      Ev ''Warning'' ''ResolutionFailed'' (''DNS lookup failed for '' @ h @ '': '' @ e)]"
  by (simp_all add: retain_previous_cluster_def Let_def split: option.split)

lemma findPrevious_Some: "findPrevious prev h = Some x \<Longrightarrow> x \<in> set prev \<and> rh_hostname x = h"
  by (auto simp: findPrevious_def find_Some_iff)

lemma findPreviousCluster_Some: "findPreviousCluster prev h = Some x \<Longrightarrow> x \<in> set prev \<and> rh_hostname x = h"
  by (auto simp: findPreviousCluster_def find_Some_iff)

lemma timed_resolve_simps:
  assumes "timed_resolve resolve clk env h st = (res, st')"
  shows "res = fst (resolve env (lp_resolver st) h)" "lp_resolver st' = snd (resolve env (lp_resolver st) h)"
    "lp_queue st' = lp_queue st" "lp_resolved st' = lp_resolved st" "lp_errors st' = lp_errors st"
    "lp_tick st' = lp_tick st + 2" "lp_churn st' = lp_churn st" "lp_enricher st' = lp_enricher st"
    "\<exists>d. lp_log st' = lp_log st @ [MetObserve ''fqdn_dns_lookup_duration_seconds'' [h, ''active''] d]"
  using assms by (auto simp: timed_resolve_def Let_def split: prod.splits)

text \<open>What each rule's step keeps, the loop keeps.\<close>

lemma policy_rules_keep:
  assumes "\<And>j rule st. rule \<in> set rules \<Longrightarrow> P st \<Longrightarrow> P (policy_rule resolve clk (envs j) fp rule st)"
  shows "P st \<Longrightarrow> P (policy_rules resolve clk envs i fp rules st)"
  using assms by (induction rules arbitrary: i st) auto

text \<open>What the step of one rule establishes and the others keep holds at the end.\<close>

lemma policy_rules_reach:
  assumes "\<And>j rl st. P st \<Longrightarrow> P (policy_rule resolve clk (envs j) fp rl st)"
    and "\<And>j st. P st \<Longrightarrow> Q (policy_rule resolve clk (envs j) fp rule st)"
    and "\<And>j rl st. Q st \<Longrightarrow> Q (policy_rule resolve clk (envs j) fp rl st)"
    and "rule \<in> set rules" "P st"
  shows "Q (policy_rules resolve clk envs i fp rules st)"
  using assms(4,5)
proof (induction rules arbitrary: i st)
  case (Cons rl rules)
  show ?case
  proof (cases "rule = rl")
    case True
    then have "Q (policy_rule resolve clk (envs i) fp rl st)" using assms(2) Cons.prems(2) by blast
    then show ?thesis using policy_rules_keep [of rules Q resolve clk envs fp, OF assms(3)] by simp
  next
    case False
    then show ?thesis using Cons assms(1) by simp
  qed
qed simp

lemma cluster_rules_keep:
  assumes "\<And>j rule st. rule \<in> set rules \<Longrightarrow> P st \<Longrightarrow> P (cluster_rule resolve clk (envs j) cp rule st)"
  shows "P st \<Longrightarrow> P (cluster_rules resolve clk envs i cp rules st)"
  using assms by (induction rules arbitrary: i st) auto

section \<open>No writes to the API server\<close>

fun is_write :: "effect \<Rightarrow> bool" where
  "is_write (ApiCreate np) \<longleftrightarrow> True"
| "is_write (ApiUpdate np) \<longleftrightarrow> True"
| "is_write (ApiDelete ns n) \<longleftrightarrow> True"
| "is_write (ApiStatus fp) \<longleftrightarrow> True"
| "is_write (ApiClusterStatus cp) \<longleftrightarrow> True"
| "is_write e \<longleftrightarrow> False"

definition no_writes :: "effect list \<Rightarrow> bool" where
  "no_writes log \<longleftrightarrow> (\<forall>e \<in> set log. \<not> is_write e)"

lemma no_writes_simps [simp]:
  "no_writes []" "no_writes (e # log) \<longleftrightarrow> \<not> is_write e \<and> no_writes log"
  "no_writes (log @ log') \<longleftrightarrow> no_writes log \<and> no_writes log'"
  by (auto simp: no_writes_def)

lemma no_writes_events [simp]: "no_writes (map (Ev t r) ms)" "no_writes (map (Ev t r \<circ> f) xs)"
  by (simp_all add: no_writes_def)

lemma admit_no_writes: "no_writes (lp_log st) \<Longrightarrow> no_writes (lp_log (admit_resolution clk sec pol h res st))"
  by (auto simp: admit_resolution_def Let_def admit_host_simps split: prod.split)

lemma policy_rule_no_writes:
  assumes "no_writes (lp_log st)"
  shows "no_writes (lp_log (policy_rule resolve clk env fp rule st))"
proof -
  obtain res st' where t: "timed_resolve resolve clk env (fr_match rule) st = (res, st')"
    by (cases "timed_resolve resolve clk env (fr_match rule) st")
  have "no_writes (lp_log st')" using timed_resolve_simps(9) [OF t] assms by auto
  then show ?thesis
    using assms t by (cases res) (simp_all add: policy_rule_def retain_simps admit_no_writes)
qed

lemma cluster_rule_no_writes:
  assumes "no_writes (lp_log st)"
  shows "no_writes (lp_log (cluster_rule resolve clk env cp rule st))"
proof -
  obtain res st' where t: "timed_resolve resolve clk env (fr_match rule) st = (res, st')"
    by (cases "timed_resolve resolve clk env (fr_match rule) st")
  have "no_writes (lp_log st')" using timed_resolve_simps(9) [OF t] assms by auto
  then show ?thesis
    using t by (cases res) (simp_all add: cluster_rule_def retain_cluster_simps admit_no_writes)
qed

section \<open>Where the addresses come from\<close>

text \<open>
  A host of the loop is one of the previous status, kept because its resolution failed, or a new one all
  of whose addresses passed the block filter.
\<close>

definition screened :: "resolved_host list \<Rightarrow> security_spec option \<Rightarrow> resolved_host list \<Rightarrow> bool" where
  "screened prev sec hosts \<longleftrightarrow>
     (\<forall>h \<in> set hosts. h \<in> set prev \<or> (\<forall>s \<in> set (rh_ips h). block_field sec s = None))"

lemma screened_simps [simp]:
  "screened prev sec []"
  "screened prev sec (hs @ hs') \<longleftrightarrow> screened prev sec hs \<and> screened prev sec hs'"
  by (auto simp: screened_def)

lemma admit_screened:
  "screened prev sec (lp_resolved st) \<Longrightarrow>
   screened prev sec (lp_resolved (admit_resolution clk sec pol h res st))"
  using admit_resolved [of sec res clk pol h st]
  by (auto simp: screened_def allowed_ips_eq split: if_splits)

lemma policy_rule_screened:
  assumes "screened (st_resolved_hosts (fp_status fp)) (sp_security (fp_spec fp)) (lp_resolved st)"
  shows "screened (st_resolved_hosts (fp_status fp)) (sp_security (fp_spec fp))
    (lp_resolved (policy_rule resolve clk env fp rule st))"
proof -
  obtain res st' where t: "timed_resolve resolve clk env (fr_match rule) st = (res, st')"
    by (cases "timed_resolve resolve clk env (fr_match rule) st")
  have "lp_resolved st' = lp_resolved st" using timed_resolve_simps(4) [OF t] .
  then show ?thesis
    using assms t findPrevious_Some
    by (cases res)
      (auto simp: policy_rule_def retain_simps admit_screened screened_def [of _ _ "[x]" for x] split: option.split)
qed

lemma cluster_rule_screened:
  assumes "screened (cst_resolved_hosts (cp_status cp)) (cs_security (cp_spec cp)) (lp_resolved st)"
  shows "screened (cst_resolved_hosts (cp_status cp)) (cs_security (cp_spec cp))
    (lp_resolved (cluster_rule resolve clk env cp rule st))"
proof -
  obtain res st' where t: "timed_resolve resolve clk env (fr_match rule) st = (res, st')"
    by (cases "timed_resolve resolve clk env (fr_match rule) st")
  have "lp_resolved st' = lp_resolved st" using timed_resolve_simps(4) [OF t] .
  then show ?thesis
    using assms t findPreviousCluster_Some
    by (cases res)
      (auto simp: cluster_rule_def retain_cluster_simps admit_screened screened_def [of _ _ "[x]" for x] split: option.split)
qed

section \<open>The loop over any resolver\<close>

text \<open>
  The state of the loop while the resolver keeps its contract: the resolver's invariant, the form of the
  addresses, the queue's invariant, and no refresh time further off than the TTL ceiling.
\<close>

definition due_soon :: "gotime \<Rightarrow> ttl_queue \<Rightarrow> bool" where
  "due_soon now q \<longleftrightarrow> ttl_ok q \<and> (\<forall>h t. schedule q h = Some t \<longrightarrow> t \<le> now + ttlCeiling)"

lemma due_soon_new: "due_soon now NewTTLQueue"
proof -
  have "schedule NewTTLQueue h = None" for h by (simp add: schedule_def NewTTLQueue_def)
  with ttl_ok_new show ?thesis by (simp add: due_soon_def)
qed

lemma due_soon_mono: "due_soon now q \<Longrightarrow> now \<le> now' \<Longrightarrow> due_soon now' q"
  by (fastforce simp: due_soon_def)

lemma due_soon_upsert:
  "due_soon now q \<Longrightarrow> ttl \<le> ttlCeiling \<Longrightarrow> due_soon now (tq_Upsert now h ttl q)"
  by (auto simp: due_soon_def Upsert_ok_schedule)

lemma due_soon_delay:
  assumes "due_soon now q" "now \<le> now'" "floor \<le> ttlCeiling"
  shows "floor \<le> tq_MinDelay now' floor q" "tq_MinDelay now' floor q \<le> ttlCeiling"
proof -
  have ok: "ttl_ok q" using assms(1) by (simp add: due_soon_def)
  show "floor \<le> tq_MinDelay now' floor q" by (rule MinDelay_floor)
  show "tq_MinDelay now' floor q \<le> ttlCeiling"
  proof (cases "ran (schedule q) = {}")
    case True
    with assms(3) show ?thesis by (simp add: MinDelay_eq [OF ok])
  next
    case False
    then obtain h t where t: "schedule q h = Some t" by (auto simp: ran_def)
    with assms(1,2) have "t - now' \<le> ttlCeiling" by (fastforce simp: due_soon_def)
    moreover have "sat64 d \<le> ttlCeiling" if "d \<le> ttlCeiling" for d
      using that by (simp add: sat64_def ttlCeiling_def second_def)
    ultimately have "time_sub t now' \<le> ttlCeiling" by (simp add: time_sub_def)
    with MinDelay_due [OF ok t, of now' floor] assms(3) show ?thesis by simp
  qed
qed

lemma effective_ttl_bound: "rs_ttl r \<le> ttlCeiling \<Longrightarrow> effective_ttl r \<le> ttlCeiling"
  by (simp add: effective_ttl_def reconcilePollInterval_def ttlCeiling_def second_def)

lemma host_texts_iff: "host_texts hs \<longleftrightarrow> (\<forall>h \<in> set hs. ips_ok (rh_ips h))"
  by (simp add: host_texts_def ips_ok_def)

context resolver begin

definition loop_ok :: "(nat \<Rightarrow> gotime) \<Rightarrow> 's loop_state \<Rightarrow> bool" where
  "loop_ok clk st \<longleftrightarrow> inv (lp_resolver st) \<and> host_texts (lp_resolved st) \<and>
     due_soon (clk (lp_tick st)) (lp_queue st)"

lemma admit_ok:
  assumes "mono clk" "loop_ok clk st" "resolution_ok h r"
  shows "loop_ok clk (admit_resolution clk sec pol h r st)"
proof -
  let ?st = "admit_resolution clk sec pol h r st"
  have "due_soon (clk (lp_tick st)) (lp_queue ?st)"
    using assms effective_ttl_bound
    by (simp add: admit_simps loop_ok_def due_soon_upsert resolution_ok_def)
  then have "due_soon (clk (lp_tick ?st)) (lp_queue ?st)"
    using monoD [OF assms(1) admit_simps(3)] by (rule due_soon_mono)
  moreover have "ips_ok (allowed_ips sec r)"
    using assms(3) allowed_ips_subset by (auto simp: resolution_ok_def intro: ips_ok_subset)
  then have "host_texts (lp_resolved ?st)"
    using admit_resolved [of sec r clk pol h st] assms(2)
    by (auto simp: loop_ok_def host_texts_iff split: if_splits)
  ultimately show ?thesis using assms(2) by (simp add: loop_ok_def admit_simps)
qed

lemma timed_ok:
  assumes "mono clk" "env_ok e" "loop_ok clk st" "timed_resolve resolve clk e h st = (res, st')"
  shows "loop_ok clk st'" and "res = Inr r \<Longrightarrow> resolution_ok h r"
proof -
  note t = timed_resolve_simps [OF assms(4)]
  have i: "inv (lp_resolver st)" using assms(3) by (simp add: loop_ok_def)
  have "due_soon (clk (lp_tick st')) (lp_queue st')"
    using assms(3) monoD [OF assms(1), of "lp_tick st" "lp_tick st + 2"]
    by (auto simp: t loop_ok_def intro: due_soon_mono)
  with assms(3) keeps [OF assms(2) i] show "loop_ok clk st'" by (simp add: loop_ok_def t)
  show "res = Inr r \<Longrightarrow> resolution_ok h r" using answers [OF assms(2) i] t(1) by simp
qed

lemma policy_rule_ok:
  assumes "mono clk" "env_ok e" "host_texts (st_resolved_hosts (fp_status fp))" "loop_ok clk st"
  shows "loop_ok clk (policy_rule resolve clk e fp rule st)"
proof (cases "contains_str (fr_match rule) ''*''")
  case True
  with assms(4) show ?thesis by (simp add: policy_rule_def loop_ok_def)
next
  case False
  let ?h = "fr_match rule" and ?prev = "st_resolved_hosts (fp_status fp)"
  obtain res st' where t: "timed_resolve resolve clk e ?h st = (res, st')"
    by (cases "timed_resolve resolve clk e ?h st")
  note ok = timed_ok [OF assms(1,2,4) t]
  show ?thesis
  proof (cases res)
    case (Inr r)
    with False t ok(2) [of r] admit_ok [OF assms(1) ok(1), of ?h r] show ?thesis by (simp add: policy_rule_def)
  next
    case (Inl err)
    have q: "due_soon (clk (lp_tick st')) (lp_queue (retain_previous clk ?prev ?h err st'))"
      using ok(1) by (auto simp: retain_simps loop_ok_def reconcilePollInterval_def ttlCeiling_def second_def
          intro!: due_soon_upsert split: option.split)
    have m: "clk (lp_tick st') \<le> clk (lp_tick (retain_previous clk ?prev ?h err st'))"
      using assms(1) retain_simps(3) by (rule monoD)
    have "host_texts (lp_resolved (retain_previous clk ?prev ?h err st'))"
      using ok(1) assms(3) findPrevious_Some
      by (auto simp: retain_simps loop_ok_def host_texts_iff split: option.split)
    with due_soon_mono [OF q m] ok(1) show ?thesis
      using False t Inl by (simp add: policy_rule_def loop_ok_def retain_simps(1))
  qed
qed

lemma cluster_rule_ok:
  assumes "mono clk" "env_ok e" "host_texts (cst_resolved_hosts (cp_status cp))" "loop_ok clk st"
  shows "loop_ok clk (cluster_rule resolve clk e cp rule st)"
proof -
  let ?h = "fr_match rule" and ?prev = "cst_resolved_hosts (cp_status cp)"
  obtain res st' where t: "timed_resolve resolve clk e ?h st = (res, st')"
    by (cases "timed_resolve resolve clk e ?h st")
  note ok = timed_ok [OF assms(1,2,4) t]
  show ?thesis
  proof (cases res)
    case (Inr r)
    with t ok(2) [of r] admit_ok [OF assms(1) ok(1), of ?h r] show ?thesis by (simp add: cluster_rule_def)
  next
    case (Inl err)
    have "host_texts (lp_resolved (retain_previous_cluster ?prev ?h err st'))"
      using ok(1) assms(3) findPreviousCluster_Some
      by (auto simp: retain_cluster_simps loop_ok_def host_texts_iff split: option.split)
    with ok(1) t Inl show ?thesis by (simp add: cluster_rule_def loop_ok_def retain_cluster_simps)
  qed
qed

lemma policy_rules_ok:
  assumes "mono clk" "\<forall>i. env_ok (envs i)" "host_texts (st_resolved_hosts (fp_status fp))" "loop_ok clk st"
  shows "loop_ok clk (policy_rules resolve clk envs i fp rules st)"
proof (rule policy_rules_keep [where P = "loop_ok clk"])
  show "loop_ok clk (policy_rule resolve clk (envs j) fp rule st')" if "loop_ok clk st'" for j rule st'
    using assms(2) that by (intro policy_rule_ok [OF assms(1) _ assms(3)]) simp_all
qed (rule assms(4))

lemma cluster_rules_ok:
  assumes "mono clk" "\<forall>i. env_ok (envs i)" "host_texts (cst_resolved_hosts (cp_status cp))" "loop_ok clk st"
  shows "loop_ok clk (cluster_rules resolve clk envs i cp rules st)"
proof (rule cluster_rules_keep [where P = "loop_ok clk"])
  show "loop_ok clk (cluster_rule resolve clk (envs j) cp rule st')" if "loop_ok clk st'" for j rule st'
    using assms(2) that by (intro cluster_rule_ok [OF assms(1) _ assms(3)]) simp_all
qed (rule assms(4))

end

end
