(* ===== verification/Divergence.thy ===== *)
theory Divergence
  imports ApiTypes
begin

text \<open>
  internal/controller/resolver\_divergence.go: when resolvers disagree, the condition that says so and the
  opt-in that freezes the NetworkPolicy.
\<close>

section \<open>Operations\<close>

definition blockOnDivergence :: "security_spec option \<Rightarrow> bool" where
  "blockOnDivergence sec = (case sec of
     None \<Rightarrow> False
   | Some s \<Rightarrow> (case ss_block_on_divergence s of None \<Rightarrow> False | Some b \<Rightarrow> b))"

fun anyDivergence :: "resolved_host list \<Rightarrow> bool" where
  "anyDivergence [] \<longleftrightarrow> False"
| "anyDivergence (h # hs) \<longleftrightarrow>
     (case rh_security h of
        Some s \<Rightarrow> if 0 < ds_divergence s then True else anyDivergence hs
      | None \<Rightarrow> anyDivergence hs)"

definition single_resolver_ips :: "(string, string list) gomap \<Rightarrow> string list \<Rightarrow> nat" where
  "single_resolver_ips results ips =
     length (filter (\<lambda>ip. length (filter (\<lambda>(u, l). ip \<in> set l) results) = 1) ips)"

definition divergence_part :: "resolved_host \<Rightarrow> string list" where
  "divergence_part h = (case rh_security h of
     None \<Rightarrow> []
   | Some s \<Rightarrow>
       if ds_divergence s = 0 then []
       else [rh_hostname h @ '': '' @ itoa (length (ds_resolver_results s)) @ '' resolvers returned '' @
             itoa (length (rh_ips h)) @ '' IPs total, '' @
             itoa (single_resolver_ips (ds_resolver_results s) (rh_ips h)) @
             '' IPs appeared in only 1 resolver''])"

definition divergenceMessage :: "resolved_host list \<Rightarrow> string" where
  "divergenceMessage resolved = join_str ''; '' (sort_strings (concat (map divergence_part resolved)))"

definition setResolverDivergenceCondition ::
  "gotime \<Rightarrow> resolved_host list \<Rightarrow> fqdn_policy \<Rightarrow> fqdn_policy" where
  "setResolverDivergenceCondition now resolved fp =
     (if anyDivergence resolved
      then setCondition now ''ResolverDivergence'' condition_true ''ResolverDisagreement''
             (divergenceMessage resolved) fp
      else setCondition now ''ResolverDivergence'' condition_false ''NoDivergence'' [] fp)"

definition setClusterResolverDivergenceCondition ::
  "gotime \<Rightarrow> resolved_host list \<Rightarrow> cluster_policy \<Rightarrow> cluster_policy" where
  "setClusterResolverDivergenceCondition now resolved cp =
     (if anyDivergence resolved
      then setClusterCondition now ''ResolverDivergence'' condition_true ''ResolverDisagreement''
             (divergenceMessage resolved) cp
      else setClusterCondition now ''ResolverDivergence'' condition_false ''NoDivergence'' [] cp)"

section \<open>Lemmas\<close>

lemma anyDivergence_iff:
  "anyDivergence hs \<longleftrightarrow> (\<exists>h \<in> set hs. \<exists>s. rh_security h = Some s \<and> 0 < ds_divergence s)"
  by (induction hs) (auto split: option.splits if_splits)

lemma divergence_condition_frame [simp]:
  "fp_meta (setResolverDivergenceCondition now hs fp) = fp_meta fp"
  "fp_spec (setResolverDivergenceCondition now hs fp) = fp_spec fp"
  "st_resolved_hosts (fp_status (setResolverDivergenceCondition now hs fp)) = st_resolved_hosts (fp_status fp)"
  "st_generated (fp_status (setResolverDivergenceCondition now hs fp)) = st_generated (fp_status fp)"
  by (simp_all add: setResolverDivergenceCondition_def)

lemma divergence_status:
  "condition_status ''ResolverDivergence'' (st_conditions (fp_status (setResolverDivergenceCondition now hs fp))) =
     Some (if anyDivergence hs then condition_true else condition_false)"
  by (simp add: setResolverDivergenceCondition_def policy_conditions.status_same)

lemma divergence_status_other:
  "t \<noteq> ''ResolverDivergence'' \<Longrightarrow>
   condition_status t (st_conditions (fp_status (setResolverDivergenceCondition now hs fp))) =
     condition_status t (st_conditions (fp_status fp))"
  by (simp add: setResolverDivergenceCondition_def policy_conditions.status_other)

lemma cluster_divergence_status:
  "condition_status ''ResolverDivergence'' (cst_conditions (cp_status (setClusterResolverDivergenceCondition now hs cp))) =
     Some (if anyDivergence hs then condition_true else condition_false)"
  by (simp add: setClusterResolverDivergenceCondition_def cluster_conditions.status_same)

lemma cluster_divergence_status_other:
  "t \<noteq> ''ResolverDivergence'' \<Longrightarrow>
   condition_status t (cst_conditions (cp_status (setClusterResolverDivergenceCondition now hs cp))) =
     condition_status t (cst_conditions (cp_status cp))"
  by (simp add: setClusterResolverDivergenceCondition_def cluster_conditions.status_other)

lemma cluster_divergence_frame [simp]:
  "cp_meta (setClusterResolverDivergenceCondition now hs cp) = cp_meta cp"
  "cp_spec (setClusterResolverDivergenceCondition now hs cp) = cp_spec cp"
  by (simp_all add: setClusterResolverDivergenceCondition_def)

text \<open>The message does not depend on the order of the hosts.\<close>

lemma divergenceMessage_order: "mset hs = mset hs' \<Longrightarrow> divergenceMessage hs = divergenceMessage hs'"
proof -
  assume "mset hs = mset hs'"
  moreover have "mset (concat (map divergence_part xs)) = sum_mset (image_mset (\<lambda>h. mset (divergence_part h)) (mset xs))" for xs
    by (induction xs) simp_all
  ultimately have "sort_strings (concat (map divergence_part hs)) = sort_strings (concat (map divergence_part hs'))"
    unfolding sort_strings_eq_iff by metis
  then show ?thesis by (simp only: divergenceMessage_def)
qed

end
