(* ===== verification/ObservationStore.thy ===== *)
theory ObservationStore
  imports GoLib
begin

text \<open>
  internal/dns/observation\_store.go: which hostnames the snoop resolver has seen queried, when, and how
  often, with a periodic prune. Record reads the clock twice, once for the observation and once in
  pruneLocked; both readings are arguments. The int64 query counts are unbounded integers here: they would
  wrap after 2^63 queries.
\<close>

section \<open>State and operations\<close>

definition observationRetention :: duration where
  "observationRetention = 48 * 3600 * second"

definition pruneRetentionCheckInterval :: duration where
  "pruneRetentionCheckInterval = 5 * 60 * second"

record domain_seen =
  ds_first :: gotime
  ds_last :: gotime
  ds_count :: int

record observation_store =
  obs_domains :: "(string, domain_seen) gomap"
  obs_last_prune :: gotime

definition NewObservationStore :: observation_store where
  "NewObservationStore = \<lparr>obs_domains = [], obs_last_prune = zero_time\<rparr>"

definition pruneLocked :: "gotime \<Rightarrow> observation_store \<Rightarrow> observation_store" where
  "pruneLocked now os =
     (if time_sub now (obs_last_prune os) < pruneRetentionCheckInterval then os
      else os\<lparr>obs_last_prune := now,
        obs_domains := filter (\<lambda>(h, d). \<not> ds_last d < now - observationRetention) (obs_domains os)\<rparr>)"

definition observe_domain :: "gotime \<Rightarrow> string \<Rightarrow> observation_store \<Rightarrow> observation_store" where
  "observe_domain now hostname os =
     os\<lparr>obs_domains := put hostname
       (case map_of (obs_domains os) hostname of
          Some d \<Rightarrow> d\<lparr>ds_last := now, ds_count := ds_count d + 1\<rparr>
        | None \<Rightarrow> \<lparr>ds_first = now, ds_last = now, ds_count = 1\<rparr>) (obs_domains os)\<rparr>"

definition obs_Record :: "gotime \<Rightarrow> gotime \<Rightarrow> string \<Rightarrow> observation_store \<Rightarrow> observation_store" where
  "obs_Record now now2 hostname os =
     (if hostname = [] then os else pruneLocked now2 (observe_domain now hostname os))"

definition AllDomains :: "observation_store \<Rightarrow> (string, domain_seen) gomap" where
  "AllDomains os = map (\<lambda>(h, d). (h, \<lparr>ds_first = ds_first d, ds_last = ds_last d, ds_count = ds_count d\<rparr>))
     (obs_domains os)"

section \<open>Lemmas\<close>

lemma AllDomains_eq: "AllDomains os = obs_domains os"
  unfolding AllDomains_def by (rule map_idI) auto

definition obs_ok :: "observation_store \<Rightarrow> bool" where
  "obs_ok os \<longleftrightarrow> gomap_ok (obs_domains os) \<and>
     (\<forall>h d. map_of (obs_domains os) h = Some d \<longrightarrow> ds_first d \<le> ds_last d \<and> 1 \<le> ds_count d \<and> h \<noteq> [])"

lemma obs_ok_new: "obs_ok NewObservationStore"
  by (simp add: obs_ok_def NewObservationStore_def)

lemma prune_lookup:
  assumes "gomap_ok (obs_domains os)"
  shows "map_of (obs_domains (pruneLocked now os)) h =
    (case map_of (obs_domains os) h of
       None \<Rightarrow> None
     | Some d \<Rightarrow> if pruneRetentionCheckInterval \<le> time_sub now (obs_last_prune os) \<and>
                   ds_last d < now - observationRetention then None else Some d)"
  using map_of_filter_ok [OF assms, of "\<lambda>h d. \<not> ds_last d < now - observationRetention" h]
  by (auto simp: pruneLocked_def split: option.splits)

lemma prune_ok: "obs_ok os \<Longrightarrow> obs_ok (pruneLocked now os)"
  by (auto simp: obs_ok_def prune_lookup split: option.splits if_splits)
    (simp add: pruneLocked_def gomap_ok_filter)

lemma observe_ok:
  "obs_ok os \<Longrightarrow> h \<noteq> [] \<Longrightarrow> (\<And>d. map_of (obs_domains os) h = Some d \<Longrightarrow> ds_last d \<le> now) \<Longrightarrow>
   obs_ok (observe_domain now h os)"
  by (force simp: obs_ok_def observe_domain_def split: option.splits if_splits)

section \<open>Properties\<close>

text \<open>C22. Recording a query, exactly. For a non-empty hostname, when the clock does not run backwards, Record
  moves this hostname's last-seen time to now and its count up by one (from zero, with first-seen now,
  when it was not known). When the last prune was at least five minutes ago it drops, of all the other
  hostnames, exactly those not seen for 48 hours and notes the time of the prune; otherwise it keeps all of
  them and that time. A hostname queried now is never dropped. The empty hostname changes nothing.\<close>

theorem obs_record_correct:
  assumes "obs_ok s" and "now \<le> now2" and "now2 \<le> now + observationRetention"
    and "\<forall>h d. map_of (AllDomains s) h = Some d \<longrightarrow> ds_last d \<le> now" and "h \<noteq> []"
  shows "obs_ok (obs_Record now now2 h s) \<and> obs_Record now now2 [] s = s \<and>
    map_of (AllDomains (obs_Record now now2 h s)) g =
      (if g = h then Some (case map_of (AllDomains s) h of
           Some d \<Rightarrow> \<lparr>ds_first = ds_first d, ds_last = now, ds_count = ds_count d + 1\<rparr>
         | None \<Rightarrow> \<lparr>ds_first = now, ds_last = now, ds_count = 1\<rparr>)
       else (case map_of (AllDomains s) g of
           None \<Rightarrow> None
         | Some d \<Rightarrow> if 5 * 60 * second \<le> time_sub now2 (obs_last_prune s) \<and> ds_last d < now2 - 48 * 3600 * second
             then None else Some d)) \<and>
    obs_last_prune (obs_Record now now2 h s) =
      (if 5 * 60 * second \<le> time_sub now2 (obs_last_prune s) then now2 else obs_last_prune s)"
proof -
  let ?o = "observe_domain now h s"
  have ok: "obs_ok ?o" using assms(1,4,5) by (intro observe_ok) (auto simp: AllDomains_eq)
  then have g: "gomap_ok (obs_domains ?o)" by (simp add: obs_ok_def)
  have lp: "obs_last_prune ?o = obs_last_prune s" by (simp add: observe_domain_def)
  have o: "map_of (obs_domains ?o) g = (if g = h then Some (case map_of (obs_domains s) h of
      Some d \<Rightarrow> \<lparr>ds_first = ds_first d, ds_last = now, ds_count = ds_count d + 1\<rparr>
    | None \<Rightarrow> \<lparr>ds_first = now, ds_last = now, ds_count = 1\<rparr>) else map_of (obs_domains s) g)"
    by (auto simp: observe_domain_def split: option.split)
  have now: "\<not> now < now2 - observationRetention" using assms(3) by simp
  have r: "obs_Record now now2 h s = pruneLocked now2 ?o" using assms(5) by (simp add: obs_Record_def)
  have last: "obs_last_prune (pruneLocked now2 ?o) =
      (if pruneRetentionCheckInterval \<le> time_sub now2 (obs_last_prune s) then now2 else obs_last_prune s)"
    by (simp add: pruneLocked_def lp not_less)
  show ?thesis
    unfolding r AllDomains_eq prune_lookup [OF g] o lp last
      pruneRetentionCheckInterval_def [symmetric] observationRetention_def [symmetric]
    using prune_ok [OF ok] now by (auto simp: obs_Record_def split: option.split)
qed

lemma obs_record_correct_witness:
  "map_of (AllDomains (obs_Record 100 101 ''a.io'' NewObservationStore)) ''a.io'' =
     Some \<lparr>ds_first = 100, ds_last = 100, ds_count = 1\<rparr>"
  using obs_record_correct [OF obs_ok_new, of 100 101 "''a.io''" "''a.io''"]
  by (simp add: observationRetention_def second_def AllDomains_eq NewObservationStore_def)

end
