(* ===== verification/Drift.thy ===== *)
theory Drift
  imports ApiTypes ObservationStore
begin

text \<open>
  internal/controller/drift.go: the observed hostnames no egress rule of the namespace covers. The answer
  of the API server to the list call is an argument, and so is the order in which the observed map is
  ranged over, which the sort removes.
\<close>

section \<open>Coverage\<close>

definition matchesEgressRule :: "string \<Rightarrow> string \<Rightarrow> bool" where
  "matchesEgressRule hostname match_val =
     (if hostname = match_val then True
      else (case cut_prefix match_val ''*.'' of
        Some suffix \<Rightarrow> has_suffix hostname (''.'' @ suffix) \<or> hostname = suffix
      | None \<Rightarrow> False))"

fun isCovered :: "string \<Rightarrow> string list \<Rightarrow> bool" where
  "isCovered hostname [] \<longleftrightarrow> False"
| "isCovered hostname (m # ms) \<longleftrightarrow> (if matchesEgressRule hostname m then True else isCovered hostname ms)"

section \<open>The difference\<close>

definition covered_matches :: "fqdn_policy list \<Rightarrow> string list" where
  "covered_matches ps = concat (map (\<lambda>p. map fr_match (sp_egress (fp_spec p))) ps)"

definition computeUnpoliciedDomains ::
  "(string list \<Rightarrow> string list) \<Rightarrow> string + fqdn_policy list \<Rightarrow> observation_store \<Rightarrow>
   string + observed_domain list" where
  "computeUnpoliciedDomains ord listed store = (case listed of
     Inl e \<Rightarrow> Inl e
   | Inr ps \<Rightarrow>
       let covered = covered_matches ps;
           observed = AllDomains store;
           hostnames = sort_strings (ord (keys observed))
       in Inr (map (\<lambda>h. let seen = the (map_of observed h) in
                 \<lparr>od_hostname = h, od_first_seen = ds_first seen, od_last_seen = ds_last seen,
                  od_ports = [], od_query_count = 0\<rparr>)
               (filter (\<lambda>h. \<not> isCovered h covered) hostnames)))"

definition diffNewDomains :: "observed_domain list \<Rightarrow> observed_domain list \<Rightarrow> string list" where
  "diffNewDomains previous current =
     filter (\<lambda>h. h \<notin> set (map od_hostname previous)) (map od_hostname current)"

text \<open>
  recordDrift: the observation store is absent without the snoop resolver. The second result is the
  hostnames it counts in fqdn\_unpolicied\_domain\_total.
\<close>

definition recordDrift ::
  "(string list \<Rightarrow> string list) \<Rightarrow> string + fqdn_policy list \<Rightarrow> observation_store option \<Rightarrow> fqdn_policy \<Rightarrow>
   fqdn_policy \<times> string list" where
  "recordDrift ord listed store fp = (case store of
     None \<Rightarrow> (fp, [])
   | Some s \<Rightarrow> (case computeUnpoliciedDomains ord listed s of
       Inl e \<Rightarrow> (fp, [])
     | Inr drift \<Rightarrow> (fp\<lparr>fp_status := (fp_status fp)\<lparr>st_unpolicied := drift\<rparr>\<rparr>,
                     diffNewDomains (st_unpolicied (fp_status fp)) drift)))"

section \<open>Lemmas\<close>

lemma isCovered_iff: "isCovered h ms \<longleftrightarrow> (\<exists>m \<in> set ms. matchesEgressRule h m)"
  by (induction ms) auto

text \<open>The wildcard covers the domain itself and every name below it.\<close>

lemma matches_wildcard:
  "matchesEgressRule h (''*.'' @ base) \<longleftrightarrow> h = ''*.'' @ base \<or> h = base \<or> (\<exists>sub. h = sub @ ''.'' @ base)"
  by (auto simp: matchesEgressRule_def has_suffix_iff cut_prefix_append [of "''*.''" base, simplified])

lemma matches_plain: "cut_prefix m ''*.'' = None \<Longrightarrow> matchesEgressRule h m \<longleftrightarrow> h = m"
  by (simp add: matchesEgressRule_def)

lemma recordDrift_frame:
  "fp_meta (fst (recordDrift ord l s fp)) = fp_meta fp"
  "fp_spec (fst (recordDrift ord l s fp)) = fp_spec fp"
  "st_resolved_hosts (fp_status (fst (recordDrift ord l s fp))) = st_resolved_hosts (fp_status fp)"
  "st_conditions (fp_status (fst (recordDrift ord l s fp))) = st_conditions (fp_status fp)"
  "st_generated (fp_status (fst (recordDrift ord l s fp))) = st_generated (fp_status fp)"
  by (simp_all add: recordDrift_def split: option.split sum.split)

section \<open>Properties\<close>

text \<open>C28. Drift is exactly what is observed and not covered. The reported domains are, in sorted order
  and without duplicates, the hostnames in the observation store that no egress rule of any policy of
  the namespace covers, with their first and last times; so a domain disappears from the report as soon
  as some policy covers it, whatever order the map is ranged over.\<close>

theorem drift_exact:
  assumes "range_order ord" and "gomap_ok (AllDomains store)"
  shows "\<exists>drift. computeUnpoliciedDomains ord (Inr ps) store = Inr drift \<and>
    sorted (map od_hostname drift) \<and> distinct (map od_hostname drift) \<and>
    (\<forall>h. h \<in> set (map od_hostname drift) \<longleftrightarrow> h \<in> dom (map_of (AllDomains store)) \<and>
       (\<forall>p \<in> set ps. \<forall>r \<in> set (sp_egress (fp_spec p)). \<not> matchesEgressRule h (fr_match r))) \<and>
    (\<forall>d \<in> set drift. \<exists>seen. map_of (AllDomains store) (od_hostname d) = Some seen \<and>
       od_first_seen d = ds_first seen \<and> od_last_seen d = ds_last seen)"
proof -
  let ?hs = "sort_strings (ord (keys (AllDomains store)))"
  let ?fs = "filter (\<lambda>h. \<not> isCovered h (covered_matches ps)) ?hs"
  define f where "f = (\<lambda>h. let seen = the (map_of (AllDomains store) h) in
                 \<lparr>od_hostname = h, od_first_seen = ds_first seen, od_last_seen = ds_last seen,
                  od_ports = [], od_query_count = (0 :: int)\<rparr>)"
  have C: "computeUnpoliciedDomains ord (Inr ps) store = Inr (map f ?fs)"
    by (simp add: computeUnpoliciedDomains_def f_def Let_def)
  have n: "map od_hostname (map f ?fs) = ?fs" by (simp add: f_def Let_def comp_def)
  have hs: "set ?hs = dom (map_of (AllDomains store))"
    using range_order_set [OF assms(1)] by (simp add: set_keys)
  have "distinct (ord (keys (AllDomains store)))"
    using range_order_distinct [OF assms(1)] assms(2) by (simp add: gomap_ok_def keys_def)
  then have d: "distinct ?hs" by (simp add: sort_strings_def)
  have c: "isCovered h (covered_matches ps) \<longleftrightarrow>
      (\<exists>p \<in> set ps. \<exists>r \<in> set (sp_egress (fp_spec p)). matchesEgressRule h (fr_match r))" for h
    by (auto simp: isCovered_iff covered_matches_def)
  have s: "\<exists>seen. map_of (AllDomains store) (od_hostname x) = Some seen \<and>
       od_first_seen x = ds_first seen \<and> od_last_seen x = ds_last seen" if "x \<in> set (map f ?fs)" for x
    using that hs by (auto simp: f_def Let_def)
  show ?thesis
  proof (intro exI conjI)
    show "sorted (map od_hostname (map f ?fs))" unfolding n by (rule sorted_wrt_filter) simp
    show "distinct (map od_hostname (map f ?fs))" unfolding n using d by simp
    show "\<forall>h. h \<in> set (map od_hostname (map f ?fs)) \<longleftrightarrow> h \<in> dom (map_of (AllDomains store)) \<and>
       (\<forall>p \<in> set ps. \<forall>r \<in> set (sp_egress (fp_spec p)). \<not> matchesEgressRule h (fr_match r))"
      unfolding n using hs c by auto
    show "\<forall>d \<in> set (map f ?fs). \<exists>seen. map_of (AllDomains store) (od_hostname d) = Some seen \<and>
       od_first_seen d = ds_first seen \<and> od_last_seen d = ds_last seen"
      using s by blast
  qed (rule C)
qed

lemma drift_exact_witness:
  "\<exists>drift. computeUnpoliciedDomains rev (Inr []) (obs_Record 5 6 ''a.io'' NewObservationStore) = Inr drift \<and>
     set (map od_hostname drift) = {''a.io''}"
proof -
  have d: "AllDomains (obs_Record 5 6 ''a.io'' NewObservationStore) =
      [(''a.io'', \<lparr>ds_first = 5, ds_last = 5, ds_count = 1\<rparr>)]"
    by code_simp
  have g: "gomap_ok (AllDomains (obs_Record 5 6 ''a.io'' NewObservationStore))"
    by (simp add: d gomap_ok_def)
  from drift_exact [OF range_order_rev g, of "[]"] show ?thesis
    by (auto simp: d)
qed

end
