(* ===== verification/Reconcile.thy ===== *)
theory Reconcile
  imports HostLoop Divergence Drift
begin

text \<open>
  internal/controller/fqdnnetworkpolicy\_controller.go: one reconcile of a FQDNNetworkPolicy. The answers
  of the API server to the calls the reconcile makes are in its environment; the calls that write, with
  the object written, and the events and metrics are in the log it returns, in order. What survives from
  one reconcile to the next in the process is the \<open>controller\<close> record.
\<close>

section \<open>Environment and state\<close>

datatype 'a api_get = Found 'a | NotFound | GetFailed string

record 'e reconcile_env =
  rv_clk :: "nat \<Rightarrow> gotime"
  rv_envs :: "nat \<Rightarrow> 'e"
  rv_policy :: "fqdn_policy api_get"
  rv_policies :: "string + fqdn_policy list"
  rv_store :: "observation_store option"
  rv_ord :: "string list \<Rightarrow> string list"
  rv_np :: "string \<Rightarrow> string \<Rightarrow> network_policy api_get"
  rv_create :: "string option"
  rv_update :: "string option"
  rv_status :: "string option"

record 's controller =
  ct_resolver :: 's
  ct_churn :: "churn_tracker option"
  ct_enricher :: "enrich_manager option"

definition start_loop :: "'s controller \<Rightarrow> effect list \<Rightarrow> 's loop_state" where
  "start_loop c log = \<lparr>lp_resolver = ct_resolver c, lp_churn = ct_churn c, lp_enricher = ct_enricher c,
     lp_queue = NewTTLQueue, lp_resolved = [], lp_errors = [], lp_log = log, lp_tick = 0\<rparr>"

definition controller_of :: "'s loop_state \<Rightarrow> 's controller" where
  "controller_of st = \<lparr>ct_resolver = lp_resolver st, ct_churn = lp_churn st, ct_enricher = lp_enricher st\<rparr>"

section \<open>Requeue\<close>

definition clamp :: "duration \<Rightarrow> duration \<Rightarrow> duration \<Rightarrow> duration" where
  "clamp d floor ceiling = (if d < floor then floor else if ceiling < d then ceiling else d)"

definition nextRequeue :: "gotime \<Rightarrow> fqdn_policy \<Rightarrow> ttl_queue \<Rightarrow> duration" where
  "nextRequeue now fp q = (case sp_ttl_override (fp_spec fp) of
     Some o_secs \<Rightarrow> clamp (sint o_secs * second) ttlFloor ttlCeiling
   | None \<Rightarrow> tq_MinDelay now reconcilePollInterval q)"

section \<open>Applying the NetworkPolicy\<close>

definition rule_cidrs :: "np_rule list \<Rightarrow> string list" where
  "rule_cidrs rules = concat (map (\<lambda>r. concat (map (\<lambda>p.
     case peer_ip_block p of None \<Rightarrow> [] | Some c \<Rightarrow> [c]) (nr_to r))) rules)"

definition ipSetsEqual :: "np_rule list \<Rightarrow> np_rule list \<Rightarrow> bool" where
  "ipSetsEqual a b \<longleftrightarrow> sort_strings (rule_cidrs a) = sort_strings (rule_cidrs b)"

text \<open>existing.Spec = desired.Spec; existing.Labels = desired.Labels.\<close>

definition overwrite_np :: "network_policy \<Rightarrow> network_policy \<Rightarrow> network_policy" where
  "overwrite_np existing desired = existing\<lparr>np_pod_selector := np_pod_selector desired,
     np_policy_types := np_policy_types desired, np_egress := np_egress desired,
     np_labels := np_labels desired\<rparr>"

definition applyNetworkPolicy ::
  "'e reconcile_env \<Rightarrow> network_policy \<Rightarrow> string option \<times> effect list" where
  "applyNetworkPolicy env desired = (case rv_np env (np_namespace desired) (np_name desired) of
     NotFound \<Rightarrow> (rv_create env,
       [Ev ''Normal'' ''NetworkPolicyCreated'' (''Created NetworkPolicy '' @ np_name desired),
        ApiCreate desired])
   | GetFailed e \<Rightarrow> (Some e, [])
   | Found existing \<Rightarrow>
       if ipSetsEqual (np_egress existing) (np_egress desired) then (None, [])
       else (rv_update env,
         [Ev ''Normal'' ''NetworkPolicyUpdated'' (''Updated NetworkPolicy '' @ np_name desired @ '' with new IP set''),
          ApiUpdate (overwrite_np existing desired)]))"

section \<open>Conditions\<close>

definition setReadyCondition :: "gotime \<Rightarrow> gotime \<Rightarrow> string list \<Rightarrow> fqdn_policy \<Rightarrow> fqdn_policy" where
  "setReadyCondition now now2 errors fp =
     (if errors \<noteq> [] then
        setCondition now2 ''Degraded'' condition_true ''ResolutionErrors'' (join_str ''; '' errors)
          (setCondition now ''Ready'' condition_false ''ResolutionDegraded'' (join_str ''; '' errors) fp)
      else
        setCondition now2 ''Degraded'' condition_false ''OK'' []
          (setCondition now ''Ready'' condition_true ''Reconciled''
            ''NetworkPolicy generated from resolved hosts'' fp))"

section \<open>Reconcile\<close>

text \<open>The end of every branch that reaches it: write the status, then ask when to come back.\<close>

definition finish_status ::
  "'e reconcile_env \<Rightarrow> nat \<Rightarrow> fqdn_policy \<Rightarrow> ttl_queue \<Rightarrow> effect list \<Rightarrow> (string + duration) \<times> effect list" where
  "finish_status env t fp q log =
     ((case rv_status env of Some e \<Rightarrow> Inl e | None \<Rightarrow> Inr (nextRequeue (rv_clk env t) fp q)),
      log @ [ApiStatus fp])"

definition with_resolved :: "resolved_host list \<Rightarrow> fqdn_policy \<Rightarrow> fqdn_policy" where
  "with_resolved hosts fp = fp\<lparr>fp_status := (fp_status fp)\<lparr>st_resolved_hosts := hosts\<rparr>\<rparr>"

definition with_generated :: "string \<Rightarrow> fqdn_policy \<Rightarrow> fqdn_policy" where
  "with_generated name fp = fp\<lparr>fp_status := (fp_status fp)\<lparr>st_generated := name,
     st_observed_generation := om_generation (fp_meta fp)\<rparr>\<rparr>"

definition with_observed_generation :: "fqdn_policy \<Rightarrow> fqdn_policy" where
  "with_observed_generation fp = fp\<lparr>fp_status := (fp_status fp)\<lparr>st_observed_generation :=
     om_generation (fp_meta fp)\<rparr>\<rparr>"

text \<open>The policy as it stands after the loop: the resolved hosts, the divergence condition, the drift.\<close>

definition after_loop ::
  "'e reconcile_env \<Rightarrow> fqdn_policy \<Rightarrow> 's loop_state \<Rightarrow> fqdn_policy \<times> effect list" where
  "after_loop env fp st =
     (let fp2 = setResolverDivergenceCondition (rv_clk env (lp_tick st)) (lp_resolved st)
                  (with_resolved (lp_resolved st) fp);
          (fp3, drift) = recordDrift (rv_ord env) (rv_policies env) (rv_store env) fp2
      in (fp3, lp_log st @ map (\<lambda>h. MetInc ''fqdnnp_unpolicied_domain_total''
                                 [om_namespace (fp_meta fp), h]) drift))"

definition reconcile_audit ::
  "'e reconcile_env \<Rightarrow> nat \<Rightarrow> fqdn_policy \<Rightarrow> ttl_queue \<Rightarrow> effect list \<Rightarrow> (string + duration) \<times> effect list" where
  "reconcile_audit env t fp q log =
     finish_status env (t + 1)
       (setCondition (rv_clk env t) ''Ready'' condition_true ''AuditMode''
         ''Audit mode active; no NetworkPolicy generated'' (with_generated [] fp)) q
       (log @ [Ev ''Normal'' ''AuditResolved'' ''Audit mode: resolved FQDNs without writing NetworkPolicy''])"

definition reconcile_frozen ::
  "'e reconcile_env \<Rightarrow> nat \<Rightarrow> fqdn_policy \<Rightarrow> ttl_queue \<Rightarrow> effect list \<Rightarrow> (string + duration) \<times> effect list" where
  "reconcile_frozen env t fp q log =
     finish_status env (t + 2)
       (setCondition (rv_clk env (t + 1)) ''Degraded'' condition_true ''DivergenceBlocked''
         ''resolver disagreement detected; NetworkPolicy update skipped''
         (setCondition (rv_clk env t) ''Ready'' condition_false ''DivergenceBlocked''
           ''resolver disagreement detected; NetworkPolicy update skipped''
           (with_observed_generation fp))) q
       (log @ [Ev ''Warning'' ''DivergenceBlocked''
         ''Resolver disagreement detected; retaining previously-applied NetworkPolicy''])"

definition reconcile_enforce ::
  "'e reconcile_env \<Rightarrow> nat \<Rightarrow> fqdn_policy \<Rightarrow> ttl_queue \<Rightarrow> string list \<Rightarrow> effect list \<Rightarrow>
   (string + duration) \<times> effect list" where
  "reconcile_enforce env t fp q errors log = (case Build fp of
     Inl e \<Rightarrow> (Inl e, log)
   | Inr desired \<Rightarrow> (case applyNetworkPolicy env desired of
       (Some e, log2) \<Rightarrow> (Inl e, log @ log2 @
          [Ev ''Warning'' ''SyncFailed'' (''Failed to sync NetworkPolicy '' @ np_name desired @ '': '' @ e)])
     | (None, log2) \<Rightarrow>
         finish_status env (t + 2)
           (setReadyCondition (rv_clk env t) (rv_clk env (t + 1)) errors
             (with_generated (np_name desired) fp)) q (log @ log2)))"

definition Reconcile ::
  "('e \<Rightarrow> 's \<Rightarrow> string \<Rightarrow> (string + resolution) \<times> 's) \<Rightarrow> 'e reconcile_env \<Rightarrow> 's controller \<Rightarrow>
   ((string + duration) \<times> effect list) \<times> 's controller" where
  "Reconcile resolve env c = (case rv_policy env of
     NotFound \<Rightarrow> ((Inr 0, [MetDec ''fqdn_managed_policies_total'']), c)
   | GetFailed e \<Rightarrow> ((Inl e, []), c)
   | Found fp \<Rightarrow>
       let st = policy_rules resolve (rv_clk env) (rv_envs env) 0 fp (sp_egress (fp_spec fp))
                  (start_loop c [MetInc ''fqdn_managed_policies_total'' []]);
           (fp3, log) = after_loop env fp st;
           t = lp_tick st + 1
       in ((if sp_mode (fp_spec fp3) = PolicyModeAudit then reconcile_audit env t fp3 (lp_queue st) log
            else if blockOnDivergence (sp_security (fp_spec fp3)) \<and> anyDivergence (lp_resolved st)
            then reconcile_frozen env t fp3 (lp_queue st) log
            else reconcile_enforce env t fp3 (lp_queue st) (lp_errors st) log), controller_of st))"

section \<open>Lemmas\<close>

lemma ipSetsEqual_iff: "ipSetsEqual a b \<longleftrightarrow> mset (rule_cidrs a) = mset (rule_cidrs b)"
  by (simp add: ipSetsEqual_def sort_strings_eq_iff)

lemma after_loop_frame:
  assumes "after_loop env fp st = (fp3, log)"
  shows "fp_meta fp3 = fp_meta fp" "fp_spec fp3 = fp_spec fp"
    "st_resolved_hosts (fp_status fp3) = lp_resolved st"
    "st_generated (fp_status fp3) = st_generated (fp_status fp)"
    "no_writes (lp_log st) \<Longrightarrow> no_writes log"
proof -
  obtain fp' d where r: "recordDrift (rv_ord env) (rv_policies env) (rv_store env)
      (setResolverDivergenceCondition (rv_clk env (lp_tick st)) (lp_resolved st) (with_resolved (lp_resolved st) fp))
      = (fp', d)" by fastforce
  have f: "fp' = fst (recordDrift (rv_ord env) (rv_policies env) (rv_store env)
      (setResolverDivergenceCondition (rv_clk env (lp_tick st)) (lp_resolved st) (with_resolved (lp_resolved st) fp)))"
    by (simp add: r)
  have e: "fp3 = fp'" "log = lp_log st @ map (\<lambda>h. MetInc ''fqdnnp_unpolicied_domain_total''
      [om_namespace (fp_meta fp), h]) d"
    using assms by (simp_all add: after_loop_def r)
  show "fp_meta fp3 = fp_meta fp" "fp_spec fp3 = fp_spec fp"
    "st_resolved_hosts (fp_status fp3) = lp_resolved st"
    "st_generated (fp_status fp3) = st_generated (fp_status fp)"
    unfolding e f by (simp_all add: recordDrift_frame with_resolved_def)
  show "no_writes (lp_log st) \<Longrightarrow> no_writes log"
    unfolding e by (auto simp: no_writes_def)
qed

text \<open>The loop of one reconcile, and the writes of its end.\<close>

definition loop_of ::
  "('e \<Rightarrow> 's \<Rightarrow> string \<Rightarrow> (string + resolution) \<times> 's) \<Rightarrow> 'e reconcile_env \<Rightarrow> 's controller \<Rightarrow> fqdn_policy \<Rightarrow>
   's loop_state" where
  "loop_of resolve env c fp = policy_rules resolve (rv_clk env) (rv_envs env) 0 fp (sp_egress (fp_spec fp))
     (start_loop c [MetInc ''fqdn_managed_policies_total'' []])"

definition writes :: "effect list \<Rightarrow> effect list" where
  "writes log = filter is_write log"

lemma writes_simps [simp]:
  "writes (a @ b) = writes a @ writes b" "writes [] = []"
  "writes (e # log) = (if is_write e then e # writes log else writes log)"
  by (simp_all add: writes_def)

lemma writes_none: "no_writes log \<Longrightarrow> writes log = []"
  by (simp add: writes_def no_writes_def filter_empty_conv)

lemma loop_no_writes: "no_writes (lp_log (loop_of resolve env c fp))"
  unfolding loop_of_def
  by (rule policy_rules_keep [where P = "\<lambda>st. no_writes (lp_log st)"])
    (simp_all add: policy_rule_no_writes start_loop_def)

lemma loop_screened:
  "screened (st_resolved_hosts (fp_status fp)) (sp_security (fp_spec fp)) (lp_resolved (loop_of resolve env c fp))"
  unfolding loop_of_def
  by (rule policy_rules_keep [where
        P = "\<lambda>st. screened (st_resolved_hosts (fp_status fp)) (sp_security (fp_spec fp)) (lp_resolved st)"])
    (simp_all add: policy_rule_screened start_loop_def)

definition frozen :: "('e \<Rightarrow> 's \<Rightarrow> string \<Rightarrow> (string + resolution) \<times> 's) \<Rightarrow> 'e reconcile_env \<Rightarrow> 's controller \<Rightarrow> fqdn_policy \<Rightarrow> bool" where
  "frozen resolve env c fp \<longleftrightarrow>
     blockOnDivergence (sp_security (fp_spec fp)) \<and> anyDivergence (lp_resolved (loop_of resolve env c fp))"

lemma Reconcile_found:
  assumes "rv_policy env = Found fp"
  obtains fp3 log where
    "fp_meta fp3 = fp_meta fp" "fp_spec fp3 = fp_spec fp"
    "st_resolved_hosts (fp_status fp3) = lp_resolved (loop_of resolve env c fp)"
    "st_generated (fp_status fp3) = st_generated (fp_status fp)" "no_writes log"
    "fst (Reconcile resolve env c) =
      (if sp_mode (fp_spec fp) = PolicyModeAudit
       then reconcile_audit env (lp_tick (loop_of resolve env c fp) + 1) fp3 (lp_queue (loop_of resolve env c fp)) log
       else if frozen resolve env c fp
       then reconcile_frozen env (lp_tick (loop_of resolve env c fp) + 1) fp3 (lp_queue (loop_of resolve env c fp)) log
       else reconcile_enforce env (lp_tick (loop_of resolve env c fp) + 1) fp3 (lp_queue (loop_of resolve env c fp))
         (lp_errors (loop_of resolve env c fp)) log)"
proof -
  let ?st = "loop_of resolve env c fp"
  obtain fp3 log where a: "after_loop env fp ?st = (fp3, log)" by (cases "after_loop env fp ?st")
  note fr = after_loop_frame [OF a]
  show thesis
  proof (rule that [of fp3 log])
    show "no_writes log" by (rule fr(5) [OF loop_no_writes])
    show "fst (Reconcile resolve env c) =
      (if sp_mode (fp_spec fp) = PolicyModeAudit
       then reconcile_audit env (lp_tick ?st + 1) fp3 (lp_queue ?st) log
       else if frozen resolve env c fp
       then reconcile_frozen env (lp_tick ?st + 1) fp3 (lp_queue ?st) log
       else reconcile_enforce env (lp_tick ?st + 1) fp3 (lp_queue ?st) (lp_errors ?st) log)"
      using assms a fr(2) by (simp add: Reconcile_def loop_of_def [symmetric] Let_def frozen_def)
  qed (rule fr)+
qed

lemma finish_simps [simp]:
  "writes (snd (finish_status env t fp q log)) = writes log @ [ApiStatus fp]"
  by (simp add: finish_status_def)

lemma Build_cong:
  "fp_meta a = fp_meta b \<Longrightarrow> fp_spec a = fp_spec b \<Longrightarrow>
   st_resolved_hosts (fp_status a) = st_resolved_hosts (fp_status b) \<Longrightarrow> Build a = Build b"
  by (simp add: Build_def denyAllEgress_def controller_ref_def collectPorts_def)

lemma with_simps [simp]:
  "fp_meta (with_resolved hs fp) = fp_meta fp" "fp_spec (with_resolved hs fp) = fp_spec fp"
  "st_resolved_hosts (fp_status (with_resolved hs fp)) = hs"
  "fp_meta (with_generated n fp) = fp_meta fp" "fp_spec (with_generated n fp) = fp_spec fp"
  "st_resolved_hosts (fp_status (with_generated n fp)) = st_resolved_hosts (fp_status fp)"
  "st_generated (fp_status (with_generated n fp)) = n"
  "st_observed_generation (fp_status (with_generated n fp)) = om_generation (fp_meta fp)"
  "fp_meta (with_observed_generation fp) = fp_meta fp" "fp_spec (with_observed_generation fp) = fp_spec fp"
  "st_resolved_hosts (fp_status (with_observed_generation fp)) = st_resolved_hosts (fp_status fp)"
  "st_generated (fp_status (with_observed_generation fp)) = st_generated (fp_status fp)"
  "st_observed_generation (fp_status (with_observed_generation fp)) = om_generation (fp_meta fp)"
  by (simp_all add: with_resolved_def with_generated_def with_observed_generation_def)

lemma setReady_frame [simp]:
  "fp_meta (setReadyCondition a b es fp) = fp_meta fp" "fp_spec (setReadyCondition a b es fp) = fp_spec fp"
  "st_resolved_hosts (fp_status (setReadyCondition a b es fp)) = st_resolved_hosts (fp_status fp)"
  "st_generated (fp_status (setReadyCondition a b es fp)) = st_generated (fp_status fp)"
  "st_observed_generation (fp_status (setReadyCondition a b es fp)) = st_observed_generation (fp_status fp)"
  by (simp_all add: setReadyCondition_def)

lemma setReady_status:
  "condition_status ''Ready'' (st_conditions (fp_status (setReadyCondition a b es fp))) =
     Some (if es = [] then condition_true else condition_false)"
  "condition_status ''Degraded'' (st_conditions (fp_status (setReadyCondition a b es fp))) =
     Some (if es = [] then condition_false else condition_true)"
  by (simp_all add: setReadyCondition_def policy_conditions.status_same policy_conditions.status_other)

text \<open>What an update should make of a NetworkPolicy: its identity and owners stay, specification and labels are
  the desired ones.\<close>

definition respecced :: "network_policy \<Rightarrow> network_policy \<Rightarrow> network_policy" where
  "respecced existing desired = \<lparr>np_name = np_name existing, np_namespace = np_namespace existing,
     np_labels = np_labels desired, np_owners = np_owners existing, np_pod_selector = np_pod_selector desired,
     np_policy_types = np_policy_types desired, np_egress = np_egress desired\<rparr>"

lemma overwrite_np_eq: "overwrite_np existing desired = respecced existing desired"
  by (simp add: overwrite_np_def respecced_def)

text \<open>The write of a NetworkPolicy, and whether the API server refused it.\<close>

definition np_write :: "'e reconcile_env \<Rightarrow> network_policy \<Rightarrow> string option \<times> effect list" where
  "np_write env desired = (case rv_np env (np_namespace desired) (np_name desired) of
     NotFound \<Rightarrow> (rv_create env, [ApiCreate desired])
   | GetFailed e \<Rightarrow> (Some e, [])
   | Found existing \<Rightarrow>
       if mset (rule_cidrs (np_egress existing)) = mset (rule_cidrs (np_egress desired)) then (None, [])
       else (rv_update env, [ApiUpdate (respecced existing desired)]))"

lemma applyNetworkPolicy_writes:
  "applyNetworkPolicy env desired = (err, log) \<Longrightarrow> np_write env desired = (err, writes log)"
  by (auto simp: applyNetworkPolicy_def np_write_def ipSetsEqual_iff overwrite_np_eq split: api_get.splits if_splits)

lemma enforce_cases:
  assumes "Build fp = Inr desired" "no_writes log"
  shows "case np_write env desired of
      (Some e, ws) \<Rightarrow> fst (reconcile_enforce env t fp q es log) = Inl e \<and>
        writes (snd (reconcile_enforce env t fp q es log)) = ws
    | (None, ws) \<Rightarrow> \<exists>fp'. writes (snd (reconcile_enforce env t fp q es log)) = ws @ [ApiStatus fp'] \<and>
        fp' = setReadyCondition (rv_clk env t) (rv_clk env (t + 1)) es (with_generated (np_name desired) fp) \<and>
        fst (reconcile_enforce env t fp q es log) = (case rv_status env of
          Some e \<Rightarrow> Inl e | None \<Rightarrow> Inr (nextRequeue (rv_clk env (t + 2)) fp' q))"
proof -
  obtain err log2 where a: "applyNetworkPolicy env desired = (err, log2)" by fastforce
  show ?thesis
    using assms a applyNetworkPolicy_writes [OF a] writes_none [OF assms(2)]
    by (cases err) (auto simp: reconcile_enforce_def finish_status_def add_2_eq_Suc' split: option.split)
qed

subsection \<open>A reconcile to test with\<close>

text \<open>Every API call succeeds; the resolver answers every name with the same addresses.\<close>

definition sample_reconcile_env :: "fqdn_policy \<Rightarrow> network_policy api_get \<Rightarrow> unit reconcile_env" where
  "sample_reconcile_env fp np = \<lparr>rv_clk = int, rv_envs = (\<lambda>i. ()), rv_policy = Found fp,
     rv_policies = Inr [], rv_store = None, rv_ord = id, rv_np = (\<lambda>ns n. np), rv_create = None,
     rv_update = None, rv_status = None\<rparr>"

definition fixed_resolve :: "resolution \<Rightarrow> unit \<Rightarrow> unit \<Rightarrow> string \<Rightarrow> (string + resolution) \<times> unit" where
  "fixed_resolve r e s h = (Inr (r\<lparr>rs_hostname := h\<rparr>), s)"

definition sample_answer :: resolution where
  "sample_answer = empty_resolution\<lparr>rs_ips := [''203.0.113.7''], rs_ttl := 20 * second\<rparr>"

definition sample_controller :: "unit controller" where
  "sample_controller = \<lparr>ct_resolver = (), ct_churn = None, ct_enricher = None\<rparr>"

definition with_mode :: "policy_mode \<Rightarrow> fqdn_policy \<Rightarrow> fqdn_policy" where
  "with_mode m fp = fp\<lparr>fp_spec := (fp_spec fp)\<lparr>sp_mode := m\<rparr>\<rparr>"

definition with_security :: "security_spec \<Rightarrow> fqdn_policy \<Rightarrow> fqdn_policy" where
  "with_security sec fp = fp\<lparr>fp_spec := (fp_spec fp)\<lparr>sp_security := Some sec\<rparr>\<rparr>"

definition one_rule :: fqdn_policy where
  "one_rule = sample_policy [\<lparr>fr_match = ''a.io'', fr_ports = []\<rparr>] []"

lemma one_rule_simps [simp]:
  "sp_mode (fp_spec one_rule) = PolicyModeEnforce" "sp_security (fp_spec one_rule) = None"
  "sp_mode (fp_spec (with_mode m fp)) = m" "st_resolved_hosts (fp_status one_rule) = []"
  by (simp_all add: one_rule_def sample_policy_def with_mode_def)

lemma sample_found [simp]: "rv_policy (sample_reconcile_env fp np) = Found fp"
  by (simp add: sample_reconcile_env_def)

section \<open>Properties\<close>

text \<open>C29. Enforce mode, on every branch. When the policy is found, is not in Audit mode and is not
  frozen by divergence, the NetworkPolicy built from this cycle's resolved hosts is created when there is
  none, overwrites the spec and labels of the existing one when the sets of CIDRs differ, and is left
  alone otherwise; no other write precedes the status. If reading or writing it failed the reconcile
  returns that error and leaves the status alone; else the status names it, and is Ready (and not
  Degraded) exactly when no rule had an error.\<close>

theorem reconcile_enforce_correct:
  assumes "rv_policy env = Found fp" and "sp_mode (fp_spec fp) \<noteq> PolicyModeAudit"
    and "\<not> frozen resolve env c fp"
  shows "\<exists>desired fp'.
    Build (with_resolved (lp_resolved (loop_of resolve env c fp)) fp) = Inr desired \<and>
    writes (snd (fst (Reconcile resolve env c))) =
      snd (np_write env desired) @ (if fst (np_write env desired) = None then [ApiStatus fp'] else []) \<and>
    (case fst (np_write env desired) of
       Some e \<Rightarrow> fst (fst (Reconcile resolve env c)) = Inl e
     | None \<Rightarrow> st_generated (fp_status fp') = np_name desired \<and>
         st_resolved_hosts (fp_status fp') = lp_resolved (loop_of resolve env c fp) \<and>
         condition_status ''Ready'' (st_conditions (fp_status fp')) =
           Some (if lp_errors (loop_of resolve env c fp) = [] then condition_true else condition_false) \<and>
         condition_status ''Degraded'' (st_conditions (fp_status fp')) =
           Some (if lp_errors (loop_of resolve env c fp) = [] then condition_false else condition_true))"
proof -
  let ?st = "loop_of resolve env c fp"
  obtain fp3 log where f: "fp_meta fp3 = fp_meta fp" "fp_spec fp3 = fp_spec fp"
    "st_resolved_hosts (fp_status fp3) = lp_resolved ?st" and nw: "no_writes log"
    and R: "fst (Reconcile resolve env c) =
      (if sp_mode (fp_spec fp) = PolicyModeAudit
       then reconcile_audit env (lp_tick ?st + 1) fp3 (lp_queue ?st) log
       else if frozen resolve env c fp
       then reconcile_frozen env (lp_tick ?st + 1) fp3 (lp_queue ?st) log
       else reconcile_enforce env (lp_tick ?st + 1) fp3 (lp_queue ?st) (lp_errors ?st) log)"
    by (rule Reconcile_found [OF assms(1)])
  obtain desired where d: "Build fp3 = Inr desired" using Build_Inr by blast
  then have b: "Build (with_resolved (lp_resolved ?st) fp) = Inr desired"
    using Build_cong [of fp3 "with_resolved (lp_resolved ?st) fp"] f by simp
  have e: "fst (Reconcile resolve env c) =
      reconcile_enforce env (lp_tick ?st + 1) fp3 (lp_queue ?st) (lp_errors ?st) log"
    using R assms by simp
  show ?thesis
    using enforce_cases [OF d nw, of env "lp_tick ?st + 1" "lp_queue ?st" "lp_errors ?st"] b f
    by (cases "np_write env desired"; cases "fst (np_write env desired)")
      (auto simp: e setReady_status)
qed

lemma reconcile_enforce_correct_witness:
  "\<exists>desired. Build (with_resolved (lp_resolved (loop_of (fixed_resolve sample_answer)
      (sample_reconcile_env one_rule NotFound) sample_controller one_rule)) one_rule) = Inr desired \<and>
    ApiCreate desired \<in> set (writes (snd (fst (Reconcile (fixed_resolve sample_answer)
      (sample_reconcile_env one_rule NotFound) sample_controller))))"
proof -
  have "\<not> frozen (fixed_resolve sample_answer) (sample_reconcile_env one_rule NotFound) sample_controller one_rule"
    by (simp add: frozen_def blockOnDivergence_def)
  from reconcile_enforce_correct [OF _ _ this] show ?thesis
    by (fastforce simp: np_write_def sample_reconcile_env_def)
qed

text \<open>Audit mode and a freeze write no NetworkPolicy. In Audit mode, or when the policy opts into
  blockOnDivergence and some host diverged, the only write to the API server is the status: in Audit mode
  it is Ready and names no NetworkPolicy, in a freeze it is not Ready, is Degraded, and keeps the name of
  the NetworkPolicy that stays applied. A policy that is gone, or whose read failed, writes nothing.\<close>

theorem reconcile_no_np_write:
  assumes "rv_policy env = Found fp"
    and "sp_mode (fp_spec fp) = PolicyModeAudit \<or> frozen resolve env c fp"
  shows "\<exists>fp'. writes (snd (fst (Reconcile resolve env c))) = [ApiStatus fp'] \<and>
    st_resolved_hosts (fp_status fp') = lp_resolved (loop_of resolve env c fp) \<and>
    st_generated (fp_status fp') = (if sp_mode (fp_spec fp) = PolicyModeAudit then []
      else st_generated (fp_status fp)) \<and>
    condition_status ''Ready'' (st_conditions (fp_status fp')) =
      Some (if sp_mode (fp_spec fp) = PolicyModeAudit then condition_true else condition_false) \<and>
    (sp_mode (fp_spec fp) \<noteq> PolicyModeAudit \<longrightarrow>
      condition_status ''Degraded'' (st_conditions (fp_status fp')) = Some condition_true)"
proof -
  let ?st = "loop_of resolve env c fp"
  obtain fp3 log where f: "fp_meta fp3 = fp_meta fp" "fp_spec fp3 = fp_spec fp"
    "st_resolved_hosts (fp_status fp3) = lp_resolved ?st"
    "st_generated (fp_status fp3) = st_generated (fp_status fp)" and nw: "no_writes log"
    and R: "fst (Reconcile resolve env c) =
      (if sp_mode (fp_spec fp) = PolicyModeAudit
       then reconcile_audit env (lp_tick ?st + 1) fp3 (lp_queue ?st) log
       else if frozen resolve env c fp
       then reconcile_frozen env (lp_tick ?st + 1) fp3 (lp_queue ?st) log
       else reconcile_enforce env (lp_tick ?st + 1) fp3 (lp_queue ?st) (lp_errors ?st) log)"
    by (rule Reconcile_found [OF assms(1)])
  show ?thesis
    using assms(2) f writes_none [OF nw]
    by (cases "sp_mode (fp_spec fp) = PolicyModeAudit")
      (simp_all add: R reconcile_audit_def reconcile_frozen_def policy_conditions.status_same
        policy_conditions.status_other)
qed

lemma reconcile_no_np_write_witness:
  "\<exists>fp'. writes (snd (fst (Reconcile (fixed_resolve sample_answer)
      (sample_reconcile_env (with_mode PolicyModeAudit one_rule) NotFound) sample_controller))) = [ApiStatus fp']"
  using reconcile_no_np_write [of "sample_reconcile_env (with_mode PolicyModeAudit one_rule) NotFound"
      "with_mode PolicyModeAudit one_rule" "fixed_resolve sample_answer" sample_controller]
  by auto

lemma clamp_range: "floor \<le> ceiling \<Longrightarrow> floor \<le> clamp d floor ceiling \<and> clamp d floor ceiling \<le> ceiling"
  by (simp add: clamp_def)

context resolver begin

lemma loop_of_ok:
  assumes "mono (rv_clk env)" "\<forall>i. env_ok (rv_envs env i)" "inv (ct_resolver c)"
    and "host_texts (st_resolved_hosts (fp_status fp))"
  shows "loop_ok (rv_clk env) (loop_of resolve env c fp)"
  unfolding loop_of_def
  by (rule policy_rules_ok [OF assms(1,2,4)])
    (simp add: loop_ok_def start_loop_def assms(3) due_soon_new host_texts_def)

lemma requeue_ok:
  assumes "mono (rv_clk env)" "\<forall>i. env_ok (rv_envs env i)" "inv (ct_resolver c)"
    and "host_texts (st_resolved_hosts (fp_status fp))" "lp_tick (loop_of resolve env c fp) \<le> t"
    and "fp_spec fp' = fp_spec fp"
  shows "let d = nextRequeue (rv_clk env t) fp' (lp_queue (loop_of resolve env c fp)) in
    ttlFloor \<le> d \<and> d \<le> ttlCeiling \<and>
    (sp_ttl_override (fp_spec fp) = None \<longrightarrow> reconcilePollInterval \<le> d)"
proof -
  have q: "due_soon (rv_clk env (lp_tick (loop_of resolve env c fp))) (lp_queue (loop_of resolve env c fp))"
    using loop_of_ok [OF assms(1-4)] by (simp add: loop_ok_def)
  have c: "reconcilePollInterval \<le> ttlCeiling" "ttlFloor \<le> reconcilePollInterval" "ttlFloor \<le> ttlCeiling"
    by (simp_all add: reconcilePollInterval_def ttlCeiling_def ttlFloor_def second_def)
  note d = due_soon_delay [OF q monoD [OF assms(1,5)] c(1)]
  show ?thesis
    using d c clamp_range [OF c(3)] assms(6)
    by (auto simp: nextRequeue_def Let_def split: option.split)
qed

end

lemma finish_result:
  "fst (finish_status env t fp q log) = Inr d \<Longrightarrow> d = nextRequeue (rv_clk env t) fp q"
  by (simp add: finish_status_def split: option.splits)

lemma setCondition_spec [simp]: "fp_spec (setReadyCondition a b es fp) = fp_spec fp"
  by (simp add: setReadyCondition_def)

lemma Reconcile_requeue:
  assumes "rv_policy env = Found fp" "fst (fst (Reconcile resolve env c)) = Inr d"
  shows "\<exists>t fp'. lp_tick (loop_of resolve env c fp) \<le> t \<and> fp_spec fp' = fp_spec fp \<and>
    d = nextRequeue (rv_clk env t) fp' (lp_queue (loop_of resolve env c fp))"
proof -
  let ?st = "loop_of resolve env c fp"
  let ?t = "lp_tick ?st + 1"
  obtain fp3 log where f: "fp_spec fp3 = fp_spec fp" and nw: "no_writes log"
    and R: "fst (Reconcile resolve env c) =
      (if sp_mode (fp_spec fp) = PolicyModeAudit then reconcile_audit env ?t fp3 (lp_queue ?st) log
       else if frozen resolve env c fp then reconcile_frozen env ?t fp3 (lp_queue ?st) log
       else reconcile_enforce env ?t fp3 (lp_queue ?st) (lp_errors ?st) log)"
    by (rule Reconcile_found [OF assms(1)])
  have a: "fst (reconcile_audit env ?t fp3 (lp_queue ?st) log) = Inr d \<Longrightarrow> ?thesis"
    unfolding reconcile_audit_def
    by (drule finish_result) (rule exI [of _ "?t + 1"], rule exI, rule conjI [OF _ conjI], auto simp: f)
  have z: "fst (reconcile_frozen env ?t fp3 (lp_queue ?st) log) = Inr d \<Longrightarrow> ?thesis"
    unfolding reconcile_frozen_def
    by (drule finish_result) (rule exI [of _ "?t + 2"], rule exI, rule conjI [OF _ conjI], auto simp: f)
  obtain desired where b: "Build fp3 = Inr desired" using Build_Inr by blast
  let ?fp = "setReadyCondition (rv_clk env ?t) (rv_clk env (?t + 1)) (lp_errors ?st) (with_generated (np_name desired) fp3)"
  have e: ?thesis if "fst (reconcile_enforce env ?t fp3 (lp_queue ?st) (lp_errors ?st) log) = Inr d"
  proof -
    have "d = nextRequeue (rv_clk env (?t + 2)) ?fp (lp_queue ?st)"
      using enforce_cases [OF b nw, of env ?t "lp_queue ?st" "lp_errors ?st"] that
      by (cases "np_write env desired"; cases "fst (np_write env desired)"; cases "rv_status env") simp_all
    then show ?thesis
      by (intro exI [of _ "?t + 2"] exI [of _ ?fp]) (simp add: f)
  qed
  show ?thesis using assms(2) a z e unfolding R by presburger
qed

text \<open>C30. When the next reconcile comes. With any resolver that keeps the Resolver contract and a clock
  that does not run backwards, a reconcile that succeeds asks to come back between 5 seconds and 5 minutes
  later whatever the TTLs and the override say; without an override never in less than 60 seconds.\<close>

theorem reconcile_requeue_bounds:
  fixes resolve :: "'e \<Rightarrow> 's \<Rightarrow> string \<Rightarrow> (string + resolution) \<times> 's" and ok :: "'s \<Rightarrow> bool"
  assumes "resolver resolve env_ok ok" and "mono (rv_clk env)" and "\<forall>i. env_ok (rv_envs env i)"
    and "ok (ct_resolver c)" and "rv_policy env = Found fp"
    and "host_texts (st_resolved_hosts (fp_status fp))"
    and "fst (fst (Reconcile resolve env c)) = Inr d"
  shows "ttlFloor \<le> d \<and> d \<le> ttlCeiling \<and>
    (sp_ttl_override (fp_spec fp) = None \<longrightarrow> reconcilePollInterval \<le> d)"
proof -
  obtain t fp' where "lp_tick (loop_of resolve env c fp) \<le> t" "fp_spec fp' = fp_spec fp"
    "d = nextRequeue (rv_clk env t) fp' (lp_queue (loop_of resolve env c fp))"
    using Reconcile_requeue [OF assms(5,7)] by blast
  with resolver.requeue_ok [OF assms(1-4,6)] show ?thesis by (simp add: Let_def)
qed

text \<open>A policy whose reconcile runs with the active resolver over a network that always times out.\<close>

definition active_env :: "dns_net \<Rightarrow> fqdn_policy \<Rightarrow> (dns_net \<times> bool) reconcile_env" where
  "active_env net fp = \<lparr>rv_clk = int, rv_envs = (\<lambda>i. (net, False)), rv_policy = Found fp,
     rv_policies = Inr [], rv_store = None, rv_ord = id, rv_np = (\<lambda>ns n. NotFound), rv_create = None,
     rv_update = None, rv_status = None\<rparr>"

definition active_controller :: "string controller" where
  "active_controller = \<lparr>ct_resolver = ''10.0.0.10:53'', ct_churn = None, ct_enricher = None\<rparr>"

lemma reconcile_requeue_bounds_witness:
  "\<exists>d. fst (fst (Reconcile (\<lambda>(net, aaaa_first) ns h. (active_Resolve net aaaa_first ns h, ns))
      (active_env (sample_net []) (with_mode PolicyModeAudit one_rule)) active_controller)) = Inr d \<and>
    ttlFloor \<le> d \<and> d \<le> ttlCeiling"
proof -
  let ?fp = "with_mode PolicyModeAudit one_rule"
  let ?env = "active_env (sample_net []) ?fp"
  let ?res = "\<lambda>(net, aaaa_first) ns h. (active_Resolve net aaaa_first ns h, ns)"
  have p: "rv_policy ?env = Found ?fp" by (simp add: active_env_def)
  obtain d where d: "fst (fst (Reconcile ?res ?env active_controller)) = Inr d"
    using Reconcile_found [OF p, of ?res active_controller]
    by (fastforce simp: reconcile_audit_def finish_status_def active_env_def)
  have "mono (rv_clk ?env)" by (simp add: active_env_def mono_def)
  moreover have "host_texts (st_resolved_hosts (fp_status ?fp))"
    by (simp add: host_texts_def with_mode_def)
  ultimately have "ttlFloor \<le> d \<and> d \<le> ttlCeiling"
    using reconcile_requeue_bounds [OF active.resolver_axioms _ _ _ p _ d] by simp
  with d show ?thesis by blast
qed

end
