(* ===== verification/ClusterReconcile.thy ===== *)
theory ClusterReconcile
  imports Reconcile
begin

text \<open>
  internal/controller/clusterfqdnnetworkpolicy\_controller.go: one reconcile of a ClusterFQDNNetworkPolicy.
  The names are resolved once (\<open>cluster_rules\<close> of HostLoop), then a NetworkPolicy is written into every
  active namespace the selector matches, and the ones left in other namespaces are deleted. The answers
  of the API server, the selector that apimachinery makes of the LabelSelector and the clock are the
  environment; writes, events and metrics are the log.
\<close>

section \<open>Environment\<close>

record k8s_namespace =
  ns_name :: string
  ns_labels :: "(string, string) gomap"
  ns_phase :: string

text \<open>labels.Selector: whether it is empty, and the label sets it matches.\<close>

record label_sel =
  sel_empty :: bool
  sel_match :: "(string, string) gomap \<Rightarrow> bool"

record 'e cluster_env =
  cv_clk :: "nat \<Rightarrow> gotime"
  cv_envs :: "nat \<Rightarrow> 'e"
  cv_policy :: "cluster_policy api_get"
  cv_as_selector :: "label_selector \<Rightarrow> string + label_sel"
  cv_list_ns :: "label_sel option \<Rightarrow> string + k8s_namespace list"
  cv_np :: "string \<Rightarrow> string \<Rightarrow> network_policy api_get"
  cv_create :: "string \<Rightarrow> string option"
  cv_update :: "string \<Rightarrow> string option"
  cv_list_np :: "string \<Rightarrow> string \<Rightarrow> string + network_policy list"
  cv_delete :: "string \<Rightarrow> string \<Rightarrow> unit api_get"
  cv_status :: "string option"

section \<open>Namespaces\<close>

definition matchedNamespaces :: "'e cluster_env \<Rightarrow> cluster_policy \<Rightarrow> string + string list" where
  "matchedNamespaces env cp = (case cv_as_selector env (cs_namespace_selector (cp_spec cp)) of
     Inl e \<Rightarrow> Inl e
   | Inr sel \<Rightarrow> (case cv_list_ns env (if sel_empty sel then None else Some sel) of
       Inl e \<Rightarrow> Inl e
     | Inr items \<Rightarrow> Inr (sort_strings (map ns_name (filter (\<lambda>n. ns_phase n = ''Active'') items)))))"

section \<open>Fan-out\<close>

definition syntheticPolicy :: "cluster_policy \<Rightarrow> string \<Rightarrow> resolved_host list \<Rightarrow> fqdn_policy" where
  "syntheticPolicy cp namespace resolved =
     \<lparr>fp_meta = \<lparr>om_name = ''cfqdnnp-'' @ om_name (cp_meta cp), om_namespace = namespace, om_uid = [],
        om_generation = 0, om_created = zero_time, om_labels = [], om_annotations = []\<rparr>,
      fp_spec = \<lparr>sp_pod_selector = cs_pod_selector (cp_spec cp), sp_egress = cs_egress (cp_spec cp),
        sp_mode = cs_mode (cp_spec cp), sp_ttl_override = None, sp_coredns = [], sp_security = None\<rparr>,
      fp_status = \<lparr>st_resolved_hosts = resolved, st_generated = [], st_conditions = [],
        st_observed_generation = 0, st_unpolicied = []\<rparr>\<rparr>"

definition cluster_label :: string where
  "cluster_label = ''netsec.kunal.dev/cluster-policy''"

definition tagged :: "string \<Rightarrow> network_policy \<Rightarrow> network_policy" where
  "tagged name np = np\<lparr>np_labels := put cluster_label name (np_labels np)\<rparr>"

text \<open>The fan-out into one namespace: no failure reaches the caller.\<close>

definition sync_namespace ::
  "'e cluster_env \<Rightarrow> cluster_policy \<Rightarrow> resolved_host list \<Rightarrow> string \<Rightarrow> effect list" where
  "sync_namespace env cp resolved ns = (case Build (syntheticPolicy cp ns resolved) of
     Inl e \<Rightarrow> []
   | Inr np \<Rightarrow>
       let desired = tagged (om_name (cp_meta cp)) np in
       case cv_np env (np_namespace desired) (np_name desired) of
         NotFound \<Rightarrow> (case cv_create env ns of
             Some e \<Rightarrow> [ApiCreate desired, Ev ''Warning'' ''SyncFailed''
               (''Failed to create NetworkPolicy in '' @ ns @ '': '' @ e)]
           | None \<Rightarrow> [ApiCreate desired, Ev ''Normal'' ''NetworkPolicyCreated''
               (''Created NetworkPolicy '' @ ns @ ''/'' @ np_name desired)])
       | GetFailed e \<Rightarrow> []
       | Found existing \<Rightarrow>
           if \<not> ipSetsEqual (np_egress existing) (np_egress desired) then
             (let updated = overwrite_np existing desired in
              case cv_update env ns of
                Some e \<Rightarrow> [ApiUpdate updated]
              | None \<Rightarrow> [ApiUpdate updated, Ev ''Normal'' ''NetworkPolicyUpdated''
                  (''Updated NetworkPolicy '' @ ns @ ''/'' @ np_name existing)])
           else [])"

definition fan_out :: "'e cluster_env \<Rightarrow> cluster_policy \<Rightarrow> resolved_host list \<Rightarrow> string list \<Rightarrow> effect list" where
  "fan_out env cp resolved nss = concat (map (sync_namespace env cp resolved) nss)"

section \<open>Garbage collection\<close>

fun gc_loop :: "'e cluster_env \<Rightarrow> string list \<Rightarrow> network_policy list \<Rightarrow> string option \<times> effect list" where
  "gc_loop env active [] = (None, [])"
| "gc_loop env active (np # nps) =
     (if np_namespace np \<in> set active then gc_loop env active nps
      else case cv_delete env (np_namespace np) (np_name np) of
        GetFailed e \<Rightarrow> (Some e, [ApiDelete (np_namespace np) (np_name np)])
      | _ \<Rightarrow> (let (err, log) = gc_loop env active nps in
          (err, [ApiDelete (np_namespace np) (np_name np), Ev ''Normal'' ''NetworkPolicyDeleted''
            (''Removed NetworkPolicy '' @ np_namespace np @ ''/'' @ np_name np @
             '' (namespace no longer matches)'')] @ log)))"

definition garbageCollect ::
  "'e cluster_env \<Rightarrow> cluster_policy \<Rightarrow> string list \<Rightarrow> string option \<times> effect list" where
  "garbageCollect env cp active = (case cv_list_np env cluster_label (om_name (cp_meta cp)) of
     Inl e \<Rightarrow> (Some e, [])
   | Inr items \<Rightarrow> gc_loop env active items)"

section \<open>Status\<close>

definition cluster_requeue :: "gotime \<Rightarrow> cluster_policy \<Rightarrow> ttl_queue \<Rightarrow> duration" where
  "cluster_requeue now cp q = (case cs_ttl_override (cp_spec cp) of
     Some secs \<Rightarrow> clamp (sint secs * second) ttlFloor ttlCeiling
   | None \<Rightarrow> tq_MinDelay now reconcilePollInterval q)"

definition with_cluster_status ::
  "resolved_host list \<Rightarrow> string list \<Rightarrow> cluster_policy \<Rightarrow> cluster_policy" where
  "with_cluster_status resolved nss cp = cp\<lparr>cp_status := (cp_status cp)\<lparr>cst_resolved_hosts := resolved,
     cst_namespaces := nss, cst_observed_generation := om_generation (cp_meta cp)\<rparr>\<rparr>"

definition cluster_ready ::
  "(nat \<Rightarrow> gotime) \<Rightarrow> nat \<Rightarrow> string list \<Rightarrow> bool \<Rightarrow> cluster_policy \<Rightarrow> cluster_policy" where
  "cluster_ready clk t errors blocked cp =
     (if blocked then
        setClusterCondition (clk (t + 1)) ''Degraded'' condition_true ''DivergenceBlocked''
          ''resolver disagreement detected; NetworkPolicy fan-out skipped''
          (setClusterCondition (clk t) ''Ready'' condition_false ''DivergenceBlocked''
            ''resolver disagreement detected; NetworkPolicy fan-out skipped'' cp)
      else if errors \<noteq> [] then
        setClusterCondition (clk t) ''Ready'' condition_false ''ResolutionDegraded'' (join_str ''; '' errors) cp
      else
        setClusterCondition (clk t) ''Ready'' condition_true ''Reconciled''
          ''NetworkPolicies synced to all matched namespaces'' cp)"

definition updateClusterStatus ::
  "'e cluster_env \<Rightarrow> nat \<Rightarrow> cluster_policy \<Rightarrow> resolved_host list \<Rightarrow> string list \<Rightarrow> string list \<Rightarrow> ttl_queue \<Rightarrow>
   bool \<Rightarrow> effect list \<Rightarrow> (string + duration) \<times> effect list" where
  "updateClusterStatus env t cp resolved nss errors q blocked log =
     (let cp' = cluster_ready (cv_clk env) t errors blocked (with_cluster_status resolved nss cp) in
      case cv_status env of
        Some e \<Rightarrow> (Inl e, log @ [ApiClusterStatus cp'])
      | None \<Rightarrow> (Inr (cluster_requeue (cv_clk env (t + 2)) cp' q),
          log @ [ApiClusterStatus cp',
                 MetSet ''fqdn_cluster_managed_namespaces_total'' [] (int (length nss))]))"

section \<open>Reconcile\<close>

definition cluster_finish ::
  "'e cluster_env \<Rightarrow> cluster_policy \<Rightarrow> 's loop_state \<Rightarrow> (string + duration) \<times> effect list" where
  "cluster_finish env cp st = (case matchedNamespaces env cp of
     Inl e \<Rightarrow> (Inl e, lp_log st)
   | Inr nss \<Rightarrow>
       let resolved = lp_resolved st;
           t = lp_tick st;
           cp1 = setClusterResolverDivergenceCondition (cv_clk env t) resolved cp
       in if cs_mode (cp_spec cp) = PolicyModeAudit then
            updateClusterStatus env (t + 1) cp1 resolved nss (lp_errors st) (lp_queue st) False
              (lp_log st @ [Ev ''Normal'' ''AuditResolved'' (''Audit mode: '' @ itoa (length nss) @
                 '' namespaces matched, no NetworkPolicies written'')])
          else if blockOnDivergence (cs_security (cp_spec cp)) \<and> anyDivergence resolved then
            updateClusterStatus env (t + 1) cp1 resolved nss (lp_errors st) (lp_queue st) True
              (lp_log st @ [Ev ''Warning'' ''DivergenceBlocked''
                 ''Resolver disagreement detected; retaining previously-applied NetworkPolicies''])
          else
            updateClusterStatus env (t + 1) cp1 resolved nss (lp_errors st) (lp_queue st) False
              (lp_log st @ fan_out env cp resolved nss @ snd (garbageCollect env cp nss)))"

definition cluster_Reconcile ::
  "('e \<Rightarrow> 's \<Rightarrow> string \<Rightarrow> (string + resolution) \<times> 's) \<Rightarrow> 'e cluster_env \<Rightarrow> 's controller \<Rightarrow>
   ((string + duration) \<times> effect list) \<times> 's controller" where
  "cluster_Reconcile resolve env c = (case cv_policy env of
     NotFound \<Rightarrow> ((Inr 0, []), c)
   | GetFailed e \<Rightarrow> ((Inl e, []), c)
   | Found cp \<Rightarrow>
       let st = cluster_rules resolve (cv_clk env) (cv_envs env) 0 cp (cs_egress (cp_spec cp)) (start_loop c [])
       in (cluster_finish env cp st, controller_of st))"

text \<open>The watch on namespaces enqueues every cluster policy: the names of the requests.\<close>

definition nsMapper :: "string + cluster_policy list \<Rightarrow> (string \<times> string) list" where
  "nsMapper listed = (case listed of
     Inl e \<Rightarrow> []
   | Inr items \<Rightarrow> map (\<lambda>cp. (om_namespace (cp_meta cp), om_name (cp_meta cp))) items)"

section \<open>Lemmas\<close>

text \<open>What the fan-out writes for one namespace.\<close>

definition cluster_np_write :: "'e cluster_env \<Rightarrow> network_policy \<Rightarrow> effect list" where
  "cluster_np_write env desired = (case cv_np env (np_namespace desired) (np_name desired) of
     NotFound \<Rightarrow> [ApiCreate desired]
   | GetFailed e \<Rightarrow> []
   | Found existing \<Rightarrow>
       if mset (rule_cidrs (np_egress existing)) = mset (rule_cidrs (np_egress desired)) then []
       else [ApiUpdate (respecced existing desired)])"

lemma sync_namespace_writes:
  "Build (syntheticPolicy cp ns hosts) = Inr np \<Longrightarrow>
   writes (sync_namespace env cp hosts ns) = cluster_np_write env (tagged (om_name (cp_meta cp)) np)"
  by (simp add: sync_namespace_def cluster_np_write_def Let_def ipSetsEqual_iff overwrite_np_eq
      split: api_get.split option.split)

lemma fan_out_writes:
  assumes "\<And>ns. Build (syntheticPolicy cp ns hosts) = Inr (npf ns)"
  shows "writes (fan_out env cp hosts nss) =
    concat (map (\<lambda>ns. cluster_np_write env (tagged (om_name (cp_meta cp)) (npf ns))) nss)"
  by (induction nss) (simp_all add: fan_out_def sync_namespace_writes [OF assms])

lemma synthetic_simps [simp]:
  "om_name (fp_meta (syntheticPolicy cp ns hosts)) = ''cfqdnnp-'' @ om_name (cp_meta cp)"
  "om_namespace (fp_meta (syntheticPolicy cp ns hosts)) = ns"
  "om_uid (fp_meta (syntheticPolicy cp ns hosts)) = []"
  "st_resolved_hosts (fp_status (syntheticPolicy cp ns hosts)) = hosts"
  "sp_egress (fp_spec (syntheticPolicy cp ns hosts)) = cs_egress (cp_spec cp)"
  "sp_pod_selector (fp_spec (syntheticPolicy cp ns hosts)) = cs_pod_selector (cp_spec cp)"
  by (simp_all add: syntheticPolicy_def)

text \<open>Every namespace gets the same rules.\<close>

lemma synthetic_egress:
  "Build (syntheticPolicy cp ns hosts) = Inr np \<Longrightarrow> Build (syntheticPolicy cp ns' hosts) = Inr np' \<Longrightarrow>
   np_egress np = np_egress np'"
  by (auto simp: Build_def denyAllEgress_def collectPorts_def split: if_splits)

lemma tagged_simps [simp]:
  "np_egress (tagged n np) = np_egress np" "np_name (tagged n np) = np_name np"
  "np_namespace (tagged n np) = np_namespace np" "np_pod_selector (tagged n np) = np_pod_selector np"
  "np_owners (tagged n np) = np_owners np"
  "map_of (np_labels (tagged n np)) cluster_label = Some n"
  by (simp_all add: tagged_def)

subsection \<open>Garbage collection\<close>

definition stale_policies :: "string list \<Rightarrow> network_policy list \<Rightarrow> network_policy list" where
  "stale_policies active items = filter (\<lambda>np. np_namespace np \<notin> set active) items"

definition delete_of :: "network_policy \<Rightarrow> effect" where
  "delete_of np = ApiDelete (np_namespace np) (np_name np)"

text \<open>A delete fails when the API server answers with anything but success or NotFound.\<close>

definition delete_error :: "'e cluster_env \<Rightarrow> network_policy \<Rightarrow> string option" where
  "delete_error env np = (case cv_delete env (np_namespace np) (np_name np) of GetFailed e \<Rightarrow> Some e | _ \<Rightarrow> None)"

text \<open>The policies that are deleted before the first one whose delete fails, and that one.\<close>

definition gc_deleted :: "'e cluster_env \<Rightarrow> network_policy list \<Rightarrow> network_policy list" where
  "gc_deleted env nps = takeWhile (\<lambda>np. delete_error env np = None) nps"

definition gc_failing :: "'e cluster_env \<Rightarrow> network_policy list \<Rightarrow> network_policy option" where
  "gc_failing env nps = find (\<lambda>np. delete_error env np \<noteq> None) nps"

definition gc_event :: "network_policy \<Rightarrow> effect" where
  "gc_event np = Ev ''Normal'' ''NetworkPolicyDeleted''
     (''Removed NetworkPolicy '' @ np_namespace np @ ''/'' @ np_name np @ '' (namespace no longer matches)'')"

definition gc_attempted :: "'e cluster_env \<Rightarrow> network_policy list \<Rightarrow> network_policy list" where
  "gc_attempted env nps = gc_deleted env nps @ (case gc_failing env nps of None \<Rightarrow> [] | Some np \<Rightarrow> [np])"

lemma gc_loop_exact:
  "gc_loop env active items =
     (Option.bind (gc_failing env (stale_policies active items)) (delete_error env),
      concat (map (\<lambda>np. [delete_of np, gc_event np]) (gc_deleted env (stale_policies active items))) @
      (case gc_failing env (stale_policies active items) of None \<Rightarrow> [] | Some np \<Rightarrow> [delete_of np]))"
proof (induction items)
  case (Cons np items)
  show ?case
  proof (cases "np_namespace np \<in> set active")
    case True
    with Cons show ?thesis by (simp add: stale_policies_def)
  next
    case False
    then have st: "stale_policies active (np # items) = np # stale_policies active items"
      by (simp add: stale_policies_def)
    show ?thesis
      unfolding st gc_deleted_def gc_failing_def
      using False Cons [unfolded gc_deleted_def gc_failing_def]
      by (cases "cv_delete env (np_namespace np) (np_name np)") (simp_all add: delete_error_def delete_of_def gc_event_def)
  qed
qed (simp add: stale_policies_def gc_deleted_def gc_failing_def)

lemma gc_writes: "writes (snd (gc_loop env active items)) = map delete_of (gc_attempted env (stale_policies active items))"
proof -
  have "writes (concat (map (\<lambda>np. [delete_of np, gc_event np]) nps)) = map delete_of nps" for nps
    by (induction nps) (simp_all add: delete_of_def gc_event_def)
  then show ?thesis
    by (simp add: gc_loop_exact gc_attempted_def delete_of_def split: option.split)
qed

lemma gc_attempted_subset: "set (gc_attempted env nps) \<subseteq> set nps"
proof -
  have "gc_failing env nps = Some np \<Longrightarrow> np \<in> set nps" for np
    unfolding gc_failing_def find_Some_iff by (elim exE conjE) simp
  then show ?thesis
    by (auto simp: gc_attempted_def gc_deleted_def dest: set_takeWhileD split: option.splits)
qed

lemma gc_attempted_all:
  assumes "\<And>np. np \<in> set nps \<Longrightarrow> delete_error env np = None"
  shows "gc_attempted env nps = nps"
proof -
  have "gc_failing env nps = None" using assms unfolding gc_failing_def find_None_iff by auto
  moreover have "gc_deleted env nps = nps" using assms by (simp add: gc_deleted_def takeWhile_eq_all_conv)
  ultimately show ?thesis by (simp add: gc_attempted_def)
qed

text \<open>What a reconcile deletes: nothing when the labelled policies cannot be listed.\<close>

definition cluster_deletes :: "'e cluster_env \<Rightarrow> cluster_policy \<Rightarrow> string list \<Rightarrow> network_policy list" where
  "cluster_deletes env cp active = (case cv_list_np env cluster_label (om_name (cp_meta cp)) of
     Inl e \<Rightarrow> [] | Inr items \<Rightarrow> gc_attempted env (stale_policies active items))"

lemma garbageCollect_writes:
  "writes (snd (garbageCollect env cp active)) = map delete_of (cluster_deletes env cp active)"
  by (simp add: garbageCollect_def cluster_deletes_def gc_writes split: sum.split)

subsection \<open>Status and the loop\<close>

lemma cluster_status_simps [simp]:
  "cp_meta (with_cluster_status hs nss cp) = cp_meta cp"
  "cp_spec (with_cluster_status hs nss cp) = cp_spec cp"
  "cst_resolved_hosts (cp_status (with_cluster_status hs nss cp)) = hs"
  "cst_namespaces (cp_status (with_cluster_status hs nss cp)) = nss"
  "cst_conditions (cp_status (with_cluster_status hs nss cp)) = cst_conditions (cp_status cp)"
  by (simp_all add: with_cluster_status_def)

lemma cluster_set_frame [simp]:
  "cp_spec (setClusterCondition now ty st re msg cp) = cp_spec cp"
  "cp_meta (setClusterCondition now ty st re msg cp) = cp_meta cp"
  "cst_resolved_hosts (cp_status (setClusterCondition now ty st re msg cp)) = cst_resolved_hosts (cp_status cp)"
  "cst_namespaces (cp_status (setClusterCondition now ty st re msg cp)) = cst_namespaces (cp_status cp)"
  by (simp_all add: setClusterCondition_def)

lemma cluster_ready_frame [simp]:
  "cp_spec (cluster_ready clk t es b cp) = cp_spec cp"
  "cst_resolved_hosts (cp_status (cluster_ready clk t es b cp)) = cst_resolved_hosts (cp_status cp)"
  "cst_namespaces (cp_status (cluster_ready clk t es b cp)) = cst_namespaces (cp_status cp)"
  by (simp_all add: cluster_ready_def)

lemma cluster_ready_status:
  "condition_status ''Ready'' (cst_conditions (cp_status (cluster_ready clk t es b cp))) =
     Some (if b \<or> es \<noteq> [] then condition_false else condition_true)"
  "condition_status ''Degraded'' (cst_conditions (cp_status (cluster_ready clk t es b cp))) =
     (if b then Some condition_true else condition_status ''Degraded'' (cst_conditions (cp_status cp)))"
  by (simp_all add: cluster_ready_def cluster_conditions.status_same cluster_conditions.status_other)

lemma updateClusterStatus_writes:
  "writes (snd (updateClusterStatus env t cp hs nss es q b log)) =
     writes log @ [ApiClusterStatus (cluster_ready (cv_clk env) t es b (with_cluster_status hs nss cp))]"
  by (simp add: updateClusterStatus_def Let_def split: option.split)

definition cluster_loop_of ::
  "('e \<Rightarrow> 's \<Rightarrow> string \<Rightarrow> (string + resolution) \<times> 's) \<Rightarrow> 'e cluster_env \<Rightarrow> 's controller \<Rightarrow> cluster_policy \<Rightarrow>
   's loop_state" where
  "cluster_loop_of resolve env c cp = cluster_rules resolve (cv_clk env) (cv_envs env) 0 cp
     (cs_egress (cp_spec cp)) (start_loop c [])"

lemma cluster_loop_no_writes: "no_writes (lp_log (cluster_loop_of resolve env c cp))"
  unfolding cluster_loop_of_def
  by (rule cluster_rules_keep [where P = "\<lambda>st. no_writes (lp_log st)"])
    (simp_all add: cluster_rule_no_writes start_loop_def)

definition cluster_frozen ::
  "('e \<Rightarrow> 's \<Rightarrow> string \<Rightarrow> (string + resolution) \<times> 's) \<Rightarrow> 'e cluster_env \<Rightarrow> 's controller \<Rightarrow> cluster_policy \<Rightarrow> bool" where
  "cluster_frozen resolve env c cp \<longleftrightarrow> blockOnDivergence (cs_security (cp_spec cp)) \<and>
     anyDivergence (lp_resolved (cluster_loop_of resolve env c cp))"

lemma cluster_Reconcile_found:
  "cv_policy env = Found cp \<Longrightarrow>
   fst (cluster_Reconcile resolve env c) = cluster_finish env cp (cluster_loop_of resolve env c cp)"
  by (simp add: cluster_Reconcile_def cluster_loop_of_def Let_def)

text \<open>What a reconcile writes, mode by mode.\<close>

lemma cluster_enforce_writes:
  assumes "cv_policy env = Found cp" and "cs_mode (cp_spec cp) \<noteq> PolicyModeAudit"
    and "\<not> cluster_frozen resolve env c cp" and "matchedNamespaces env cp = Inr nss"
  shows "\<exists>cp'. writes (snd (fst (cluster_Reconcile resolve env c))) =
      writes (fan_out env cp (lp_resolved (cluster_loop_of resolve env c cp)) nss) @
      writes (snd (garbageCollect env cp nss)) @ [ApiClusterStatus cp'] \<and>
    cst_resolved_hosts (cp_status cp') = lp_resolved (cluster_loop_of resolve env c cp) \<and>
    cst_namespaces (cp_status cp') = nss \<and>
    condition_status ''Ready'' (cst_conditions (cp_status cp')) =
      Some (if lp_errors (cluster_loop_of resolve env c cp) = [] then condition_true else condition_false) \<and>
    condition_status ''Degraded'' (cst_conditions (cp_status cp')) =
      condition_status ''Degraded'' (cst_conditions (cp_status cp)) \<and>
    (cv_status env = None \<longrightarrow> (\<exists>d. fst (fst (cluster_Reconcile resolve env c)) = Inr d))"
proof -
  have f: "\<not> (blockOnDivergence (cs_security (cp_spec cp)) \<and> anyDivergence (lp_resolved (cluster_loop_of resolve env c cp)))"
    using assms(3) by (simp add: cluster_frozen_def)
  show ?thesis
    using assms(2,4) writes_none [OF cluster_loop_no_writes, of resolve env c cp]
    by (simp add: cluster_Reconcile_found [OF assms(1)] cluster_finish_def Let_def updateClusterStatus_writes
        f cluster_ready_status cluster_divergence_status_other)
      (simp add: updateClusterStatus_def Let_def)
qed

lemma cluster_idle_writes:
  assumes "cv_policy env = Found cp"
    and "cs_mode (cp_spec cp) = PolicyModeAudit \<or> cluster_frozen resolve env c cp"
  shows "writes (snd (fst (cluster_Reconcile resolve env c))) = [] \<or>
    (\<exists>cp'. writes (snd (fst (cluster_Reconcile resolve env c))) = [ApiClusterStatus cp'])"
  using assms(2) writes_none [OF cluster_loop_no_writes, of resolve env c cp]
  by (auto simp: cluster_Reconcile_found [OF assms(1)] cluster_finish_def Let_def updateClusterStatus_writes
      cluster_frozen_def split: sum.split)

lemma cluster_unlisted_writes:
  assumes "cv_policy env = Found cp" and "matchedNamespaces env cp = Inl e"
  shows "writes (snd (fst (cluster_Reconcile resolve env c))) = []"
  using assms(2) writes_none [OF cluster_loop_no_writes, of resolve env c cp]
  by (simp add: cluster_Reconcile_found [OF assms(1)] cluster_finish_def)

subsection \<open>A cluster to test with\<close>

definition sample_namespace :: "string \<Rightarrow> string \<Rightarrow> k8s_namespace" where
  "sample_namespace n phase = \<lparr>ns_name = n, ns_labels = [], ns_phase = phase\<rparr>"

definition sample_cluster_policy :: "policy_mode \<Rightarrow> cluster_policy" where
  "sample_cluster_policy mode =
     \<lparr>cp_meta = sample_meta\<lparr>om_namespace := []\<rparr>,
      cp_spec = \<lparr>cs_namespace_selector = \<lparr>ls_match_labels = [], ls_match_expressions = []\<rparr>,
        cs_pod_selector = sample_selector, cs_egress = [\<lparr>fr_match = ''a.io'', fr_ports = []\<rparr>],
        cs_mode = mode, cs_ttl_override = None, cs_coredns = [], cs_security = None\<rparr>,
      cp_status = \<lparr>cst_resolved_hosts = [], cst_namespaces = [], cst_conditions = [],
        cst_observed_generation = 0\<rparr>\<rparr>"

definition sample_stale :: network_policy where
  "sample_stale = \<lparr>np_name = ''fqdnnp-cfqdnnp-web'', np_namespace = ''old'', np_labels = [], np_owners = [],
     np_pod_selector = pss_selector sample_selector, np_policy_types = [], np_egress = []\<rparr>"

definition sample_cluster_env :: "policy_mode \<Rightarrow> unit cluster_env" where
  "sample_cluster_env mode = \<lparr>cv_clk = int, cv_envs = (\<lambda>i. ()), cv_policy = Found (sample_cluster_policy mode),
     cv_as_selector = (\<lambda>ls. Inr \<lparr>sel_empty = True, sel_match = (\<lambda>m. True)\<rparr>),
     cv_list_ns = (\<lambda>sel. Inr [sample_namespace ''b'' ''Active'', sample_namespace ''c'' ''Terminating'',
       sample_namespace ''a'' ''Active'']),
     cv_np = (\<lambda>ns n. NotFound), cv_create = (\<lambda>ns. None), cv_update = (\<lambda>ns. None),
     cv_list_np = (\<lambda>k v. Inr [sample_stale]), cv_delete = (\<lambda>ns n. Found ()), cv_status = None\<rparr>"

lemma sample_cluster_simps:
  "cv_policy (sample_cluster_env mode) = Found (sample_cluster_policy mode)"
  "cs_mode (cp_spec (sample_cluster_policy mode)) = mode"
  "cs_security (cp_spec (sample_cluster_policy mode)) = None"
  "matchedNamespaces (sample_cluster_env mode) cp = Inr [''a'', ''b'']"
  by (simp_all add: sample_cluster_env_def sample_cluster_policy_def matchedNamespaces_def
      sample_namespace_def sort_strings_def)

section \<open>Properties\<close>

text \<open>C31. The fan-out is exact. In Enforce mode, not frozen, once the matching namespaces are listed the
  writes of a cluster reconcile are: for each of those namespaces, in order, the NetworkPolicy built from
  the one set of resolved hosts (the same rules everywhere, named after the policy, tagged with its name)
  created when there is none, overwritten when the CIDRs differ, left alone otherwise; then the
  deletion of each policy that was listed under the cluster policy's label outside those namespaces, in order,
  up to and including the first whose deletion fails (of none when they cannot be listed); then the status, which names the
  namespaces and is Ready exactly when no rule had an error, whether or not the writes went through, and
  whose Degraded condition is the one of the previous status.\<close>

theorem cluster_fan_out_exact:
  assumes "cv_policy env = Found cp" and "cs_mode (cp_spec cp) \<noteq> PolicyModeAudit"
    and "\<not> cluster_frozen resolve env c cp" and "matchedNamespaces env cp = Inr nss"
  shows "\<exists>npf cp'.
    (\<forall>ns. Build (syntheticPolicy cp ns (lp_resolved (cluster_loop_of resolve env c cp))) = Inr (npf ns) \<and>
      np_namespace (npf ns) = ns \<and> np_name (npf ns) = ''fqdnnp-cfqdnnp-'' @ om_name (cp_meta cp)) \<and>
    (\<forall>ns ns'. np_egress (npf ns) = np_egress (npf ns')) \<and>
    writes (snd (fst (cluster_Reconcile resolve env c))) =
      concat (map (\<lambda>ns. cluster_np_write env (tagged (om_name (cp_meta cp)) (npf ns))) nss) @
      map delete_of (case cv_list_np env cluster_label (om_name (cp_meta cp)) of
        Inl e \<Rightarrow> [] | Inr items \<Rightarrow> gc_attempted env (filter (\<lambda>np. np_namespace np \<notin> set nss) items)) @
      [ApiClusterStatus cp'] \<and>
    cst_namespaces (cp_status cp') = nss \<and>
    condition_status ''Ready'' (cst_conditions (cp_status cp')) =
      Some (if lp_errors (cluster_loop_of resolve env c cp) = [] then condition_true else condition_false) \<and>
    condition_status ''Degraded'' (cst_conditions (cp_status cp')) =
      condition_status ''Degraded'' (cst_conditions (cp_status cp))"
proof -
  let ?st = "cluster_loop_of resolve env c cp"
  let ?hs = "lp_resolved ?st"
  have "\<forall>ns. \<exists>np. Build (syntheticPolicy cp ns ?hs) = Inr np" using Build_Inr by blast
  then obtain npf where b: "\<And>ns. Build (syntheticPolicy cp ns ?hs) = Inr (npf ns)"
    by (drule_tac choice) blast
  have n: "np_namespace (npf ns) = ns \<and> np_name (npf ns) = ''fqdnnp-cfqdnnp-'' @ om_name (cp_meta cp)" for ns
    using Build_fields(1,2) [OF b [of ns]] by (simp add: OwnerName_def)
  obtain cp' where W: "writes (snd (fst (cluster_Reconcile resolve env c))) =
      writes (fan_out env cp ?hs nss) @ writes (snd (garbageCollect env cp nss)) @ [ApiClusterStatus cp']"
    and S: "cst_namespaces (cp_status cp') = nss"
      "condition_status ''Ready'' (cst_conditions (cp_status cp')) =
        Some (if lp_errors ?st = [] then condition_true else condition_false)"
      "condition_status ''Degraded'' (cst_conditions (cp_status cp')) =
        condition_status ''Degraded'' (cst_conditions (cp_status cp))"
    using cluster_enforce_writes [OF assms] by blast
  have e: "\<forall>ns ns'. np_egress (npf ns) = np_egress (npf ns')" using synthetic_egress b by blast
  show ?thesis
    using b n e W S
    by (intro exI [of _ npf] exI [of _ cp'])
      (simp add: fan_out_writes [OF b] garbageCollect_writes cluster_deletes_def stale_policies_def split: sum.split)
qed

lemma cluster_fan_out_exact_witness:
  "\<exists>np. Build (syntheticPolicy (sample_cluster_policy PolicyModeEnforce) ''b''
      (lp_resolved (cluster_loop_of (fixed_resolve sample_answer) (sample_cluster_env PolicyModeEnforce)
        sample_controller (sample_cluster_policy PolicyModeEnforce)))) = Inr np \<and>
    ApiCreate (tagged ''web'' np) \<in> set (writes (snd (fst (cluster_Reconcile (fixed_resolve sample_answer)
      (sample_cluster_env PolicyModeEnforce) sample_controller))))"
proof -
  let ?cp = "sample_cluster_policy PolicyModeEnforce" and ?env = "sample_cluster_env PolicyModeEnforce"
  have f: "\<not> cluster_frozen (fixed_resolve sample_answer) ?env sample_controller ?cp"
    by (simp add: cluster_frozen_def blockOnDivergence_def sample_cluster_simps)
  have c: "cluster_np_write ?env np = [ApiCreate np]" for np
    by (simp add: cluster_np_write_def sample_cluster_env_def)
  have n: "om_name (cp_meta ?cp) = ''web''" by (simp add: sample_cluster_policy_def sample_meta_def)
  from cluster_fan_out_exact [OF sample_cluster_simps(1) _ f sample_cluster_simps(4)] show ?thesis
    by (fastforce simp: sample_cluster_simps c n)
qed

text \<open>C12. Garbage collection is exact. When the policies carrying the cluster policy's label cannot be listed
  nothing is deleted and the error is returned. Otherwise, of the listed policies outside the active
  namespaces, in order, each is deleted and an event says so, up to the first whose deletion fails (one that
  is already gone does not count as a failure): that one is attempted, its error is returned, and no further
  one is touched. Without such a failure all of them are deleted and no error is returned.\<close>

theorem garbage_collect_exact:
  "garbageCollect env cp active = (case cv_list_np env cluster_label (om_name (cp_meta cp)) of
     Inl e \<Rightarrow> (Some e, [])
   | Inr items \<Rightarrow>
       (let stale = filter (\<lambda>np. np_namespace np \<notin> set active) items;
            deleted = takeWhile (\<lambda>np. delete_error env np = None) stale
        in case find (\<lambda>np. delete_error env np \<noteq> None) stale of
          None \<Rightarrow> (None, concat (map (\<lambda>np. [delete_of np, gc_event np]) stale))
        | Some np \<Rightarrow> (delete_error env np, concat (map (\<lambda>np. [delete_of np, gc_event np]) deleted) @ [delete_of np])))"
proof -
  have all: "find (\<lambda>np. delete_error env np \<noteq> None) nps = None \<Longrightarrow> takeWhile (\<lambda>np. delete_error env np = None) nps = nps" for nps
    by (auto simp: find_None_iff takeWhile_eq_all_conv)
  show ?thesis
  proof (cases "cv_list_np env cluster_label (om_name (cp_meta cp))")
    case (Inl e)
    then show ?thesis by (simp add: garbageCollect_def)
  next
    case (Inr items)
    let ?s = "filter (\<lambda>np. np_namespace np \<notin> set active) items"
    show ?thesis
    proof (cases "find (\<lambda>np. delete_error env np \<noteq> None) ?s")
      case None
      have t: "takeWhile (\<lambda>np. delete_error env np = None) ?s = ?s" by (rule all [OF None])
      show ?thesis
        unfolding garbageCollect_def Inr sum.case Let_def gc_loop_exact gc_deleted_def gc_failing_def stale_policies_def
          None option.case t by simp
    next
      case (Some np)
      show ?thesis
        unfolding garbageCollect_def Inr sum.case Let_def gc_loop_exact gc_deleted_def gc_failing_def stale_policies_def
          Some option.case by simp
    qed
  qed
qed

text \<open>Nothing is fanned out in Audit mode, in a freeze or when namespaces cannot be listed. In Audit
  mode, or when the policy opts into blockOnDivergence and some host diverged, the only write is the
  status (in a freeze not Ready and Degraded); when the selector is invalid or the namespaces cannot be
  listed nothing is written at all and the error is returned, so the reconcile is retried.\<close>

theorem cluster_no_fan_out:
  assumes "cv_policy env = Found cp"
    and "cs_mode (cp_spec cp) = PolicyModeAudit \<or> cluster_frozen resolve env c cp"
  shows "case matchedNamespaces env cp of
      Inl e \<Rightarrow> fst (fst (cluster_Reconcile resolve env c)) = Inl e \<and>
        writes (snd (fst (cluster_Reconcile resolve env c))) = []
    | Inr nss \<Rightarrow> \<exists>cp'. writes (snd (fst (cluster_Reconcile resolve env c))) = [ApiClusterStatus cp'] \<and>
        cst_resolved_hosts (cp_status cp') = lp_resolved (cluster_loop_of resolve env c cp) \<and>
        (cs_mode (cp_spec cp) \<noteq> PolicyModeAudit \<longrightarrow>
          condition_status ''Ready'' (cst_conditions (cp_status cp')) = Some condition_false \<and>
          condition_status ''Degraded'' (cst_conditions (cp_status cp')) = Some condition_true)"
  using assms(2) writes_none [OF cluster_loop_no_writes, of resolve env c cp]
  by (auto simp: cluster_Reconcile_found [OF assms(1)] cluster_finish_def Let_def updateClusterStatus_writes
      cluster_frozen_def cluster_ready_status split: sum.split)

lemma cluster_no_fan_out_witness:
  "\<exists>cp'. writes (snd (fst (cluster_Reconcile (fixed_resolve sample_answer) (sample_cluster_env PolicyModeAudit)
      sample_controller))) = [ApiClusterStatus cp']"
  using cluster_no_fan_out [OF sample_cluster_simps(1) [of PolicyModeAudit], of "fixed_resolve sample_answer" sample_controller]
  by (auto simp: sample_cluster_simps)

section \<open>Requeue\<close>

context resolver begin

lemma cluster_loop_of_ok:
  assumes "mono (cv_clk env)" "\<forall>i. env_ok (cv_envs env i)" "inv (ct_resolver c)"
    and "host_texts (cst_resolved_hosts (cp_status cp))"
  shows "loop_ok (cv_clk env) (cluster_loop_of resolve env c cp)"
  unfolding cluster_loop_of_def
  by (rule cluster_rules_ok [OF assms(1,2,4)])
    (simp add: loop_ok_def start_loop_def assms(3) due_soon_new host_texts_def)

lemma cluster_requeue_ok:
  assumes "mono (cv_clk env)" "\<forall>i. env_ok (cv_envs env i)" "inv (ct_resolver c)"
    and "host_texts (cst_resolved_hosts (cp_status cp))" "lp_tick (cluster_loop_of resolve env c cp) \<le> t"
    and "cp_spec cp' = cp_spec cp"
  shows "let d = cluster_requeue (cv_clk env t) cp' (lp_queue (cluster_loop_of resolve env c cp)) in
    ttlFloor \<le> d \<and> d \<le> ttlCeiling \<and> (cs_ttl_override (cp_spec cp) = None \<longrightarrow> reconcilePollInterval \<le> d)"
proof -
  have q: "due_soon (cv_clk env (lp_tick (cluster_loop_of resolve env c cp))) (lp_queue (cluster_loop_of resolve env c cp))"
    using cluster_loop_of_ok [OF assms(1-4)] by (simp add: loop_ok_def)
  have c: "reconcilePollInterval \<le> ttlCeiling" "ttlFloor \<le> reconcilePollInterval" "ttlFloor \<le> ttlCeiling"
    by (simp_all add: reconcilePollInterval_def ttlCeiling_def ttlFloor_def second_def)
  show ?thesis
    using due_soon_delay [OF q monoD [OF assms(1,5)] c(1)] c clamp_range [OF c(3)] assms(6)
    by (auto simp: cluster_requeue_def Let_def split: option.split)
qed

end

end
