(* ===== verification/ObsReconcile.thy ===== *)
theory ObsReconcile
  imports Reconcile
begin

text \<open>
  internal/controller/fqdnegressobservation\_controller.go: one reconcile of a FQDNEgressObservation, which
  merges what the snoop resolver has observed into the status. The controller keeps, for each object, the
  query count of each hostname it last merged (\<open>syncedCounts\<close>), so that a count is added once. The int64
  counts are unbounded integers here (they would wrap after 2^63 queries). The answers of the API server, the clock and the order of the range over the observed map are the environment.
\<close>

section \<open>Merging\<close>

type_synonym synced_counts = "(string, int) gomap"

definition query_delta :: "int option \<Rightarrow> int \<Rightarrow> int" where
  "query_delta prev n =
     (let delta = n - (case prev of None \<Rightarrow> 0 | Some c \<Rightarrow> c) in if delta < 0 then n else delta)"

fun merge_live ::
  "(string, domain_seen) gomap \<Rightarrow> (string, observed_domain) gomap \<times> string list \<times> synced_counts \<Rightarrow>
   (string, observed_domain) gomap \<times> string list \<times> synced_counts" where
  "merge_live [] acc = acc"
| "merge_live ((h, seen) # live) (by_host, names, synced) =
     (let delta = query_delta (map_of synced h) (ds_count seen);
          synced' = put h (ds_count seen) synced
      in case map_of by_host h of
           None \<Rightarrow> merge_live live
             (put h \<lparr>od_hostname = h, od_first_seen = ds_first seen, od_last_seen = ds_last seen,
                od_ports = [], od_query_count = delta\<rparr> by_host, names @ [h], synced')
         | Some d \<Rightarrow> merge_live live
             (put h (d\<lparr>od_first_seen := (if ds_first seen < od_first_seen d then ds_first seen else od_first_seen d),
                od_last_seen := (if od_last_seen d < ds_last seen then ds_last seen else od_last_seen d),
                od_query_count := od_query_count d + delta\<rparr>) by_host, names, synced'))"

definition mergeObservedDomains ::
  "((string \<times> domain_seen) list \<Rightarrow> (string \<times> domain_seen) list) \<Rightarrow> observed_domain list \<Rightarrow>
   (string, domain_seen) gomap \<Rightarrow> synced_counts \<Rightarrow> observed_domain list \<times> synced_counts" where
  "mergeObservedDomains ord existing live synced =
     (let (by_host, names, synced') = merge_live (ord live)
            (fold (\<lambda>d. put (od_hostname d) d) existing [], map od_hostname existing, synced)
      in (map (\<lambda>h. the (map_of by_host h)) (sort_strings names), synced'))"

section \<open>Reconcile\<close>

record obs_env =
  ov_clk :: "nat \<Rightarrow> gotime"
  ov_object :: "egress_observation api_get"
  ov_key :: string
  ov_store :: "observation_store option"
  ov_ord :: "(string \<times> domain_seen) list \<Rightarrow> (string \<times> domain_seen) list"
  ov_status :: "string option"

type_synonym obs_controller = "(string, synced_counts) gomap"

definition with_observed :: "observed_domain list \<Rightarrow> bool \<Rightarrow> egress_observation \<Rightarrow> egress_observation" where
  "with_observed ds complete ob = ob\<lparr>eo_status := (eo_status ob)\<lparr>ost_domains := ds, ost_complete := complete,
     ost_observed_generation := om_generation (eo_meta ob)\<rparr>\<rparr>"

definition observation_inactive :: "(nat \<Rightarrow> gotime) \<Rightarrow> egress_observation \<Rightarrow> egress_observation" where
  "observation_inactive clk ob =
     (let ob' = setObservationCondition (clk 1) ''Ready'' condition_false ''SnoopResolverInactive''
            ''no observation data available without the snoop resolver''
            (setObservationCondition (clk 0) ''Degraded'' condition_true ''SnoopResolverInactive''
              ''snoop resolver is not active; FQDNEgressObservation requires --enable-snoop-resolver'' ob)
      in ob'\<lparr>eo_status := (eo_status ob')\<lparr>ost_observed_generation := om_generation (eo_meta ob')\<rparr>\<rparr>)"

definition observation_update ::
  "(nat \<Rightarrow> gotime) \<Rightarrow> observed_domain list \<Rightarrow> egress_observation \<Rightarrow> egress_observation" where
  "observation_update clk ds ob =
     setObservationCondition (clk 2) ''Degraded'' condition_false ''OK'' []
       (setObservationCondition (clk 1) ''Ready'' condition_true ''Observing''
         (itoa (length ds) @ '' domains observed cluster-wide (podSelector not yet enforced)'')
         (with_observed ds (os_window (eo_spec ob) \<le> time_sub (clk 0) (om_created (eo_meta ob))) ob))"

text \<open>The result, the objects whose status was written (at most one), and the controller's counts.\<close>

definition obs_Reconcile ::
  "obs_env \<Rightarrow> obs_controller \<Rightarrow> (string + duration) \<times> egress_observation list \<times> obs_controller" where
  "obs_Reconcile env c = (case ov_object env of
     NotFound \<Rightarrow> (Inr 0, [], c)
   | GetFailed e \<Rightarrow> (Inl e, [], c)
   | Found ob \<Rightarrow>
       let finish = (case ov_status env of Some e \<Rightarrow> Inl e | None \<Rightarrow> Inr reconcilePollInterval) in
       case ov_store env of
         None \<Rightarrow> (finish, [observation_inactive (ov_clk env) ob], c)
       | Some store \<Rightarrow>
           let synced = (case map_of c (ov_key env) of None \<Rightarrow> [] | Some m \<Rightarrow> m);
               (ds, synced') = mergeObservedDomains (ov_ord env) (ost_domains (eo_status ob))
                 (AllDomains store) synced
           in (finish, [observation_update (ov_clk env) ds ob], put (ov_key env) synced' c))"

section \<open>Lemmas\<close>

text \<open>The queries since the last merge, and what one observed hostname becomes. A count below the one merged
  last comes from a restarted store and is new as a whole.\<close>

definition new_queries :: "int option \<Rightarrow> int \<Rightarrow> int" where
  "new_queries prev n = (case prev of Some c \<Rightarrow> if c \<le> n then n - c else n | None \<Rightarrow> n)"

lemma query_delta_eq: "query_delta prev n = new_queries prev n"
  by (simp add: query_delta_def new_queries_def split: option.split)

definition merged_domain :: "string \<Rightarrow> observed_domain option \<Rightarrow> int option \<Rightarrow> domain_seen \<Rightarrow> observed_domain" where
  "merged_domain h known prev seen = (case known of
     None \<Rightarrow> \<lparr>od_hostname = h, od_first_seen = ds_first seen, od_last_seen = ds_last seen, od_ports = [],
       od_query_count = new_queries prev (ds_count seen)\<rparr>
   | Some d \<Rightarrow> d\<lparr>od_first_seen := min (ds_first seen) (od_first_seen d),
       od_last_seen := max (od_last_seen d) (ds_last seen),
       od_query_count := od_query_count d + new_queries prev (ds_count seen)\<rparr>)"

lemma merge_live_step:
  "merge_live ((h, seen) # live) (by_host, names, synced) =
     merge_live live (put h (merged_domain h (map_of by_host h) (map_of synced h) seen) by_host,
       (if map_of by_host h = None then names @ [h] else names), put h (ds_count seen) synced)"
  by (auto simp: merged_domain_def query_delta_eq Let_def min_def max_def not_le not_less split: option.split
      intro!: arg_cong [where f = "merge_live live"] arg_cong [where f = "\<lambda>d. put h d by_host"])

declare merge_live.simps(2) [simp del]

lemma merge_live_spec:
  assumes "gomap_ok live" "set names = dom (map_of by_host)" "distinct names"
    and "merge_live live (by_host, names, synced) = (by_host', names', synced')"
  shows "map_of by_host' h = (case map_of live h of
       None \<Rightarrow> map_of by_host h
     | Some seen \<Rightarrow> Some (merged_domain h (map_of by_host h) (map_of synced h) seen))"
    and "map_of synced' h = (case map_of live h of
       None \<Rightarrow> map_of synced h | Some seen \<Rightarrow> Some (ds_count seen))"
    and "set names' = dom (map_of by_host')" "distinct names'"
    and "set names' = set names \<union> fst ` set live"
proof -
  have "map_of by_host' h = (case map_of live h of
       None \<Rightarrow> map_of by_host h
     | Some seen \<Rightarrow> Some (merged_domain h (map_of by_host h) (map_of synced h) seen)) \<and>
    map_of synced' h = (case map_of live h of
       None \<Rightarrow> map_of synced h | Some seen \<Rightarrow> Some (ds_count seen)) \<and>
    set names' = dom (map_of by_host') \<and> distinct names' \<and> set names' = set names \<union> fst ` set live"
    using assms
  proof (induction live arbitrary: by_host names synced)
    case Nil
    then show ?case by auto
  next
    case (Cons a live)
    obtain k seen where a: "a = (k, seen)" by (cases a)
    let ?by = "put k (merged_domain k (map_of by_host k) (map_of synced k) seen) by_host"
    let ?names = "if map_of by_host k = None then names @ [k] else names"
    let ?synced = "put k (ds_count seen) synced"
    from Cons.prems(1) have ok: "gomap_ok live" and k: "map_of live k = None"
      by (auto simp: gomap_ok_def a map_of_eq_None_iff)
    have n: "set ?names = dom (map_of ?by)" "distinct ?names"
      using Cons.prems(2,3) by (auto simp: dom_def)
    have s: "set ?names = insert k (set names)" using Cons.prems(2) by auto
    have "merge_live live (?by, ?names, ?synced) = (by_host', names', synced')"
      using Cons.prems(4) by (simp only: a merge_live_step)
    note ih = Cons.IH [OF ok n this]
    note rest = ih [THEN conjunct2, THEN conjunct2]
    have "map_of by_host' h = (case map_of (a # live) h of
        None \<Rightarrow> map_of by_host h
      | Some seen \<Rightarrow> Some (merged_domain h (map_of by_host h) (map_of synced h) seen))"
      using ih [THEN conjunct1] k by (cases "h = k"; cases "map_of live h"; simp_all add: a)
    moreover have "map_of synced' h = (case map_of (a # live) h of
        None \<Rightarrow> map_of synced h | Some seen \<Rightarrow> Some (ds_count seen))"
      using ih [THEN conjunct2, THEN conjunct1] k by (cases "h = k"; cases "map_of live h"; simp_all add: a)
    moreover have "set names' = set names \<union> fst ` set (a # live)"
      using rest [THEN conjunct2, THEN conjunct2] s by (simp add: a)
    ultimately show ?case using rest [THEN conjunct1] rest [THEN conjunct2, THEN conjunct1] by (intro conjI)
  qed
  note all = this
  show "map_of by_host' h = (case map_of live h of
       None \<Rightarrow> map_of by_host h
     | Some seen \<Rightarrow> Some (merged_domain h (map_of by_host h) (map_of synced h) seen))"
    by (rule all [THEN conjunct1])
  show "map_of synced' h = (case map_of live h of
       None \<Rightarrow> map_of synced h | Some seen \<Rightarrow> Some (ds_count seen))"
    by (rule all [THEN conjunct2, THEN conjunct1])
  note rest = all [THEN conjunct2, THEN conjunct2]
  show "set names' = dom (map_of by_host')" by (rule rest [THEN conjunct1])
  show "distinct names'" by (rule rest [THEN conjunct2, THEN conjunct1])
  show "set names' = set names \<union> fst ` set live" by (rule rest [THEN conjunct2, THEN conjunct2])
qed

definition find_domain :: "observed_domain list \<Rightarrow> string \<Rightarrow> observed_domain option" where
  "find_domain ds h = find (\<lambda>d. od_hostname d = h) ds"

lemma find_domain_None: "find_domain ds h = None \<longleftrightarrow> h \<notin> od_hostname ` set ds"
  by (auto simp: find_domain_def find_None_iff)

lemma fold_put_domains:
  "distinct (map od_hostname ds) \<Longrightarrow>
   map_of (fold (\<lambda>d. put (od_hostname d) d) ds m) h =
     (case find_domain ds h of None \<Rightarrow> map_of m h | Some d \<Rightarrow> Some d)"
proof (induction ds arbitrary: m)
  case (Cons d ds)
  have n: "h = od_hostname d \<Longrightarrow> find_domain ds h = None"
    using Cons.prems by (simp add: find_domain_None)
  have "find_domain (d # ds) h = (if od_hostname d = h then Some d else find_domain ds h)"
    by (simp add: find_domain_def)
  with Cons n show ?case by (auto split: option.split)
qed (simp add: find_domain_def)

lemma find_domain_Some: "find_domain ds h = Some d \<Longrightarrow> d \<in> set ds \<and> od_hostname d = h"
  by (auto simp: find_domain_def find_Some_iff)

lemma merged_hostname:
  "(\<And>d. known = Some d \<Longrightarrow> od_hostname d = h) \<Longrightarrow> od_hostname (merged_domain h known prev seen) = h"
  by (simp add: merged_domain_def split: option.split)

text \<open>The merged status of one hostname, and the controller's counts after it.\<close>

lemma merge_domains:
  assumes ex: "distinct (map od_hostname existing)" and live: "gomap_ok live" and ord: "range_order ord"
    and m: "mergeObservedDomains ord existing live synced = (ds, synced')"
  shows "sorted (map od_hostname ds)" "distinct (map od_hostname ds)"
    "od_hostname ` set ds = od_hostname ` set existing \<union> dom (map_of live)"
    "find_domain ds h = (case map_of live h of
       None \<Rightarrow> find_domain existing h
     | Some seen \<Rightarrow> Some (merged_domain h (find_domain existing h) (map_of synced h) seen))"
    "map_of synced' h = (case map_of live h of None \<Rightarrow> map_of synced h | Some seen \<Rightarrow> Some (ds_count seen))"
proof -
  let ?by = "fold (\<lambda>d. put (od_hostname d) d) existing []" and ?names = "map od_hostname existing"
  obtain by' names' sy where r: "merge_live (ord live) (?by, ?names, synced) = (by', names', sy)"
    by (cases "merge_live (ord live) (?by, ?names, synced)")
  have ok: "gomap_ok (ord live)" by (rule range_order_ok [OF ord live])
  have lk: "map_of (ord live) = map_of live"
    using ok live range_order_set [OF ord, of live] unfolding gomap_ok_def by (rule map_of_inject_set [THEN iffD2])
  have by0: "map_of ?by g = find_domain existing g" for g
    using fold_put_domains [OF ex, of "[]" g] by (simp split: option.split)
  have n: "set ?names = dom (map_of ?by)"
    using find_domain_None [of existing] by (force simp: by0 dom_def)
  note sp = merge_live_spec [OF ok n ex r]
  have dm: "set names' = od_hostname ` set existing \<union> dom (map_of live)"
    using sp(5) range_order_set [OF ord, of live] by (simp add: dom_map_of_conv_image_fst)
  have ds: "ds = map (\<lambda>h. the (map_of by' h)) (sort_strings names')" and sy: "synced' = sy"
    using m by (simp_all add: mergeObservedDomains_def r)
  have by': "map_of by' g = (case map_of live g of
       None \<Rightarrow> find_domain existing g
     | Some seen \<Rightarrow> Some (merged_domain g (find_domain existing g) (map_of synced g) seen))" for g
    using sp(1) [of g] by (cases "map_of live g") (simp_all add: lk by0)
  have nm: "od_hostname (the (map_of by' g)) = g" if g: "g \<in> set names'" for g
  proof (cases "map_of live g")
    case None
    with g dm have "find_domain existing g \<noteq> None" by (auto simp: find_domain_None)
    with None show ?thesis using find_domain_Some by (auto simp: by')
  next
    case (Some seen)
    then show ?thesis using find_domain_Some by (auto simp: by' intro!: merged_hostname)
  qed
  have mp: "map od_hostname ds = sort_strings names'" unfolding ds by (auto intro!: map_idI simp: nm)
  show srt: "sorted (map od_hostname ds)" by (simp add: mp)
  show dst: "distinct (map od_hostname ds)" using sp(4) by (simp add: mp sort_strings_def)
  have im: "od_hostname ` set ds = set names'" using arg_cong [OF mp, of set] by simp
  with dm show "od_hostname ` set ds = od_hostname ` set existing \<union> dom (map_of live)" by simp
  have "find_domain ds h = map_of by' h"
  proof (cases "h \<in> set names'")
    case True
    then obtain d where d: "map_of by' h = Some d" using sp(3) by blast
    with True have "d \<in> set ds" "od_hostname d = h" using nm [OF True] by (auto simp: ds image_iff intro!: bexI [of _ h])
    with d show ?thesis using find_keyed [OF dst] by (simp add: find_domain_def)
  next
    case False
    then have "map_of by' h = None" using sp(3) by blast
    with False im show ?thesis by (simp add: find_domain_None)
  qed
  then show "find_domain ds h = (case map_of live h of
       None \<Rightarrow> find_domain existing h
     | Some seen \<Rightarrow> Some (merged_domain h (find_domain existing h) (map_of synced h) seen))" by (simp add: by')
  show "map_of synced' h = (case map_of live h of None \<Rightarrow> map_of synced h | Some seen \<Rightarrow> Some (ds_count seen))"
    using sp(2) [of h] by (simp add: sy lk)
qed

section \<open>Runs of reconciles\<close>

text \<open>
  The stored status and the controller's counts through a run: each reconcile reads the object with the status
  that is stored then (its metadata and specification may have been edited), and what it writes is stored unless
  the API server refuses it.
\<close>

definition obs_step :: "obs_env \<Rightarrow> observation_status \<times> obs_controller \<Rightarrow> observation_status \<times> obs_controller" where
  "obs_step env s =
     (let seen = (case ov_object env of Found ob \<Rightarrow> Found (ob\<lparr>eo_status := fst s\<rparr>) | answer \<Rightarrow> answer);
          (res, written, c) = obs_Reconcile (env\<lparr>ov_object := seen\<rparr>) (snd s)
      in (if ov_status env = None \<and> written \<noteq> [] then eo_status (last written) else fst s, c))"

fun obs_run :: "obs_env list \<Rightarrow> observation_status \<times> obs_controller \<Rightarrow> observation_status \<times> obs_controller" where
  "obs_run [] s = s"
| "obs_run (env # envs) s = obs_run envs (obs_step env s)"

text \<open>What a reconcile sees of the store: nothing when the object cannot be read or there is no store.\<close>

fun snapshots :: "obs_env list \<Rightarrow> (string, domain_seen) gomap list" where
  "snapshots [] = []"
| "snapshots (env # envs) = (case (ov_object env, ov_store env) of
     (Found ob, Some store) \<Rightarrow> AllDomains store # snapshots envs | _ \<Rightarrow> snapshots envs)"

text \<open>Reconciles of one object whose status writes the API server accepts.\<close>

definition obs_run_ok :: "string \<Rightarrow> obs_env list \<Rightarrow> bool" where
  "obs_run_ok key envs \<longleftrightarrow>
     list_all (\<lambda>env. ov_key env = key \<and> ov_status env = None \<and> range_order (ov_ord env)) envs"

definition shown_count :: "observed_domain list \<Rightarrow> string \<Rightarrow> int" where
  "shown_count ds h = (case find_domain ds h of None \<Rightarrow> 0 | Some d \<Rightarrow> od_query_count d)"

definition synced_count :: "synced_counts \<Rightarrow> string \<Rightarrow> int" where
  "synced_count m h = (case map_of m h of None \<Rightarrow> 0 | Some c \<Rightarrow> c)"

definition live_count :: "(string, domain_seen) gomap \<Rightarrow> string \<Rightarrow> int option" where
  "live_count live h = map_option ds_count (map_of live h)"

text \<open>The counts of a store that only grows, from the counts \<open>c\<close> on, and its last count of a hostname.\<close>

fun grows_from :: "(string \<Rightarrow> int) \<Rightarrow> (string, domain_seen) gomap list \<Rightarrow> bool" where
  "grows_from c [] \<longleftrightarrow> True"
| "grows_from c (live # snaps) \<longleftrightarrow> gomap_ok live \<and>
     list_all (\<lambda>(h, seen). c h \<le> ds_count seen) live \<and>
     grows_from (\<lambda>h. case live_count live h of None \<Rightarrow> c h | Some n \<Rightarrow> n) snaps"

fun last_count :: "(string \<Rightarrow> int) \<Rightarrow> (string, domain_seen) gomap list \<Rightarrow> string \<Rightarrow> int" where
  "last_count c [] h = c h"
| "last_count c (live # snaps) h = last_count (\<lambda>h. case live_count live h of None \<Rightarrow> c h | Some n \<Rightarrow> n) snaps h"

lemma merge_counts:
  assumes "distinct (map od_hostname ds)" "gomap_ok live" "range_order ord"
    and "mergeObservedDomains ord ds live synced = (ds', synced')"
    and "list_all (\<lambda>(h, seen). synced_count synced h \<le> ds_count seen) live"
    and "shown_count ds h = synced_count synced h"
  shows "shown_count ds' h = (case live_count live h of None \<Rightarrow> synced_count synced h | Some n \<Rightarrow> n)"
    and "synced_count synced' h = (case live_count live h of None \<Rightarrow> synced_count synced h | Some n \<Rightarrow> n)"
proof -
  note m = merge_domains(4,5) [OF assms(1-4), of h]
  show "synced_count synced' h = (case live_count live h of None \<Rightarrow> synced_count synced h | Some n \<Rightarrow> n)"
    using m(2) by (cases "map_of live h") (simp_all add: synced_count_def live_count_def)
  show "shown_count ds' h = (case live_count live h of None \<Rightarrow> synced_count synced h | Some n \<Rightarrow> n)"
  proof (cases "map_of live h")
    case None
    with m(1) assms(6) show ?thesis by (simp add: shown_count_def live_count_def)
  next
    case (Some seen)
    then have "(h, seen) \<in> set live" by (rule map_of_SomeD)
    with assms(5) have "synced_count synced h \<le> ds_count seen" by (auto simp: list_all_iff)
    then have "new_queries (map_of synced h) (ds_count seen) = ds_count seen - synced_count synced h"
      by (simp add: new_queries_def synced_count_def split: option.splits)
    with Some m(1) assms(6) show ?thesis
      by (cases "find_domain ds h") (simp_all add: shown_count_def live_count_def merged_domain_def)
  qed
qed

text \<open>One reconcile of such a run: the store's domains are merged and the counts kept for this object.\<close>

lemma observation_update_domains:
  "ost_domains (eo_status (observation_update clk ds ob)) = ds"
  "ost_domains (eo_status (observation_inactive clk ob)) = ost_domains (eo_status ob)"
  by (simp_all add: observation_update_def with_observed_def observation_inactive_def setObservationCondition_def Let_def)

definition controller_counts :: "obs_controller \<Rightarrow> string \<Rightarrow> synced_counts" where
  "controller_counts c key = (case map_of c key of None \<Rightarrow> [] | Some m \<Rightarrow> m)"

lemma obs_step_idle:
  assumes "ov_status env = None" "\<And>ob store. ov_object env = Found ob \<Longrightarrow> ov_store env = Some store \<Longrightarrow> False"
  shows "ost_domains (fst (obs_step env s)) = ost_domains (fst s)" "snd (obs_step env s) = snd s"
proof -
  have "ost_domains (fst (obs_step env s)) = ost_domains (fst s) \<and> snd (obs_step env s) = snd s"
  proof (cases "ov_object env")
    case (Found ob)
    have "ov_store env = None" using assms(2) [OF Found] by (cases "ov_store env") blast+
    then show ?thesis by (simp add: obs_step_def obs_Reconcile_def Found observation_update_domains)
  qed (simp_all add: obs_step_def obs_Reconcile_def)
  then show "ost_domains (fst (obs_step env s)) = ost_domains (fst s)" "snd (obs_step env s) = snd s" by simp_all
qed

lemma obs_step_merge:
  assumes "ov_status env = None" "ov_object env = Found ob" "ov_store env = Some store"
    and "mergeObservedDomains (ov_ord env) (ost_domains (fst s)) (AllDomains store)
      (controller_counts (snd s) (ov_key env)) = (ds, synced')"
  shows "ost_domains (fst (obs_step env s)) = ds" "controller_counts (snd (obs_step env s)) (ov_key env) = synced'"
  using assms by (simp_all add: obs_step_def obs_Reconcile_def controller_counts_def observation_update_domains)

lemma obs_run_counts:
  "obs_run_ok key envs \<Longrightarrow> distinct (map od_hostname (ost_domains (fst s))) \<Longrightarrow>
   (\<And>h. shown_count (ost_domains (fst s)) h = c h) \<Longrightarrow> (\<And>h. synced_count (controller_counts (snd s) key) h = c h) \<Longrightarrow>
   grows_from c (snapshots envs) \<Longrightarrow>
   shown_count (ost_domains (fst (obs_run envs s))) h = last_count c (snapshots envs) h"
proof (induction envs arbitrary: s c)
  case (Cons env envs)
  have ok: "obs_run_ok key envs" and e: "ov_key env = key" "ov_status env = None" "range_order (ov_ord env)"
    using Cons.prems(1) by (simp_all add: obs_run_ok_def)
  show ?case
  proof (cases "\<exists>ob store. ov_object env = Found ob \<and> ov_store env = Some store")
    case True
    then obtain ob store where f: "ov_object env = Found ob" "ov_store env = Some store" by blast
    let ?live = "AllDomains store" and ?synced = "controller_counts (snd s) key"
    obtain ds synced' where m: "mergeObservedDomains (ov_ord env) (ost_domains (fst s)) ?live ?synced = (ds, synced')"
      by (cases "mergeObservedDomains (ov_ord env) (ost_domains (fst s)) ?live ?synced")
    let ?c = "\<lambda>h. case live_count ?live h of None \<Rightarrow> c h | Some n \<Rightarrow> n"
    have l: "gomap_ok ?live" "list_all (\<lambda>(h, seen). synced_count ?synced h \<le> ds_count seen) ?live"
      and g: "grows_from ?c (snapshots envs)" using Cons.prems(4,5) f by simp_all
    note st = obs_step_merge [OF e(2) f m [folded e(1)], unfolded e(1)]
    note mc = merge_counts [OF Cons.prems(2) l(1) e(3) m l(2)]
    have d: "distinct (map od_hostname ds)" by (rule merge_domains(2) [OF Cons.prems(2) l(1) e(3) m])
    have "shown_count ds h = ?c h" "synced_count synced' h = ?c h" for h
      using mc [of h] Cons.prems(3,4) by (cases "live_count ?live h"; simp)+
    then show ?thesis using Cons.IH [OF ok _ _ _ g, of "obs_step env s"] d by (simp add: st f)
  next
    case False
    then have n: "ov_object env = Found ob \<Longrightarrow> ov_store env = Some store \<Longrightarrow> False" for ob store by blast
    have "snapshots (env # envs) = snapshots envs"
      using n by (auto split: api_get.split option.split)
    then show ?thesis
      using Cons.IH [OF ok, of "obs_step env s" c] Cons.prems(2-5) by (simp add: obs_step_idle [OF e(2) n])
  qed
qed simp

section \<open>Properties\<close>

text \<open>C13. Merging, exactly. Whatever the order in which the observed map is ranged over, the merged list is
  sorted by hostname, has one entry for each hostname that was in the status or is in the store, keeps
  the entry of a hostname that is only in the status, and for one in the store takes the earlier
  first-seen and the later last-seen time and adds the queries made since the last merge; the
  controller's counts become the store's.\<close>

theorem merge_observed_exact:
  assumes "distinct (map od_hostname existing)" and "gomap_ok live" and "range_order ord"
    and "mergeObservedDomains ord existing live synced = (ds, synced')"
  shows "sorted (map od_hostname ds) \<and> distinct (map od_hostname ds) \<and>
    od_hostname ` set ds = od_hostname ` set existing \<union> dom (map_of live) \<and>
    find_domain ds h = (case map_of live h of
       None \<Rightarrow> find_domain existing h
     | Some seen \<Rightarrow> Some (merged_domain h (find_domain existing h) (map_of synced h) seen)) \<and>
    map_of synced' h = (case map_of live h of None \<Rightarrow> map_of synced h | Some seen \<Rightarrow> Some (ds_count seen))"
  by (intro conjI merge_domains [OF assms])

definition seen_once :: "int \<Rightarrow> domain_seen" where
  "seen_once n = \<lparr>ds_first = 10, ds_last = 20, ds_count = n\<rparr>"

lemma merge_observed_exact_witness:
  "\<exists>ds synced. mergeObservedDomains rev [] [(''b.io'', seen_once 2), (''a.io'', seen_once 1)] [] = (ds, synced) \<and>
    sorted (map od_hostname ds) \<and> map_of synced ''b.io'' = Some 2"
proof -
  obtain ds synced where m: "mergeObservedDomains rev [] [(''b.io'', seen_once 2), (''a.io'', seen_once 1)] [] = (ds, synced)"
    by (cases "mergeObservedDomains rev [] [(''b.io'', seen_once 2), (''a.io'', seen_once 1)] []")
  have g: "gomap_ok [(''b.io'', seen_once 2), (''a.io'', seen_once 1)]" by (simp add: gomap_ok_def)
  from merge_observed_exact [OF _ g range_order_rev m, of "''b.io''"] m show ?thesis by (simp add: seen_once_def)
qed

text \<open>C14. No query is counted twice or missed while the store only grows. From a status without domains and a
  controller that has not seen the object, let any number of reconciles follow: with edits of the object, reads
  that fail, without or with the store, whose counts never decrease, and ranging over its map in any order. As long as
  the API server accepts the status writes, the query count the stored status shows for a hostname is the count of
  the last look at the store that had it.\<close>

theorem obs_counts_once:
  assumes "obs_run_ok key envs" and "grows_from (\<lambda>h. 0) (snapshots envs)"
    and "ost_domains status = []" and "map_of c key = None"
  shows "shown_count (ost_domains (fst (obs_run envs (status, c)))) h = last_count (\<lambda>h. 0) (snapshots envs) h"
proof (rule obs_run_counts)
  have "controller_counts c key = []" unfolding controller_counts_def assms(4) by simp
  then show "synced_count (controller_counts (snd (status, c)) key) g = 0" for g by (simp add: synced_count_def)
qed (use assms in \<open>simp_all add: shown_count_def find_domain_def\<close>)

definition sample_observation :: egress_observation where
  "sample_observation = \<lparr>eo_meta = sample_meta, eo_spec = \<lparr>os_pod_selector = sample_selector, os_window = 60 * second\<rparr>,
     eo_status = \<lparr>ost_domains = [], ost_complete = False, ost_conditions = [], ost_observed_generation = 0\<rparr>\<rparr>"

definition sample_obs_env :: "int \<Rightarrow> string option \<Rightarrow> obs_env" where
  "sample_obs_env n st = \<lparr>ov_clk = int, ov_object = Found sample_observation, ov_key = ''prod/web'',
     ov_store = Some \<lparr>obs_domains = [(''a.io'', seen_once n)], obs_last_prune = 0\<rparr>, ov_ord = id, ov_status = st\<rparr>"

lemma obs_counts_once_witness:
  "shown_count (ost_domains (fst (obs_run [sample_obs_env 2 None, sample_obs_env 7 None]
     (eo_status sample_observation, [])))) ''a.io'' = 7"
proof -
  let ?envs = "[sample_obs_env 2 None, sample_obs_env 7 None]"
  have s: "snapshots ?envs = [[(''a.io'', seen_once 2)], [(''a.io'', seen_once 7)]]"
    by (simp add: sample_obs_env_def AllDomains_eq)
  have ok: "obs_run_ok ''prod/web'' ?envs" by (simp add: obs_run_ok_def sample_obs_env_def range_order_id)
  have g: "grows_from (\<lambda>h. 0) (snapshots ?envs)"
    unfolding s by (simp add: gomap_ok_def live_count_def seen_once_def)
  have d: "ost_domains (eo_status sample_observation) = []" by (simp add: sample_observation_def)
  have "map_of [] ''prod/web'' = None" by simp
  from obs_counts_once [OF ok g d this, of "''a.io''"] show ?thesis
    unfolding s by (simp add: live_count_def seen_once_def)
qed

text \<open>C32. A failed status write loses the queries merged in it. The controller's counts advance before
  the status is written, so when the write fails and the reconcile is retried on the unchanged object with
  nothing new in the store, the count written for a hostname the status already knows is the old one: the
  queries made between the last successful write and the failed one are never counted.\<close>

theorem obs_failed_write_drops_counts:
  assumes "ov_object env = Found ob" and "ov_store env = Some store" and "ov_status env = Some e"
    and "distinct (map od_hostname (ost_domains (eo_status ob)))" and "gomap_ok (AllDomains store)"
    and "range_order (ov_ord env)" and "0 \<le> ds_count seen" and "map_of (AllDomains store) h = Some seen"
    and "obs_Reconcile env c = (res, w, c')" and "obs_Reconcile (env\<lparr>ov_status := None\<rparr>) c' = (res', w', c'')"
  shows "res = Inl e \<and> res' = Inr reconcilePollInterval \<and>
    (\<exists>ob'. w' = [ob'] \<and>
      shown_count (ost_domains (eo_status ob')) h = shown_count (ost_domains (eo_status ob)) h)"
proof -
  let ?ex = "ost_domains (eo_status ob)"
  let ?synced = "case map_of c (ov_key env) of None \<Rightarrow> [] | Some m \<Rightarrow> m"
  obtain ds synced' where m: "mergeObservedDomains (ov_ord env) ?ex (AllDomains store) ?synced = (ds, synced')"
    by (cases "mergeObservedDomains (ov_ord env) ?ex (AllDomains store) ?synced")
  obtain ds' synced'' where m': "mergeObservedDomains (ov_ord env) ?ex (AllDomains store) synced' = (ds', synced'')"
    by (cases "mergeObservedDomains (ov_ord env) ?ex (AllDomains store) synced'")
  have c': "res = Inl e" "c' = put (ov_key env) synced' c"
    using assms(1-3,9) by (auto simp: obs_Reconcile_def m)
  have w': "res' = Inr reconcilePollInterval" "w' = [observation_update (ov_clk env) ds' ob]"
    using assms(1,2,10) by (auto simp: obs_Reconcile_def m' c'(2))
  have "map_of synced' h = Some (ds_count seen)"
    using merge_domains(5) [OF assms(4-6) m, of h] assms(8) by simp
  then have "find_domain ds' h = Some (merged_domain h (find_domain ?ex h) (Some (ds_count seen)) seen)"
    using merge_domains(4) [OF assms(4-6) m', of h] assms(8) by simp
  then have "shown_count ds' h = shown_count ?ex h"
    by (cases "find_domain ?ex h") (simp_all add: shown_count_def merged_domain_def new_queries_def)
  then show ?thesis
    using c'(1) w' by (simp add: observation_update_def with_observed_def setObservationCondition_def)
qed

lemma obs_failed_write_drops_counts_witness:
  "\<exists>res w c' ob' c''. obs_Reconcile (sample_obs_env 5 (Some ''conflict'')) [] = (res, w, c') \<and>
    obs_Reconcile (sample_obs_env 5 None) c' = (Inr reconcilePollInterval, [ob'], c'') \<and>
    shown_count (ost_domains (eo_status ob')) ''a.io'' = 0"
proof -
  let ?env = "sample_obs_env 5 (Some ''conflict'')"
  let ?store = "\<lparr>obs_domains = [(''a.io'', seen_once 5)], obs_last_prune = 0\<rparr>"
  have env: "ov_object ?env = Found sample_observation" "ov_store ?env = Some ?store"
    "ov_status ?env = Some ''conflict''" "range_order (ov_ord ?env)" "?env\<lparr>ov_status := None\<rparr> = sample_obs_env 5 None"
    by (simp_all add: sample_obs_env_def)
  obtain res w c' where r: "obs_Reconcile ?env [] = (res, w, c')" by (metis prod_cases3)
  obtain res' w' c'' where r': "obs_Reconcile (sample_obs_env 5 None) c' = (res', w', c'')" by (metis prod_cases3)
  have d: "map_of (AllDomains ?store) ''a.io'' = Some (seen_once 5)" "gomap_ok (AllDomains ?store)"
    by (simp_all add: AllDomains_eq gomap_ok_def)
  have "res' = Inr reconcilePollInterval \<and> (\<exists>ob'. w' = [ob'] \<and>
      shown_count (ost_domains (eo_status ob')) ''a.io'' = shown_count [] ''a.io'')"
    using obs_failed_write_drops_counts [OF env(1-3) _ d(2) env(4) _ d(1) r, of res' w' c''] r'
    by (simp add: env(5) sample_observation_def seen_once_def)
  with r r' show ?thesis by (auto simp: shown_count_def find_domain_def)
qed

end
