(* ===== verification/IpCache.thy ===== *)
theory IpCache
  imports GoLib
begin

text \<open>
  internal/dns/ip\_cache.go: the store of addresses seen in live DNS answers, shared between the proxy
  and the reconcile loop. Every method runs under the lock, so a method is one step on the state. The
  clock is a function from the number of readings made so far to the reading (\<open>clk\<close>); the order in
  which the merged map is ranged over is the argument \<open>ord\<close>.
\<close>

section \<open>State and operations\<close>

record observed_ip =
  oi_ip :: string
  oi_expires :: gotime

type_synonym ip_cache = "(string, observed_ip list) gomap"

definition NewIPCache :: ip_cache where
  "NewIPCache = []"

definition cache_entries :: "ip_cache \<Rightarrow> string \<Rightarrow> observed_ip list" where
  "cache_entries c h = (case map_of c h of None \<Rightarrow> [] | Some es \<Rightarrow> es)"

text \<open>The loop over the entries kept so far, one clock reading for each.\<close>

fun keep_live ::
  "(nat \<Rightarrow> gotime) \<Rightarrow> nat \<Rightarrow> observed_ip list \<Rightarrow> (string, observed_ip) gomap \<Rightarrow> (string, observed_ip) gomap" where
  "keep_live clk t [] m = m"
| "keep_live clk t (e # es) m =
     keep_live clk (Suc t) es (if clk t < oi_expires e then put (oi_ip e) e m else m)"

fun put_ips :: "gotime \<Rightarrow> string list \<Rightarrow> (string, observed_ip) gomap \<Rightarrow> (string, observed_ip) gomap" where
  "put_ips expires [] m = m"
| "put_ips expires (ip # ips) m = put_ips expires ips (put ip \<lparr>oi_ip = ip, oi_expires = expires\<rparr> m)"

definition record_ttl :: "duration \<Rightarrow> duration" where
  "record_ttl ttl = (if ttl \<le> 0 then 60 * second else ttl)"

definition cache_Record ::
  "((string \<times> observed_ip) list \<Rightarrow> (string \<times> observed_ip) list) \<Rightarrow> (nat \<Rightarrow> gotime) \<Rightarrow> nat \<Rightarrow>
   string \<Rightarrow> string list \<Rightarrow> duration \<Rightarrow> ip_cache \<Rightarrow> ip_cache" where
  "cache_Record ord clk t hostname ips ttl c =
     (let expires = clk t + record_ttl ttl;
          merged = put_ips expires ips (keep_live clk (Suc t) (cache_entries c hostname) [])
      in put hostname (map snd (ord merged)) c)"

definition cache_Get :: "gotime \<Rightarrow> string \<Rightarrow> ip_cache \<Rightarrow> string list" where
  "cache_Get now hostname c =
     map oi_ip (filter (\<lambda>e. now < oi_expires e) (cache_entries c hostname))"

fun cache_Len :: "gotime \<Rightarrow> ip_cache \<Rightarrow> nat" where
  "cache_Len now [] = 0"
| "cache_Len now ((h, es) # c) =
     (if \<exists>e \<in> set es. now < oi_expires e then 1 else 0) + cache_Len now c"

section \<open>The expiry times the cache holds\<close>

definition cache_ok :: "ip_cache \<Rightarrow> bool" where
  "cache_ok c \<longleftrightarrow> gomap_ok c \<and> (\<forall>h. distinct (map oi_ip (cache_entries c h)))"

definition expiry :: "ip_cache \<Rightarrow> string \<Rightarrow> string \<Rightarrow> gotime option" where
  "expiry c h ip = map_option oi_expires (find (\<lambda>e. oi_ip e = ip) (cache_entries c h))"

text \<open>Every key of the merged map is the address of its entry.\<close>

definition keyed :: "(string, observed_ip) gomap \<Rightarrow> bool" where
  "keyed m \<longleftrightarrow> gomap_ok m \<and> (\<forall>k e. map_of m k = Some e \<longrightarrow> oi_ip e = k)"

definition live_in :: "gotime \<Rightarrow> (string, observed_ip) gomap \<Rightarrow> string \<Rightarrow> bool" where
  "live_in now m ip \<longleftrightarrow> (\<exists>e. map_of m ip = Some e \<and> now < oi_expires e)"

lemma keyed_put: "keyed m \<Longrightarrow> oi_ip e = k \<Longrightarrow> keyed (put k e m)"
  by (simp add: keyed_def)

lemma keyed_keep_live: "keyed m \<Longrightarrow> keyed (keep_live clk t es m)"
  by (induction es arbitrary: t m) (simp_all add: keyed_put)

lemma keyed_put_ips: "keyed m \<Longrightarrow> keyed (put_ips expires ips m)"
  by (induction ips arbitrary: m) (simp_all add: keyed_put)

lemma put_ips_lookup:
  "map_of (put_ips expires ips m) ip =
     (if ip \<in> set ips then Some \<lparr>oi_ip = ip, oi_expires = expires\<rparr> else map_of m ip)"
  by (induction ips arbitrary: m) auto

lemma keep_live_live:
  "(\<And>i. i < length es \<Longrightarrow> clk (t + i) \<le> now) \<Longrightarrow> distinct (map oi_ip es) \<Longrightarrow>
   (\<And>e. e \<in> set es \<Longrightarrow> map_of m (oi_ip e) = None) \<Longrightarrow>
   live_in now (keep_live clk t es m) ip \<longleftrightarrow>
     live_in now m ip \<or> (\<exists>e \<in> set es. oi_ip e = ip \<and> now < oi_expires e)"
proof (induction es arbitrary: t m)
  case (Cons e es)
  define m' where "m' = (if clk t < oi_expires e then put (oi_ip e) e m else m)"
  have c: "clk t \<le> now" "\<And>i. i < length es \<Longrightarrow> clk (Suc t + i) \<le> now"
    using Cons.prems(1) [of 0] Cons.prems(1) [of "Suc i" for i] by auto
  have "live_in now (keep_live clk (Suc t) es m') ip \<longleftrightarrow>
      live_in now m' ip \<or> (\<exists>e \<in> set es. oi_ip e = ip \<and> now < oi_expires e)"
    using Cons.prems c(2) by (intro Cons.IH) (auto simp: m'_def image_iff)
  moreover have "live_in now m' ip \<longleftrightarrow> live_in now m ip \<or> (oi_ip e = ip \<and> now < oi_expires e)"
    using Cons.prems(3) [of e] c(1) by (auto simp: m'_def live_in_def)
  ultimately show ?case by (auto simp: m'_def)
qed simp

lemma keyed_slice:
  assumes "keyed m" "range_order ord"
  shows "distinct (map oi_ip (map snd (ord m)))"
    and "(\<exists>e \<in> set (map snd (ord m)). oi_ip e = ip \<and> now < oi_expires e) \<longleftrightarrow> live_in now m ip"
proof -
  have k: "oi_ip e = k" if "(k, e) \<in> set m" for k e
    using that assms(1) by (auto simp: keyed_def gomap_lookup)
  have set: "set (ord m) = set m" using assms(2) by (rule range_order_set)
  have "map oi_ip (map snd (ord m)) = map fst (ord m)"
    using k set by (auto simp: map_eq_conv)
  moreover have "distinct (map fst (ord m))"
    using range_order_ok [OF assms(2)] assms(1) by (auto simp: keyed_def gomap_ok_def)
  ultimately show "distinct (map oi_ip (map snd (ord m)))" by (simp only:)
  show "(\<exists>e \<in> set (map snd (ord m)). oi_ip e = ip \<and> now < oi_expires e) \<longleftrightarrow> live_in now m ip"
  proof
    assume "\<exists>e \<in> set (map snd (ord m)). oi_ip e = ip \<and> now < oi_expires e"
    then obtain k e where e: "(k, e) \<in> set m" "oi_ip e = ip" "now < oi_expires e" by (auto simp: set)
    with k have "(ip, e) \<in> set m" by blast
    with assms(1) e(3) show "live_in now m ip" by (auto simp: live_in_def keyed_def gomap_lookup)
  next
    assume "live_in now m ip"
    then obtain e where e: "map_of m ip = Some e" "now < oi_expires e" by (auto simp: live_in_def)
    then have "(ip, e) \<in> set (ord m)" by (simp add: set map_of_SomeD)
    moreover have "oi_ip e = ip" using assms(1) e(1) by (simp add: keyed_def)
    ultimately show "\<exists>e \<in> set (map snd (ord m)). oi_ip e = ip \<and> now < oi_expires e"
      using e(2) by force
  qed
qed

lemma cache_entries_put:
  "cache_entries (put h es c) h' = (if h' = h then es else cache_entries c h')"
  by (simp add: cache_entries_def)

lemma set_cache_Get:
  "set (cache_Get now h c) = {ip. \<exists>e \<in> set (cache_entries c h). oi_ip e = ip \<and> now < oi_expires e}"
  by (auto simp: cache_Get_def)

lemma cache_ok_new: "cache_ok NewIPCache"
  by (simp add: cache_ok_def NewIPCache_def cache_entries_def)

lemma distinct_cache_Get: "cache_ok c \<Longrightarrow> distinct (cache_Get now h c)"
  by (simp add: cache_ok_def cache_Get_def distinct_map_filter)

lemma cache_Record_ok:
  assumes "cache_ok c" "range_order ord"
  shows "cache_ok (cache_Record ord clk t h ips ttl c)"
proof -
  have "keyed (put_ips e ips (keep_live clk s (cache_entries c h) []))" for e s
    by (rule keyed_put_ips [OF keyed_keep_live]) (simp add: keyed_def)
  with assms keyed_slice(1) [OF _ assms(2)] show ?thesis
    by (auto simp: cache_ok_def cache_Record_def Let_def cache_entries_put)
qed

lemma cache_Record_live:
  assumes ok: "cache_ok c" and ord: "range_order ord"
    and clk: "\<And>i. i \<le> t + length (cache_entries c h) \<Longrightarrow> clk i \<le> now"
  shows "set (cache_Get now h' (cache_Record ord clk t h ips ttl c)) =
    (if h' = h then {ip \<in> set ips. now < clk t + record_ttl ttl} \<union> (set (cache_Get now h c) - set ips)
     else set (cache_Get now h' c))"
proof -
  define m where "m = keep_live clk (Suc t) (cache_entries c h) []"
  define m' where "m' = put_ips (clk t + record_ttl ttl) ips m"
  have k: "keyed m'" by (simp add: m'_def m_def keyed_put_ips keyed_keep_live keyed_def [of "[]"])
  have "live_in now m ip \<longleftrightarrow> (\<exists>e \<in> set (cache_entries c h). oi_ip e = ip \<and> now < oi_expires e)" for ip
    using ok clk unfolding m_def cache_ok_def
    by (subst keep_live_live) (auto simp: live_in_def)
  then have m: "live_in now m ip \<longleftrightarrow> ip \<in> set (cache_Get now h c)" for ip
    by (simp add: set_cache_Get)
  have m': "live_in now m' ip \<longleftrightarrow>
      (if ip \<in> set ips then now < clk t + record_ttl ttl else ip \<in> set (cache_Get now h c))" for ip
    using m [of ip] by (simp add: live_in_def m'_def put_ips_lookup)
  show ?thesis
    using keyed_slice(2) [OF k ord] m'
    by (auto simp: set_cache_Get cache_Record_def Let_def cache_entries_put m_def [symmetric]
        m'_def [symmetric])
qed

lemma cache_Len_card:
  "gomap_ok c \<Longrightarrow> cache_Len now c = card {h. cache_Get now h c \<noteq> []}"
proof (induction c)
  case Nil
  then show ?case by (simp add: cache_Get_def cache_entries_def)
next
  case (Cons a c)
  obtain h es where a: "a = (h, es)" by (cases a)
  have ok: "gomap_ok c" and h: "map_of c h = None"
    using Cons.prems by (auto simp: gomap_ok_def a map_of_eq_None_iff)
  let ?S = "{g. cache_Get now g c \<noteq> []}"
  have "?S \<subseteq> dom (map_of c)" by (auto simp: cache_Get_def cache_entries_def split: option.splits)
  then have fin: "finite ?S" by (rule finite_subset) (simp add: finite_dom_map_of)
  have nh: "h \<notin> ?S" using h by (simp add: cache_Get_def cache_entries_def)
  have "{g. cache_Get now g (a # c) \<noteq> []} =
      (if \<exists>e \<in> set es. now < oi_expires e then insert h ?S else ?S)"
    using nh by (auto simp: a cache_Get_def cache_entries_def filter_empty_conv)
  with Cons.IH [OF ok] fin nh show ?case by (simp add: a)
qed

section \<open>Properties\<close>

text \<open>C20. Recording merges. After Record, and at any later time, the live addresses of the hostname
  are the new ones until their TTL (60 s when none is given) has passed, and those known before that
  are still alive, each once; no other hostname changes.\<close>

theorem cache_record_then_get:
  assumes "cache_ok c" and "range_order ord"
    and "\<forall>i \<le> t + length (cache_entries c h). clk i \<le> now"
  shows "cache_ok (cache_Record ord clk t h ips ttl c) \<and>
    distinct (cache_Get now h' (cache_Record ord clk t h ips ttl c)) \<and>
    set (cache_Get now h' (cache_Record ord clk t h ips ttl c)) =
      (if h' = h then {ip \<in> set ips. now < clk t + record_ttl ttl} \<union> (set (cache_Get now h c) - set ips)
       else set (cache_Get now h' c))"
  using cache_Record_ok [OF assms(1,2)] distinct_cache_Get cache_Record_live [OF assms(1,2)] assms(3)
  by blast

lemma cache_record_then_get_witness:
  "set (cache_Get 20 ''a.io'' (cache_Record rev (\<lambda>i. int i) 0 ''a.io'' [''1.2.3.4'', ''1.2.3.5''] 30 NewIPCache))
     = {''1.2.3.4'', ''1.2.3.5''}"
proof -
  have "cache_entries NewIPCache ''a.io'' = []" "cache_Get 20 ''a.io'' NewIPCache = []"
    by (simp_all add: NewIPCache_def cache_entries_def cache_Get_def)
  then show ?thesis
    using cache_record_then_get [OF cache_ok_new range_order_rev, of 0 "''a.io''" "\<lambda>i. int i" 20
      "[''1.2.3.4'', ''1.2.3.5'']" 30 "''a.io''"]
    by (auto simp: record_ttl_def)
qed

end
