(* ===== verification/MultiResolver.thy ===== *)
theory MultiResolver
  imports Resolver IpCache
begin

text \<open>
  internal/dns/multi\_resolver.go: the resolver that asks several upstream servers for A and AAAA records
  concurrently, unions the answers, measures their divergence and caches the union. What a call cannot
  choose is in its environment (\<open>multi_env\<close>): the network during the queries and during the fallback, the
  order in which the results arrive, the order of every range over a map, and the clock.
\<close>

section \<open>State and environment\<close>

definition wellKnownUpstreams :: "string list" where
  "wellKnownUpstreams = [''1.1.1.1:53'', ''8.8.8.8:53'', ''9.9.9.9:53'', ''208.67.222.222:53'']"

definition uniqueStrings :: "string list \<Rightarrow> string list" where
  "uniqueStrings xs = unique_from [] xs"

record multi_resolver =
  mr_upstreams :: "string list"
  mr_cache :: ip_cache
  mr_fallback :: string

definition NewMultiResolver :: "string \<Rightarrow> string list \<Rightarrow> multi_resolver" where
  "NewMultiResolver system extra =
     \<lparr>mr_upstreams = uniqueStrings (wellKnownUpstreams @ [system] @ (if extra \<noteq> [] then extra else [])),
      mr_cache = NewIPCache, mr_fallback = system\<rparr>"

record upstream_answer =
  ua_ips :: "string list"
  ua_chain :: "string list"
  ua_ttl :: duration
  ua_ad :: bool
  ua_upstream :: string

record multi_env =
  me_net :: dns_net
  me_fallback_net :: dns_net
  me_aaaa_first :: bool
  me_arrival :: "upstream_answer list \<Rightarrow> upstream_answer list"
  me_ord_ips :: "string list \<Rightarrow> string list"
  me_ord_ups :: "(string \<times> string list) list \<Rightarrow> (string \<times> string list) list"
  me_ord_list :: "string \<Rightarrow> string list \<Rightarrow> string list"
  me_ord_cache :: "(string \<times> observed_ip) list \<Rightarrow> (string \<times> observed_ip) list"
  me_now :: gotime
  me_clk :: "nat \<Rightarrow> gotime"
  me_tick :: nat

section \<open>One upstream\<close>

definition queryUpstream ::
  "dns_net \<Rightarrow> string \<Rightarrow> string \<Rightarrow> int \<Rightarrow> string + string list \<times> string list \<times> duration \<times> bool" where
  "queryUpstream net hostname upstream qtype =
     (case dn_exchange net upstream (dn_fqdn net hostname) qtype of
        Inl e \<Rightarrow> Inl e
      | Inr resp \<Rightarrow>
          if dm_rcode resp = RcodeNameError then Inr ([], [], ttlCeiling, False)
          else if dm_rcode resp \<noteq> RcodeSuccess then Inr ([], [], 0, False)
          else (let (ips, chain, m) = scan_answer (dm_answer resp) ([], [], ceiling_seconds) in
                Inr (ips, chain, uint m * second, dm_ad resp)))"

text \<open>The goroutines of one call: a result is sent only when the query brought addresses.\<close>

definition upstream_answer_of :: "dns_net \<Rightarrow> string \<Rightarrow> string \<Rightarrow> int \<Rightarrow> upstream_answer list" where
  "upstream_answer_of net hostname u qt = (case queryUpstream net hostname u qt of
       Inl e \<Rightarrow> []
     | Inr (ips, chain, ttl, ad) \<Rightarrow>
         if ips = [] then []
         else [\<lparr>ua_ips = ips, ua_chain = chain, ua_ttl = ttl, ua_ad = ad, ua_upstream = u\<rparr>])"

definition upstream_answers :: "dns_net \<Rightarrow> string \<Rightarrow> string list \<Rightarrow> upstream_answer list" where
  "upstream_answers net hostname upstreams =
     concat (map (\<lambda>u. concat (map (upstream_answer_of net hostname u) [TypeA, TypeAAAA])) upstreams)"

section \<open>The union\<close>

text \<open>A map[string]struct\{\} is the list of its keys in the order they were added.\<close>

definition add_key :: "string \<Rightarrow> string list \<Rightarrow> string list" where
  "add_key k ks = (if k \<in> set ks then ks else ks @ [k])"

fun add_ips ::
  "string \<Rightarrow> string list \<Rightarrow> string list \<times> (string, string list) gomap \<Rightarrow>
   string list \<times> (string, string list) gomap" where
  "add_ips u [] acc = acc"
| "add_ips u (ip # ips) (s, ups) =
     add_ips u ips (add_key ip s,
       put u (add_key ip (case map_of ups u of None \<Rightarrow> [] | Some l \<Rightarrow> l)) ups)"

fun multi_loop ::
  "upstream_answer list \<Rightarrow> string list \<times> (string, string list) gomap \<times> bool \<times> string list \<times> duration \<Rightarrow>
   string list \<times> (string, string list) gomap \<times> bool \<times> string list \<times> duration" where
  "multi_loop [] acc = acc"
| "multi_loop (a # as) (s, ups, ad, chain, m) =
     (let (s', ups') = add_ips (ua_upstream a) (ua_ips a) (s, ups) in
      multi_loop as (s', ups', ua_ad a \<or> ad, if chain = [] then ua_chain a else chain,
        if 0 < ua_ttl a \<and> ua_ttl a < m then ua_ttl a else m))"

definition count_divergent :: "string list \<Rightarrow> (string, string list) gomap \<Rightarrow> nat" where
  "count_divergent s ups =
     length (filter (\<lambda>ip. length (filter (\<lambda>(u, l). ip \<in> set l) ups) < length ups) s)"

definition multi_Resolve ::
  "multi_env \<Rightarrow> multi_resolver \<Rightarrow> string \<Rightarrow> (string + resolution) \<times> multi_resolver" where
  "multi_Resolve env m hostname =
     (let cached = cache_Get (me_now env) hostname (mr_cache m) in
      if cached \<noteq> [] then
        (Inr (empty_resolution\<lparr>rs_hostname := hostname, rs_ips := cached, rs_ttl := ttlFloor\<rparr>), m)
      else
        let (s, ups, ad, chain, minTTL) =
              multi_loop (me_arrival env (upstream_answers (me_net env) hostname (mr_upstreams m)))
                ([], [], False, [], ttlCeiling)
        in if s = [] then
             (active_Resolve (me_fallback_net env) (me_aaaa_first env) (mr_fallback m) hostname, m)
           else
             let ips = me_ord_ips env s;
                 results = map (\<lambda>(u, l). (u, me_ord_list env u l)) (me_ord_ups env ups);
                 ttl = clampTTL minTTL
             in (Inr \<lparr>rs_hostname = hostname, rs_ips = ips, rs_chain = chain, rs_ttl = ttl,
                      rs_dnssec = ad, rs_divergence = int (count_divergent s ups), rs_results = results\<rparr>,
                 m\<lparr>mr_cache := cache_Record (me_ord_cache env) (me_clk env) (me_tick env) hostname ips ttl
                      (mr_cache m)\<rparr>))"

text \<open>ResolvePerUpstream, for the kubectl plugin: each upstream's answers, empty ones left out.\<close>

definition ResolvePerUpstream :: "dns_net \<Rightarrow> multi_resolver \<Rightarrow> string \<Rightarrow> (string \<times> string list) list" where
  "ResolvePerUpstream net m hostname =
     filter (\<lambda>(u, ips). ips \<noteq> []) (map (\<lambda>u. (u, concat (map (\<lambda>qt.
       case queryUpstream net hostname u qt of Inl e \<Rightarrow> [] | Inr (ips, chain, ttl, ad) \<Rightarrow> ips)
       [TypeA, TypeAAAA]))) (mr_upstreams m))"

section \<open>What the loop collects\<close>

definition answered_ips :: "upstream_answer list \<Rightarrow> string set" where
  "answered_ips as = (\<Union>a \<in> set as. set (ua_ips a))"

definition answered_by :: "upstream_answer list \<Rightarrow> string \<Rightarrow> string set" where
  "answered_by as u = (\<Union>a \<in> {a \<in> set as. ua_upstream a = u}. set (ua_ips a))"

definition ups_hold :: "(string, string list) gomap \<Rightarrow> (string \<Rightarrow> string set) \<Rightarrow> bool" where
  "ups_hold ups f \<longleftrightarrow> gomap_ok ups \<and> (\<forall>u. case map_of ups u of
     None \<Rightarrow> f u = {} | Some l \<Rightarrow> distinct l \<and> l \<noteq> [] \<and> set l = f u)"

lemma set_add_key [simp]: "set (add_key k ks) = insert k (set ks)"
  by (auto simp: add_key_def)

lemma distinct_add_key [simp]: "distinct (add_key k ks) \<longleftrightarrow> distinct ks"
  by (simp add: add_key_def)

lemma add_key_nonempty [simp]: "add_key k ks \<noteq> []"
  by (auto simp: add_key_def)

lemma add_ips_holds:
  "distinct s \<Longrightarrow> ups_hold ups f \<Longrightarrow> add_ips u ips (s, ups) = (s', ups') \<Longrightarrow>
   distinct s' \<and> set s' = set s \<union> set ips \<and> ups_hold ups' (f(u := f u \<union> set ips))"
proof (induction u ips "(s, ups)" arbitrary: s ups f rule: add_ips.induct)
  case (2 u ip ips s ups)
  let ?l = "add_key ip (case map_of ups u of None \<Rightarrow> [] | Some l \<Rightarrow> l)"
  have each: "case map_of ups v of None \<Rightarrow> f v = {} | Some l \<Rightarrow> distinct l \<and> l \<noteq> [] \<and> set l = f v" for v
    using "2.prems"(2) by (simp add: ups_hold_def)
  have l: "distinct ?l \<and> ?l \<noteq> [] \<and> set ?l = insert ip (f u)"
    using each [of u] by (cases "map_of ups u") simp_all
  have "ups_hold (put u ?l ups) (f(u := insert ip (f u)))"
    unfolding ups_hold_def
  proof (intro conjI allI)
    show "gomap_ok (put u ?l ups)" using "2.prems"(2) by (simp add: ups_hold_def)
    show "case map_of (put u ?l ups) v of None \<Rightarrow> (f(u := insert ip (f u))) v = {}
      | Some l \<Rightarrow> distinct l \<and> l \<noteq> [] \<and> set l = (f(u := insert ip (f u))) v" for v
      using l each [of v] by (cases "v = u"; cases "map_of ups v") simp_all
  qed
  from "2.hyps" [OF _ this] "2.prems" show ?case by auto
qed auto

text \<open>The least positive TTL seen, from the ceiling.\<close>

definition least_ttl :: "upstream_answer list \<Rightarrow> duration" where
  "least_ttl as = foldl min ttlCeiling (filter (\<lambda>t. 0 < t) (map ua_ttl as))"

lemma multi_loop_holds:
  assumes "multi_loop as (s0, ups0, ad0, c0, m0) = (s, ups, ad, chain, m)" "distinct s0" "ups_hold ups0 f0"
  shows "distinct s \<and> set s = set s0 \<union> answered_ips as \<and> ups_hold ups (\<lambda>u. f0 u \<union> answered_by as u) \<and>
    ad = (ad0 \<or> (\<exists>a \<in> set as. ua_ad a)) \<and> m = foldl min m0 (filter (\<lambda>t. 0 < t) (map ua_ttl as))"
  using assms
proof (induction as "(s0, ups0, ad0, c0, m0)" arbitrary: s0 ups0 ad0 c0 m0 f0 rule: multi_loop.induct)
  case (2 a as s0 ups0 ad0 c0 m0)
  obtain s' ups' where r: "add_ips (ua_upstream a) (ua_ips a) (s0, ups0) = (s', ups')"
    by (cases "add_ips (ua_upstream a) (ua_ips a) (s0, ups0)")
  from add_ips_holds [OF "2.prems"(2,3) r] have h: "distinct s'" "set s' = set s0 \<union> set (ua_ips a)"
    "ups_hold ups' (f0(ua_upstream a := f0 (ua_upstream a) \<union> set (ua_ips a)))" by auto
  have f: "(\<lambda>u. (f0(ua_upstream a := f0 (ua_upstream a) \<union> set (ua_ips a))) u \<union> answered_by as u) =
      (\<lambda>u. f0 u \<union> answered_by (a # as) u)"
    by (auto simp: answered_by_def fun_eq_iff)
  have m: "(if 0 < ua_ttl a \<and> ua_ttl a < m0 then ua_ttl a else m0) =
      (if 0 < ua_ttl a then min m0 (ua_ttl a) else m0)"
    by (auto simp: min_def)
  from "2.hyps" [OF r [symmetric] refl _ h(1,3)] "2.prems"(1) r show ?case
    unfolding f by (auto simp: h(2) m answered_ips_def)
qed (auto simp: answered_ips_def answered_by_def ups_hold_def)

lemma queryUpstream_ips_ok: "queryUpstream net h u qt = Inr (ips, chain, ttl, ad) \<Longrightarrow> ips_ok ips"
  by (auto simp: queryUpstream_def scan_answer_eq rr_ip_ok ips_ok_def [of "[]"] Let_def
      split: sum.splits if_splits)

lemma upstream_answer_of_ok:
  assumes "a \<in> set (upstream_answer_of net h u qt)"
  shows "ua_ips a \<noteq> [] \<and> ips_ok (ua_ips a) \<and> ua_upstream a = u"
proof (cases "queryUpstream net h u qt")
  case (Inr r)
  obtain ips chain ttl ad where r: "r = (ips, chain, ttl, ad)" by (cases r)
  with Inr have "ips_ok ips" using queryUpstream_ips_ok by blast
  with assms Inr r show ?thesis by (auto simp: upstream_answer_of_def split: if_splits)
qed (use assms in \<open>simp add: upstream_answer_of_def\<close>)

lemma upstream_answers_ok:
  assumes "a \<in> set (upstream_answers net h us)"
  shows "ua_ips a \<noteq> [] \<and> ips_ok (ua_ips a) \<and> ua_upstream a \<in> set us"
proof -
  obtain u qt where "u \<in> set us" "a \<in> set (upstream_answer_of net h u qt)"
    using assms by (auto simp: upstream_answers_def)
  with upstream_answer_of_ok show ?thesis by blast
qed

lemma ups_hold_Some:
  "ups_hold ups f \<Longrightarrow> map_of ups u = Some l \<Longrightarrow> distinct l \<and> l \<noteq> [] \<and> set l = f u"
  unfolding ups_hold_def by (elim conjE allE [of _ u]) simp

lemma ups_hold_None: "ups_hold ups f \<Longrightarrow> map_of ups u = None \<Longrightarrow> f u = {}"
  unfolding ups_hold_def by (elim conjE allE [of _ u]) simp

lemma ups_divergence:
  assumes "ups_hold ups f"
  shows "length (filter (\<lambda>(u, l). ip \<in> set l) ups) < length ups \<longleftrightarrow> (\<exists>u. f u \<noteq> {} \<and> ip \<notin> f u)"
proof -
  have ok: "gomap_ok ups" using assms by (simp add: ups_hold_def)
  note some = ups_hold_Some [OF assms]
  have "length (filter (\<lambda>(u, l). ip \<in> set l) ups) < length ups \<longleftrightarrow> (\<exists>(u, l) \<in> set ups. ip \<notin> set l)"
  proof (induction ups)
    case (Cons x xs)
    then show ?case using length_filter_le [of "\<lambda>(u, l). ip \<in> set l" xs]
      by (cases x) (auto simp: less_Suc_eq_le)
  qed simp
  also have "\<dots> \<longleftrightarrow> (\<exists>u l. map_of ups u = Some l \<and> ip \<notin> set l)"
    unfolding Bex_def split_paired_Ex by (simp add: gomap_lookup [OF ok])
  also have "\<dots> \<longleftrightarrow> (\<exists>u. f u \<noteq> {} \<and> ip \<notin> f u)"
  proof
    assume "\<exists>u l. map_of ups u = Some l \<and> ip \<notin> set l"
    then obtain u l where u: "map_of ups u = Some l" "ip \<notin> set l" by blast
    with some [OF u(1)] show "\<exists>u. f u \<noteq> {} \<and> ip \<notin> f u" by (metis set_empty)
  next
    assume "\<exists>u. f u \<noteq> {} \<and> ip \<notin> f u"
    then obtain u where u: "f u \<noteq> {}" "ip \<notin> f u" by blast
    then obtain l where "map_of ups u = Some l"
      using ups_hold_None [OF assms] by (cases "map_of ups u") auto
    with some [OF this] u show "\<exists>u l. map_of ups u = Some l \<and> ip \<notin> set l" by blast
  qed
  finally show ?thesis .
qed

section \<open>The contract of the multi resolver\<close>

definition multi_env_ok :: "multi_env \<Rightarrow> bool" where
  "multi_env_ok env \<longleftrightarrow> range_order (me_arrival env) \<and> range_order (me_ord_ips env) \<and>
     range_order (me_ord_ups env) \<and> (\<forall>u. range_order (me_ord_list env u)) \<and>
     range_order (me_ord_cache env)"

definition cache_text :: "ip_cache \<Rightarrow> bool" where
  "cache_text c \<longleftrightarrow> cache_ok c \<and> (\<forall>h. ips_ok (map oi_ip (cache_entries c h)))"

definition multi_inv :: "multi_resolver \<Rightarrow> bool" where
  "multi_inv m \<longleftrightarrow> cache_text (mr_cache m)"

lemma put_range: "snd ` set (put k e m) \<subseteq> insert e (snd ` set m)"
  unfolding put_def by (induction m) auto

lemma keep_live_range: "snd ` set (keep_live clk t es m) \<subseteq> snd ` set m \<union> set es"
proof (induction es arbitrary: t m)
  case (Cons e es)
  define m' where "m' = (if clk t < oi_expires e then put (oi_ip e) e m else m)"
  have "snd ` set m' \<subseteq> insert e (snd ` set m)"
    using put_range [of "oi_ip e" e m] by (auto simp: m'_def)
  moreover have "snd ` set (keep_live clk t (e # es) m) \<subseteq> snd ` set m' \<union> set es"
    using Cons [of "Suc t" m'] by (simp add: m'_def)
  ultimately show ?case unfolding list.set by blast
qed simp

lemma put_ips_range: "snd ` set (put_ips e ips m) \<subseteq> snd ` set m \<union> (\<lambda>ip. \<lparr>oi_ip = ip, oi_expires = e\<rparr>) ` set ips"
proof (induction ips arbitrary: m)
  case (Cons ip ips)
  define m' where "m' = put ip \<lparr>oi_ip = ip, oi_expires = e\<rparr> m"
  have "snd ` set m' \<subseteq> insert \<lparr>oi_ip = ip, oi_expires = e\<rparr> (snd ` set m)"
    using put_range by (simp add: m'_def)
  moreover have "snd ` set (put_ips e (ip # ips) m) \<subseteq> snd ` set m' \<union> (\<lambda>ip. \<lparr>oi_ip = ip, oi_expires = e\<rparr>) ` set ips"
    using Cons [of m'] by (simp add: m'_def)
  ultimately show ?case unfolding list.set image_insert by blast
qed simp

lemma cache_Record_text:
  assumes "cache_text c" "range_order ord" "ips_ok ips"
  shows "cache_text (cache_Record ord clk t h ips ttl c)"
proof -
  define m where "m = keep_live clk (Suc t) (cache_entries c h) []"
  define m' where "m' = put_ips (clk t + record_ttl ttl) ips m"
  have "snd ` set m' \<subseteq> set (cache_entries c h) \<union> (\<lambda>ip. \<lparr>oi_ip = ip, oi_expires = clk t + record_ttl ttl\<rparr>) ` set ips"
    using put_ips_range [of "clk t + record_ttl ttl" ips m] keep_live_range [of clk "Suc t" "cache_entries c h" "[]"]
    unfolding m'_def m_def by auto
  then have "set (map oi_ip (map snd (ord m'))) \<subseteq> set (map oi_ip (cache_entries c h) @ ips)"
    using range_order_set [OF assms(2), of m'] by force
  moreover have "ips_ok (map oi_ip (cache_entries c h) @ ips)"
    using assms by (simp add: cache_text_def)
  ultimately have "ips_ok (map oi_ip (map snd (ord m')))" by (rule ips_ok_subset [rotated])
  moreover have "cache_Record ord clk t h ips ttl c = put h (map snd (ord m')) c"
    by (simp add: cache_Record_def m'_def m_def Let_def)
  ultimately show ?thesis
    using assms(1) cache_Record_ok [OF _ assms(2), of c clk t h ips ttl]
    by (simp add: cache_text_def cache_entries_put)
qed

lemma cache_Get_text: "cache_text c \<Longrightarrow> ips_ok (cache_Get now h c)"
  by (auto simp: cache_text_def cache_Get_def ips_ok_def)

text \<open>The branches of Resolve.\<close>

lemma multi_cached:
  "cache_Get (me_now env) h (mr_cache m) \<noteq> [] \<Longrightarrow>
   multi_Resolve env m h = (Inr (empty_resolution\<lparr>rs_hostname := h,
     rs_ips := cache_Get (me_now env) h (mr_cache m), rs_ttl := ttlFloor\<rparr>), m)"
  by (simp add: multi_Resolve_def)

definition arrived :: "multi_env \<Rightarrow> multi_resolver \<Rightarrow> string \<Rightarrow> upstream_answer list" where
  "arrived env m h = me_arrival env (upstream_answers (me_net env) h (mr_upstreams m))"

lemma arrived_set:
  "multi_env_ok env \<Longrightarrow> set (arrived env m h) = set (upstream_answers (me_net env) h (mr_upstreams m))"
  by (simp add: arrived_def multi_env_ok_def range_order_set)

lemma multi_fallback:
  assumes "multi_env_ok env" "cache_Get (me_now env) h (mr_cache m) = []"
    and "upstream_answers (me_net env) h (mr_upstreams m) = []"
  shows "multi_Resolve env m h =
    (active_Resolve (me_fallback_net env) (me_aaaa_first env) (mr_fallback m) h, m)"
proof -
  have "me_arrival env [] = []"
    using assms(1) range_order_length [of "me_arrival env" "[]"] by (simp add: multi_env_ok_def)
  with assms show ?thesis by (simp add: multi_Resolve_def)
qed

definition answer_of :: "multi_env \<Rightarrow> upstream_answer list \<Rightarrow> string \<Rightarrow> string list \<Rightarrow> (string, string list) gomap \<Rightarrow> resolution" where
  "answer_of env as h s ups = \<lparr>rs_hostname = h, rs_ips = me_ord_ips env s,
     rs_chain = fst (snd (snd (snd (multi_loop as ([], [], False, [], ttlCeiling))))),
     rs_ttl = clampTTL (least_ttl as), rs_dnssec = (\<exists>a \<in> set as. ua_ad a),
     rs_divergence = int (count_divergent s ups),
     rs_results = map (\<lambda>(u, l). (u, me_ord_list env u l)) (me_ord_ups env ups)\<rparr>"

lemma multi_miss:
  assumes env: "multi_env_ok env" and miss: "cache_Get (me_now env) h (mr_cache m) = []"
    and some: "upstream_answers (me_net env) h (mr_upstreams m) \<noteq> []"
  obtains s ups where
    "distinct s" "s \<noteq> []" "set s = answered_ips (arrived env m h)"
    "ups_hold ups (answered_by (arrived env m h))"
    "multi_Resolve env m h = (Inr (answer_of env (arrived env m h) h s ups),
       m\<lparr>mr_cache := cache_Record (me_ord_cache env) (me_clk env) (me_tick env) h (me_ord_ips env s)
         (clampTTL (least_ttl (arrived env m h))) (mr_cache m)\<rparr>)"
proof -
  let ?as = "arrived env m h"
  obtain s ups ad chain minTTL where
    r: "multi_loop ?as ([], [], False, [], ttlCeiling) = (s, ups, ad, chain, minTTL)"
    using prod_cases5 by blast
  have "ups_hold [] (\<lambda>u. {})" by (simp add: ups_hold_def)
  from multi_loop_holds [OF r _ this] have h: "distinct s" "set s = answered_ips ?as"
    "ups_hold ups (answered_by ?as)" "ad = (\<exists>a \<in> set ?as. ua_ad a)" "minTTL = least_ttl ?as"
    by (simp_all add: least_ttl_def)
  have "?as \<noteq> []" using arrived_set [OF env, of m h] some by auto
  then obtain a where a: "a \<in> set ?as" by (meson last_in_set)
  then have "ua_ips a \<noteq> []" using arrived_set [OF env, of m h] upstream_answers_ok by auto
  with a h(2) have "s \<noteq> []" by (auto simp: answered_ips_def)
  have "multi_Resolve env m h = (Inr (answer_of env ?as h s ups),
       m\<lparr>mr_cache := cache_Record (me_ord_cache env) (me_clk env) (me_tick env) h (me_ord_ips env s)
         (clampTTL (least_ttl ?as)) (mr_cache m)\<rparr>)"
    using r \<open>s \<noteq> []\<close> miss unfolding h(4,5) by (simp add: multi_Resolve_def answer_of_def arrived_def Let_def)
  with h(1-3) \<open>s \<noteq> []\<close> show thesis using that by blast
qed

lemma answered_ips_ok:
  assumes "multi_env_ok env" "set ips = answered_ips (arrived env m h)"
  shows "ips_ok ips"
  unfolding ips_ok_def
proof
  fix ip assume "ip \<in> set ips"
  then obtain a where "a \<in> set (arrived env m h)" and ip: "ip \<in> set (ua_ips a)"
    using assms(2) by (auto simp: answered_ips_def)
  then have "a \<in> set (upstream_answers (me_net env) h (mr_upstreams m))"
    using arrived_set [OF assms(1), of m h] by simp
  then have "ips_ok (ua_ips a)" using upstream_answers_ok by blast
  with ip show "\<exists>x. host_text ip x" by (simp add: ips_ok_def)
qed

lemma multi_law:
  assumes env: "multi_env_ok env" and inv: "multi_inv m"
  shows "multi_inv (snd (multi_Resolve env m h))"
    and "fst (multi_Resolve env m h) = Inr r \<Longrightarrow> resolution_ok h r"
proof -
  have c: "cache_text (mr_cache m)" using inv by (simp add: multi_inv_def)
  have "multi_inv (snd (multi_Resolve env m h)) \<and>
      (fst (multi_Resolve env m h) = Inr r \<longrightarrow> resolution_ok h r)"
  proof (cases "cache_Get (me_now env) h (mr_cache m) = []")
    case False
    with inv show ?thesis
      using cache_Get_text [OF c, of "me_now env" h]
      by (auto simp: multi_cached resolution_ok_def empty_resolution_def ttlFloor_def ttlCeiling_def second_def)
  next
    case miss: True
    show ?thesis
    proof (cases "upstream_answers (me_net env) h (mr_upstreams m) = []")
      case True
      with inv show ?thesis by (auto simp: multi_fallback [OF env miss True] dest: active_Resolve_ok)
    next
      case False
      obtain s ups where s: "distinct s" "s \<noteq> []" "set s = answered_ips (arrived env m h)"
        and R: "multi_Resolve env m h = (Inr (answer_of env (arrived env m h) h s ups),
          m\<lparr>mr_cache := cache_Record (me_ord_cache env) (me_clk env) (me_tick env) h (me_ord_ips env s)
         (clampTTL (least_ttl (arrived env m h))) (mr_cache m)\<rparr>)"
        by (rule multi_miss [OF env miss False])
      have o: "set (me_ord_ips env s) = set s" "range_order (me_ord_cache env)"
        using env by (simp_all add: multi_env_ok_def range_order_set)
      then have ok: "ips_ok (me_ord_ips env s)" using answered_ips_ok [OF env] s(3) by simp
      have ne: "me_ord_ips env s \<noteq> []" using o(1) s(2) by auto
      have "multi_inv (snd (multi_Resolve env m h))"
        using cache_Record_text [OF c o(2) ok] by (simp add: multi_inv_def R)
      with ok ne clamp_bounds show ?thesis by (auto simp: R answer_of_def resolution_ok_def)
    qed
  qed
  then show "multi_inv (snd (multi_Resolve env m h))"
    and "fst (multi_Resolve env m h) = Inr r \<Longrightarrow> resolution_ok h r" by auto
qed

interpretation multi: resolver multi_Resolve multi_env_ok multi_inv
  by unfold_locales (simp_all add: multi_law)

section \<open>Properties\<close>

lemma range_order_map_of:
  assumes "range_order ord" "gomap_ok m"
  shows "map_of (ord m) = map_of m"
proof
  fix k
  have "(k, v) \<in> set (ord m) \<longleftrightarrow> (k, v) \<in> set m" for v by (simp add: range_order_set assms(1))
  then have "map_of (ord m) k = Some v \<longleftrightarrow> map_of m k = Some v" for v
    using gomap_lookup [OF assms(2)] gomap_lookup [OF range_order_ok [OF assms]] by metis
  then show "map_of (ord m) k = map_of m k" by (metis option.exhaust)
qed

lemma map_of_map_pair: "map_of (map (\<lambda>(u, l). (u, g u l)) m) u = map_option (g u) (map_of m u)"
  by (induction m) auto

text \<open>The addresses upstream \<open>u\<close> returned in this call, over both record types.\<close>

definition upstream_ips :: "multi_env \<Rightarrow> multi_resolver \<Rightarrow> string \<Rightarrow> string \<Rightarrow> string set" where
  "upstream_ips env m h u = answered_by (upstream_answers (me_net env) h (mr_upstreams m)) u"

lemma results_lookup:
  assumes env: "multi_env_ok env" and ups: "ups_hold ups f"
    and r: "rs = map (\<lambda>(u, l). (u, me_ord_list env u l)) (me_ord_ups env ups)"
  shows "gomap_ok rs" and "f u = {} \<Longrightarrow> map_of rs u = None"
    and "f u \<noteq> {} \<Longrightarrow> \<exists>l. map_of rs u = Some l \<and> distinct l \<and> set l = f u"
proof -
  have ok: "gomap_ok ups" using ups by (simp add: ups_hold_def)
  have o: "range_order (me_ord_ups env)" "range_order (me_ord_list env u)" for u
    using env by (simp_all add: multi_env_ok_def)
  have "map fst rs = map fst (me_ord_ups env ups)" by (simp add: r split_def)
  then show "gomap_ok rs" using range_order_ok [OF o(1) ok] by (simp add: gomap_ok_def)
  have l: "map_of rs u = map_option (me_ord_list env u) (map_of ups u)"
    by (simp add: r map_of_map_pair range_order_map_of [OF o(1) ok])
  show "f u = {} \<Longrightarrow> map_of rs u = None"
    using ups_hold_Some [OF ups, of u] by (cases "map_of ups u") (auto simp: l)
  show "f u \<noteq> {} \<Longrightarrow> \<exists>l. map_of rs u = Some l \<and> distinct l \<and> set l = f u"
    using ups_hold_Some [OF ups, of u] ups_hold_None [OF ups, of u] o(2) [of u]
    by (cases "map_of ups u") (auto simp: l range_order_set range_order_distinct)
qed

lemma upstream_ips_arrived:
  assumes "multi_env_ok env"
  shows "answered_by (arrived env m h) = upstream_ips env m h"
    and "answered_ips (arrived env m h) = (\<Union>u. upstream_ips env m h u)"
  using arrived_set [OF assms, of m h]
  by (auto simp: upstream_ips_def answered_by_def answered_ips_def fun_eq_iff)

lemma least_ttl_arrived:
  assumes "multi_env_ok env"
  shows "least_ttl (arrived env m h) =
    Min (insert ttlCeiling {ua_ttl a | a. a \<in> set (upstream_answers (me_net env) h (mr_upstreams m)) \<and> 0 < ua_ttl a})"
proof -
  have "set (filter (\<lambda>t. 0 < t) (map ua_ttl (arrived env m h))) =
      {ua_ttl a | a. a \<in> set (upstream_answers (me_net env) h (mr_upstreams m)) \<and> 0 < ua_ttl a}"
    using arrived_set [OF assms, of m h] by auto
  then show ?thesis by (simp only: least_ttl_def foldl_min)
qed

text \<open>C24. The union over upstreams, independent of every order. When the cache has nothing and some
  upstream brought addresses, the answer holds each address any upstream returned exactly once; its
  results map has an entry, without duplicates, for exactly the upstreams that answered, with what they
  returned; the divergence is the number of addresses some answering upstream did not return; and the
  TTL is the least positive TTL of the answers, clamped.\<close>

theorem multi_resolve_union:
  assumes "multi_env_ok env" and "cache_Get (me_now env) h (mr_cache m) = []"
    and "upstream_answers (me_net env) h (mr_upstreams m) \<noteq> []"
  shows "\<exists>r m'. multi_Resolve env m h = (Inr r, m') \<and>
    distinct (rs_ips r) \<and> set (rs_ips r) = (\<Union>u. upstream_ips env m h u) \<and>
    gomap_ok (rs_results r) \<and>
    (\<forall>u. if upstream_ips env m h u = {} then map_of (rs_results r) u = None
         else \<exists>l. map_of (rs_results r) u = Some l \<and> distinct l \<and> set l = upstream_ips env m h u) \<and>
    rs_divergence r = int (card {ip \<in> set (rs_ips r).
      \<exists>u. upstream_ips env m h u \<noteq> {} \<and> ip \<notin> upstream_ips env m h u}) \<and>
    rs_ttl r = clampTTL (Min (insert ttlCeiling {ua_ttl a | a.
      a \<in> set (upstream_answers (me_net env) h (mr_upstreams m)) \<and> 0 < ua_ttl a}))"
proof (rule multi_miss [OF assms])
  fix s ups
  assume s: "distinct s" "s \<noteq> []" "set s = answered_ips (arrived env m h)"
    and ups: "ups_hold ups (answered_by (arrived env m h))"
    and R: "multi_Resolve env m h = (Inr (answer_of env (arrived env m h) h s ups),
       m\<lparr>mr_cache := cache_Record (me_ord_cache env) (me_clk env) (me_tick env) h (me_ord_ips env s)
         (clampTTL (least_ttl (arrived env m h))) (mr_cache m)\<rparr>)"
  let ?r = "answer_of env (arrived env m h) h s ups"
  have ups': "ups_hold ups (upstream_ips env m h)" using ups by (simp add: upstream_ips_arrived [OF assms(1)])
  note res = results_lookup [OF assms(1) ups' refl]
  have o: "range_order (me_ord_ips env)" using assms(1) by (simp add: multi_env_ok_def)
  have "count_divergent s ups = length (filter (\<lambda>ip. \<exists>u. upstream_ips env m h u \<noteq> {} \<and> ip \<notin> upstream_ips env m h u) s)"
    unfolding count_divergent_def ups_divergence [OF ups'] ..
  also have "\<dots> = card {ip \<in> set s. \<exists>u. upstream_ips env m h u \<noteq> {} \<and> ip \<notin> upstream_ips env m h u}"
    using distinct_card [OF distinct_filter [OF s(1)]] by simp
  finally have d: "rs_divergence ?r = int (card {ip \<in> set (rs_ips ?r).
      \<exists>u. upstream_ips env m h u \<noteq> {} \<and> ip \<notin> upstream_ips env m h u})"
    by (simp add: answer_of_def range_order_set [OF o])
  have i: "distinct (rs_ips ?r)" "set (rs_ips ?r) = (\<Union>u. upstream_ips env m h u)"
    using s(1,3) o by (simp_all add: answer_of_def range_order_distinct range_order_set
        upstream_ips_arrived [OF assms(1)])
  have g: "gomap_ok (rs_results ?r)" "\<And>u. if upstream_ips env m h u = {} then map_of (rs_results ?r) u = None
         else \<exists>l. map_of (rs_results ?r) u = Some l \<and> distinct l \<and> set l = upstream_ips env m h u"
    using res by (simp_all add: answer_of_def)
  have t: "rs_ttl ?r = clampTTL (Min (insert ttlCeiling {ua_ttl a | a.
      a \<in> set (upstream_answers (me_net env) h (mr_upstreams m)) \<and> 0 < ua_ttl a}))"
    by (simp add: answer_of_def least_ttl_arrived [OF assms(1)])
  show ?thesis using R i g d t by blast
qed

definition sample_env :: "dns_net \<Rightarrow> gotime \<Rightarrow> multi_env" where
  "sample_env net now = \<lparr>me_net = net, me_fallback_net = net, me_aaaa_first = False, me_arrival = rev,
     me_ord_ips = rev, me_ord_ups = rev, me_ord_list = (\<lambda>u. rev), me_ord_cache = rev, me_now = now,
     me_clk = (\<lambda>n. now + int n), me_tick = 0\<rparr>"

lemma sample_env_ok: "multi_env_ok (sample_env net now)"
  by (simp add: multi_env_ok_def sample_env_def)

lemma sample_answers:
  "upstream_answers (me_net (sample_env (sample_net [RR_A 0x01020304 60]) 0)) ''a.io''
     (mr_upstreams (NewMultiResolver ''10.0.0.10:53'' [])) \<noteq> []"
  by (simp add: upstream_answers_def upstream_answer_of_def queryUpstream_def sample_env_def sample_net_def
      NewMultiResolver_def uniqueStrings_def wellKnownUpstreams_def)

lemma new_multi_miss: "cache_Get now h (mr_cache (NewMultiResolver sys extra)) = []"
  by (simp add: NewMultiResolver_def NewIPCache_def cache_Get_def cache_entries_def)

lemma multi_resolve_union_witness:
  "\<exists>r m'. multi_Resolve (sample_env (sample_net [RR_A 0x01020304 60]) 0) (NewMultiResolver ''10.0.0.10:53'' []) ''a.io'' = (Inr r, m')"
  using multi_resolve_union [OF sample_env_ok new_multi_miss sample_answers] by blast

text \<open>A cached answer carries no evidence. After a miss that filled the cache, any call for the
  hostname before the recorded TTL has passed succeeds from the cache: it leaves the state alone, and
  its results map is empty and its divergence zero, whatever the first answer reported.\<close>

theorem multi_cached_without_results:
  assumes "multi_env_ok env" and "multi_inv m" and "cache_Get (me_now env) h (mr_cache m) = []"
    and "upstream_answers (me_net env) h (mr_upstreams m) \<noteq> []"
    and "\<forall>i \<le> me_tick env + length (cache_entries (mr_cache m) h). me_clk env i \<le> me_now env2"
    and "me_now env2 < me_clk env (me_tick env) + ttlFloor"
  shows "\<exists>r m' r2. multi_Resolve env m h = (Inr r, m') \<and>
    multi_Resolve env2 m' h = (Inr r2, m') \<and> set (rs_ips r) \<subseteq> set (rs_ips r2) \<and>
    rs_results r2 = [] \<and> rs_divergence r2 = 0"
proof (rule multi_miss [OF assms(1,3,4)])
  fix s ups
  let ?ttl = "clampTTL (least_ttl (arrived env m h))"
  let ?c = "cache_Record (me_ord_cache env) (me_clk env) (me_tick env) h (me_ord_ips env s) ?ttl (mr_cache m)"
  assume s: "s \<noteq> []"
    and R: "multi_Resolve env m h = (Inr (answer_of env (arrived env m h) h s ups), m\<lparr>mr_cache := ?c\<rparr>)"
  have o: "range_order (me_ord_ips env)" "range_order (me_ord_cache env)"
    using assms(1) by (simp_all add: multi_env_ok_def)
  have ok: "cache_ok (mr_cache m)" using assms(2) by (simp add: multi_inv_def cache_text_def)
  have fl: "ttlFloor \<le> ?ttl" by (rule clamp_bounds)
  moreover have "0 < ttlFloor" by (simp add: ttlFloor_def second_def)
  ultimately have "0 < ?ttl" by linarith
  with fl have t: "me_now env2 < me_clk env (me_tick env) + record_ttl ?ttl"
    using assms(6) by (simp add: record_ttl_def)
  have sub: "set (me_ord_ips env s) \<subseteq> set (cache_Get (me_now env2) h ?c)"
    using cache_Record_live [OF ok o(2), of "me_tick env" h "me_clk env" "me_now env2" h "me_ord_ips env s" ?ttl]
      assms(5) t by auto
  have "me_ord_ips env s \<noteq> []" using s range_order_set [OF o(1), of s] by auto
  with sub have ne: "cache_Get (me_now env2) h (mr_cache (m\<lparr>mr_cache := ?c\<rparr>)) \<noteq> []" by auto
  note R2 = multi_cached [OF ne]
  show ?thesis
    by (rule exI, rule exI, rule exI, rule conjI, rule R, rule conjI, rule R2)
      (use sub in \<open>simp add: answer_of_def empty_resolution_def\<close>)
qed

lemma multi_cached_without_results_witness:
  "\<exists>m' r2. multi_Resolve (sample_env (sample_net []) 1) m' ''a.io'' = (Inr r2, m') \<and> rs_results r2 = []"
proof -
  have "multi_inv (NewMultiResolver ''10.0.0.10:53'' [])"
    by (simp add: multi_inv_def cache_text_def NewMultiResolver_def NewIPCache_def cache_ok_def
        cache_entries_def ips_ok_def)
  then have "\<exists>r m' r2. multi_Resolve (sample_env (sample_net [RR_A 0x01020304 60]) 0)
        (NewMultiResolver ''10.0.0.10:53'' []) ''a.io'' = (Inr r, m') \<and>
      multi_Resolve (sample_env (sample_net []) 1) m' ''a.io'' = (Inr r2, m') \<and>
      set (rs_ips r) \<subseteq> set (rs_ips r2) \<and> rs_results r2 = [] \<and> rs_divergence r2 = 0"
    by (intro multi_cached_without_results [OF sample_env_ok _ new_multi_miss sample_answers])
      (simp_all add: sample_env_def NewMultiResolver_def NewIPCache_def cache_entries_def ttlFloor_def second_def)
  then show ?thesis by blast
qed

end
