(* ===== verification/SnoopResolver.thy ===== *)
theory SnoopResolver
  imports MultiResolver ObservationStore
begin

text \<open>
  internal/dns/snoop\_resolver.go: the recording DNS proxy. handleQuery forwards a query, records who was
  asked for and which addresses came back, and replies; Resolve unions what was recorded with the multi
  resolver's answer. The life of the proxy's server (Start, Shutdown) is in SnoopServer.
\<close>

section \<open>State\<close>

definition defaultPollInterval :: duration where
  "defaultPollInterval = 60 * second"

record snoop_resolver =
  sn_cache :: ip_cache
  sn_observations :: observation_store
  sn_upstream :: string
  sn_multi :: multi_resolver

definition NewSnoopResolver :: "string \<Rightarrow> string \<Rightarrow> snoop_resolver" where
  "NewSnoopResolver system upstream =
     (let up = (if upstream = [] then system else upstream) in
      \<lparr>sn_cache = NewIPCache, sn_observations = NewObservationStore, sn_upstream = up,
       sn_multi = NewMultiResolver system [up]\<rparr>)"

section \<open>Resolve\<close>

definition unionIPs :: "string list \<Rightarrow> string list \<Rightarrow> string list" where
  "unionIPs a b = unique_from [] (a @ b)"

text \<open>The environment of a call: a reading of the clock for the snoop cache, then the multi resolver's.\<close>

definition snoop_Resolve ::
  "gotime \<times> multi_env \<Rightarrow> snoop_resolver \<Rightarrow> string \<Rightarrow> (string + resolution) \<times> snoop_resolver" where
  "snoop_Resolve env s hostname =
     (let observed = cache_Get (fst env) hostname (sn_cache s);
          (res, m') = multi_Resolve (snd env) (sn_multi s) hostname;
          s' = s\<lparr>sn_multi := m'\<rparr>
      in case res of
           Inl e \<Rightarrow>
             if observed = [] then (Inl e, s')
             else (Inr (empty_resolution\<lparr>rs_hostname := hostname, rs_ips := unionIPs observed [],
                          rs_ttl := defaultPollInterval\<rparr>), s')
         | Inr active \<Rightarrow>
             (Inr \<lparr>rs_hostname = hostname, rs_ips = unionIPs observed (rs_ips active), rs_chain = [],
                   rs_ttl = (if rs_ttl active = 0 then defaultPollInterval else rs_ttl active),
                   rs_dnssec = rs_dnssec active, rs_divergence = rs_divergence active,
                   rs_results = rs_results active\<rparr>, s'))"

section \<open>handleQuery\<close>

datatype proxy_reply = ServFail | Forward dns_msg

definition question_host :: "dns_net \<Rightarrow> string \<Rightarrow> string" where
  "question_host net name = (let h = dn_fqdn net name in
     if h \<noteq> [] \<and> last h = CHR ''.'' then butlast h else h)"

text \<open>
  The loop over the answer section starts from 300 seconds and skips CNAMEs; the readings of the clock
  are numbered on from \<open>t\<close>, two for an observation and one plus the entries kept for a cache write.
\<close>

definition record_question ::
  "dns_net \<Rightarrow> (nat \<Rightarrow> gotime) \<Rightarrow> ((string \<times> observed_ip) list \<Rightarrow> (string \<times> observed_ip) list) \<Rightarrow>
   dns_rr list \<Rightarrow> string \<times> int \<Rightarrow> nat \<Rightarrow> snoop_resolver \<Rightarrow> nat \<times> snoop_resolver" where
  "record_question net clk ord answer q t s =
     (let h = question_host net (fst q);
          ask = (snd q = TypeA \<or> snd q = TypeAAAA);
          s1 = (if ask then s\<lparr>sn_observations := obs_Record (clk t) (clk (t + 1)) h (sn_observations s)\<rparr> else s);
          t1 = (if ask then t + 2 else t);
          (ips, chain, m) = scan_answer answer ([], [], 300)
      in if ips \<noteq> [] then
           (t1 + 1 + length (cache_entries (sn_cache s1) h),
            s1\<lparr>sn_cache := cache_Record ord clk t1 h ips (uint m * second) (sn_cache s1)\<rparr>)
         else (t1, s1))"

fun record_questions ::
  "dns_net \<Rightarrow> (nat \<Rightarrow> gotime) \<Rightarrow> ((string \<times> observed_ip) list \<Rightarrow> (string \<times> observed_ip) list) \<Rightarrow>
   dns_rr list \<Rightarrow> (string \<times> int) list \<Rightarrow> nat \<Rightarrow> snoop_resolver \<Rightarrow> nat \<times> snoop_resolver" where
  "record_questions net clk ord answer [] t s = (t, s)"
| "record_questions net clk ord answer (q # qs) t s =
     (let (t', s') = record_question net clk ord answer q t s in
      record_questions net clk ord answer qs t' s')"

text \<open>The result of the exchange with the upstream is the argument \<open>exchanged\<close>.\<close>

definition handleQuery ::
  "dns_net \<Rightarrow> (nat \<Rightarrow> gotime) \<Rightarrow> ((string \<times> observed_ip) list \<Rightarrow> (string \<times> observed_ip) list) \<Rightarrow>
   string + dns_msg \<Rightarrow> (string \<times> int) list \<Rightarrow> snoop_resolver \<Rightarrow> proxy_reply \<times> snoop_resolver" where
  "handleQuery net clk ord exchanged questions s =
     (case exchanged of
        Inl e \<Rightarrow> (ServFail, s)
      | Inr resp \<Rightarrow> (Forward resp, snd (record_questions net clk ord (dm_answer resp) questions 0 s)))"

section \<open>The contract\<close>

definition snoop_env_ok :: "gotime \<times> multi_env \<Rightarrow> bool" where
  "snoop_env_ok env \<longleftrightarrow> multi_env_ok (snd env)"

definition snoop_inv :: "snoop_resolver \<Rightarrow> bool" where
  "snoop_inv s \<longleftrightarrow> cache_text (sn_cache s) \<and> multi_inv (sn_multi s)"

lemma set_unionIPs: "set (unionIPs a b) = set a \<union> set b"
  by (simp add: unionIPs_def set_unique_from)

lemma distinct_unionIPs: "distinct (unionIPs a b)"
  by (simp add: unionIPs_def distinct_unique_from)

lemma unionIPs_ok: "ips_ok (unionIPs a b) \<longleftrightarrow> ips_ok a \<and> ips_ok b"
  by (auto simp: ips_ok_def set_unionIPs)

lemma unionIPs_Nil_iff: "unionIPs a b = [] \<longleftrightarrow> a = [] \<and> b = []"
  using set_unionIPs [of a b] by (metis Un_empty set_empty)

lemma snoop_law:
  assumes env: "snoop_env_ok env" and inv: "snoop_inv s"
  shows "snoop_inv (snd (snoop_Resolve env s h))"
    and "fst (snoop_Resolve env s h) = Inr r \<Longrightarrow> resolution_ok h r"
proof -
  obtain res m' where m: "multi_Resolve (snd env) (sn_multi s) h = (res, m')"
    by (cases "multi_Resolve (snd env) (sn_multi s) h")
  have e: "multi_env_ok (snd env)" and i: "multi_inv (sn_multi s)" and c: "cache_text (sn_cache s)"
    using env inv by (simp_all add: snoop_env_ok_def snoop_inv_def)
  have keep: "multi_inv m'" using multi.keeps [OF e i, of h] m by simp
  then show "snoop_inv (snd (snoop_Resolve env s h))"
    using c m by (cases res) (simp_all add: snoop_Resolve_def snoop_inv_def Let_def)
  have ok: "resolution_ok h a" if "res = Inr a" for a using multi.answers [OF e i, of h] m that by simp
  have obs: "ips_ok (cache_Get (fst env) h (sn_cache s))" by (rule cache_Get_text [OF c])
  have pos: "ttlFloor \<noteq> 0" "0 < ttlFloor" "ttlFloor \<le> defaultPollInterval" "defaultPollInterval \<le> ttlCeiling"
    by (simp_all add: ttlFloor_def ttlCeiling_def defaultPollInterval_def second_def)
  show "fst (snoop_Resolve env s h) = Inr r \<Longrightarrow> resolution_ok h r"
  proof (cases res)
    case (Inl e)
    then show "fst (snoop_Resolve env s h) = Inr r \<Longrightarrow> resolution_ok h r"
      using m obs pos by (auto simp: snoop_Resolve_def Let_def resolution_ok_def empty_resolution_def unionIPs_ok
          unionIPs_Nil_iff ips_ok_def [of "[]"] split: if_splits)
  next
    case (Inr a)
    then show "fst (snoop_Resolve env s h) = Inr r \<Longrightarrow> resolution_ok h r"
      using m obs pos ok [OF Inr] by (auto simp: snoop_Resolve_def Let_def resolution_ok_def unionIPs_ok unionIPs_Nil_iff)
  qed
qed

interpretation snoop: resolver snoop_Resolve snoop_env_ok snoop_inv
  by unfold_locales (simp_all add: snoop_law)

lemma record_question_inv:
  assumes "snoop_inv s" "range_order ord"
  shows "snoop_inv (snd (record_question net clk ord answer q t s))"
proof -
  have ok: "ips_ok (concat (map rr_ip answer))" by (rule rr_ip_ok)
  have c: "cache_text (cache_Record ord clk t' h (concat (map rr_ip answer)) ttl (sn_cache s))" for t' h ttl
    using assms by (intro cache_Record_text [OF _ assms(2) ok]) (simp add: snoop_inv_def)
  show ?thesis
    using assms(1) c
    by (simp add: record_question_def Let_def scan_answer_eq snoop_inv_def split: if_splits)
qed

lemma record_questions_inv:
  "snoop_inv s \<Longrightarrow> range_order ord \<Longrightarrow> snoop_inv (snd (record_questions net clk ord answer qs t s))"
proof (induction net clk ord answer qs t s rule: record_questions.induct)
  case (2 net clk ord answer q qs t s)
  obtain t' s' where r: "record_question net clk ord answer q t s = (t', s')"
    by (cases "record_question net clk ord answer q t s")
  have "snoop_inv s'" using record_question_inv [OF "2.prems", of net clk answer q t] r by simp
  then have "snoop_inv (snd (record_questions net clk ord answer qs t' s'))"
    by (rule "2.IH" [OF refl r [symmetric]]) (rule "2.prems")
  with r show ?case by simp
qed simp

lemma handleQuery_inv:
  "snoop_inv s \<Longrightarrow> range_order ord \<Longrightarrow> snoop_inv (snd (handleQuery net clk ord ex qs s))"
  by (simp add: handleQuery_def record_questions_inv split: sum.split)

section \<open>Properties\<close>

text \<open>The addresses of an answer section and the TTL the proxy keeps them for.\<close>

definition answer_ips :: "dns_msg \<Rightarrow> string list" where
  "answer_ips resp = concat (map rr_ip (dm_answer resp))"

definition answer_ttl :: "dns_msg \<Rightarrow> duration" where
  "answer_ttl resp = record_ttl (uint (foldl min 300 (concat (map rr_ttl (dm_answer resp)))) * second)"

lemma handle_one:
  assumes "qt = TypeA \<or> qt = TypeAAAA" "answer_ips resp \<noteq> []"
  shows "handleQuery net clk ord (Inr resp) [(name, qt)] s =
    (Forward resp, s\<lparr>sn_observations := obs_Record (clk 0) (clk 1) (question_host net name) (sn_observations s),
       sn_cache := cache_Record ord clk 2 (question_host net name) (answer_ips resp)
         (uint (foldl min 300 (concat (map rr_ttl (dm_answer resp)))) * second) (sn_cache s)\<rparr>)"
  using assms
  by (auto simp: handleQuery_def record_question_def scan_answer_eq answer_ips_def Let_def numeral_2_eq_2)

text \<open>What it recorded is live until the TTL has passed, and what is live is part of every resolution.\<close>

lemma handled_cache:
  assumes "snoop_inv s" "range_order ord" "qt = TypeA \<or> qt = TypeAAAA" "answer_ips resp \<noteq> []"
    and "\<And>i. i \<le> 2 + length (cache_entries (sn_cache s) (question_host net name)) \<Longrightarrow> clk i \<le> now"
    and "now < clk 2 + answer_ttl resp"
  shows "set (cache_Get now (question_host net name) (sn_cache (snd (handleQuery net clk ord (Inr resp) [(name, qt)] s)))) =
    set (answer_ips resp) \<union> set (cache_Get now (question_host net name) (sn_cache s))"
proof -
  let ?h = "question_host net name"
  have ok: "cache_ok (sn_cache s)" using assms(1) by (simp add: snoop_inv_def cache_text_def)
  have "sn_cache (snd (handleQuery net clk ord (Inr resp) [(name, qt)] s)) = cache_Record ord clk 2 ?h (answer_ips resp)
      (uint (foldl min 300 (concat (map rr_ttl (dm_answer resp)))) * second) (sn_cache s)"
    using handle_one [OF assms(3,4), of net clk ord name s] by simp
  then show ?thesis
    using cache_Record_live [OF ok assms(2), of 2 ?h clk now ?h] assms(5,6) by (auto simp: answer_ttl_def)
qed

lemma handled_cached:
  assumes "snoop_inv s" "range_order ord" "qt = TypeA \<or> qt = TypeAAAA" "answer_ips resp \<noteq> []"
    and "\<And>i. i \<le> 2 + length (cache_entries (sn_cache s) (question_host net name)) \<Longrightarrow> clk i \<le> now"
    and "now < clk 2 + answer_ttl resp"
  shows "set (answer_ips resp) \<subseteq> set (cache_Get now (question_host net name)
    (sn_cache (snd (handleQuery net clk ord (Inr resp) [(name, qt)] s))))"
proof -
  have "set (cache_Get now (question_host net name) (sn_cache (snd (handleQuery net clk ord (Inr resp) [(name, qt)] s)))) =
    set (answer_ips resp) \<union> set (cache_Get now (question_host net name) (sn_cache s))"
    by (rule handled_cache; fact assms)
  then show ?thesis by simp
qed

lemma snoop_Resolve_eq:
  assumes "multi_Resolve (snd env) (sn_multi s) h = (res, m')"
  shows "snd (snoop_Resolve env s h) = s\<lparr>sn_multi := m'\<rparr>"
    "fst (snoop_Resolve env s h) = (case res of
       Inl e \<Rightarrow> if cache_Get (fst env) h (sn_cache s) = [] then Inl e
         else Inr (empty_resolution\<lparr>rs_hostname := h, rs_ips := unionIPs (cache_Get (fst env) h (sn_cache s)) [],
                rs_ttl := defaultPollInterval\<rparr>)
     | Inr a \<Rightarrow> Inr \<lparr>rs_hostname = h, rs_ips = unionIPs (cache_Get (fst env) h (sn_cache s)) (rs_ips a), rs_chain = [],
         rs_ttl = (if rs_ttl a = 0 then defaultPollInterval else rs_ttl a), rs_dnssec = rs_dnssec a,
         rs_divergence = rs_divergence a, rs_results = rs_results a\<rparr>)"
  using assms by (simp_all add: snoop_Resolve_def Let_def split: sum.split)

lemma observed_resolved:
  assumes "cache_Get (fst env) h (sn_cache s) \<noteq> []"
  shows "\<exists>r. fst (snoop_Resolve env s h) = Inr r \<and> set (cache_Get (fst env) h (sn_cache s)) \<subseteq> set (rs_ips r)"
proof -
  obtain res m' where m: "multi_Resolve (snd env) (sn_multi s) h = (res, m')"
    by (cases "multi_Resolve (snd env) (sn_multi s) h")
  show ?thesis
    unfolding snoop_Resolve_eq(2) [OF m] using assms by (cases res) (simp_all add: set_unionIPs empty_resolution_def)
qed

lemma snoop_Resolve_cache: "sn_cache (snd (snoop_Resolve env s h)) = sn_cache s"
  by (simp add: snoop_Resolve_def Let_def split: prod.split sum.split)

text \<open>C25. What the proxy saw and what the upstreams say. After the proxy forwarded an answer with addresses to an
  A or AAAA question, every Resolve of that hostname before the answer's TTL has passed succeeds, whatever the
  upstream servers do. The resolution is well-formed and has, each once, exactly the addresses the pod
  received, those still live from earlier answers, and, when the multi resolver answers, all of its
  addresses; TTL, DNSSEC flag, divergence and per-server results are then the multi resolver's, and the TTL is
  one minute when it fails.\<close>

theorem snoop_resolve_covers_observed:
  assumes "snoop_inv s" and "range_order ord" and "multi_env_ok env"
    and "qt = TypeA \<or> qt = TypeAAAA" and "answer_ips resp \<noteq> []"
    and "\<forall>i \<le> 2 + length (cache_entries (sn_cache s) (question_host net name)). clk i \<le> now"
    and "now < clk 2 + answer_ttl resp" and "multi_Resolve env (sn_multi s) (question_host net name) = (res, m')"
  shows "\<exists>r s'. snoop_Resolve (now, env) (snd (handleQuery net clk ord (Inr resp) [(name, qt)] s))
      (question_host net name) = (Inr r, s') \<and> sn_multi s' = m' \<and>
    resolution_ok (question_host net name) r \<and> distinct (rs_ips r) \<and>
    set (rs_ips r) = set (answer_ips resp) \<union> set (cache_Get now (question_host net name) (sn_cache s)) \<union>
      (case res of Inl e \<Rightarrow> {} | Inr a \<Rightarrow> set (rs_ips a)) \<and>
    (rs_ttl r, rs_dnssec r, rs_divergence r, rs_results r) = (case res of
       Inl e \<Rightarrow> (60 * second, False, 0, [])
     | Inr a \<Rightarrow> (rs_ttl a, rs_dnssec a, rs_divergence a, rs_results a))"
proof -
  let ?h = "question_host net name"
  define s1 where "s1 = snd (handleQuery net clk ord (Inr resp) [(name, qt)] s)"
  have inv: "snoop_inv s1" using handleQuery_inv [OF assms(1,2)] by (simp add: s1_def)
  have obs: "set (cache_Get now ?h (sn_cache s1)) = set (answer_ips resp) \<union> set (cache_Get now ?h (sn_cache s))"
    unfolding s1_def using assms(6) by (intro handled_cache assms(1,2,4,5,7)) simp
  then have ne: "cache_Get now ?h (sn_cache s1) \<noteq> []" using assms(5) by auto
  have "sn_multi s1 = sn_multi s" by (simp add: s1_def handle_one [OF assms(4,5)])
  then have m: "multi_Resolve (snd (now, env)) (sn_multi s1) ?h = (res, m')" using assms(8) by simp
  have pos: "rs_ttl a \<noteq> 0" if "res = Inr a" for a
    using multi.answers [OF assms(3), of "sn_multi s" ?h a] assms(1,8) that
    by (simp add: snoop_inv_def resolution_ok_def ttlFloor_def second_def)
  note E = snoop_Resolve_eq [OF m]
  obtain r where r: "fst (snoop_Resolve (now, env) s1 ?h) = Inr r"
    using observed_resolved [of "(now, env)" ?h s1] ne by auto
  have "resolution_ok ?h r" using snoop.answers [OF _ inv r] assms(3) by (simp add: snoop_env_ok_def)
  moreover have "snoop_Resolve (now, env) s1 ?h = (Inr r, s1\<lparr>sn_multi := m'\<rparr>)"
    using r E(1) by (simp add: prod_eq_iff)
  moreover have "distinct (rs_ips r) \<and> set (rs_ips r) = set (answer_ips resp) \<union> set (cache_Get now ?h (sn_cache s)) \<union>
      (case res of Inl e \<Rightarrow> {} | Inr a \<Rightarrow> set (rs_ips a)) \<and>
    (rs_ttl r, rs_dnssec r, rs_divergence r, rs_results r) = (case res of
       Inl e \<Rightarrow> (60 * second, False, 0, [])
     | Inr a \<Rightarrow> (rs_ttl a, rs_dnssec a, rs_divergence a, rs_results a))"
  proof (cases res)
    case (Inl e)
    have "r = empty_resolution\<lparr>rs_hostname := ?h, rs_ips := unionIPs (cache_Get now ?h (sn_cache s1)) [],
        rs_ttl := defaultPollInterval\<rparr>"
      using r ne unfolding E(2) by (simp add: Inl)
    then show ?thesis
      by (simp add: Inl set_unionIPs distinct_unionIPs obs empty_resolution_def defaultPollInterval_def)
  next
    case (Inr a)
    have "r = \<lparr>rs_hostname = ?h, rs_ips = unionIPs (cache_Get now ?h (sn_cache s1)) (rs_ips a), rs_chain = [],
        rs_ttl = rs_ttl a, rs_dnssec = rs_dnssec a, rs_divergence = rs_divergence a, rs_results = rs_results a\<rparr>"
      using r pos [OF Inr] unfolding E(2) by (simp add: Inr)
    then show ?thesis by (simp add: Inr set_unionIPs distinct_unionIPs obs)
  qed
  ultimately show ?thesis unfolding s1_def [symmetric] by (intro exI [of _ r] exI [of _ "s1\<lparr>sn_multi := m'\<rparr>"]) simp
qed

lemma new_snoop_inv: "snoop_inv (NewSnoopResolver sys up)"
  by (simp add: snoop_inv_def NewSnoopResolver_def multi_inv_def cache_text_def NewMultiResolver_def
      NewIPCache_def cache_ok_def cache_entries_def ips_ok_def Let_def)

lemma snoop_resolve_covers_observed_witness:
  "\<exists>r s'. snoop_Resolve (10, sample_env (sample_net []) 0)
      (snd (handleQuery (sample_net []) (\<lambda>n. int n) rev
        (Inr \<lparr>dm_rcode = 0, dm_ad = False, dm_answer = [RR_A 0x01020304 30]\<rparr>) [(''a.io'', TypeA)]
        (NewSnoopResolver ''10.0.0.10:53'' []))) ''a.io'' = (Inr r, s') \<and>
    ''1.2.3.4'' \<in> set (rs_ips r)"
proof -
  let ?resp = "\<lparr>dm_rcode = 0, dm_ad = False, dm_answer = [RR_A 0x01020304 30]\<rparr>"
  have h: "question_host (sample_net []) ''a.io'' = ''a.io''"
    by (simp add: question_host_def sample_net_def)
  have ip: "answer_ips ?resp = [''1.2.3.4'']" by code_simp
  have ttl: "answer_ttl ?resp = 30 * second"
    by (simp add: answer_ttl_def record_ttl_def second_def min_def)
  have e: "cache_entries (sn_cache (NewSnoopResolver ''10.0.0.10:53'' [])) ''a.io'' = []"
    by (simp add: NewSnoopResolver_def NewIPCache_def cache_entries_def Let_def)
  obtain res m' where m: "multi_Resolve (sample_env (sample_net []) 0) (sn_multi (NewSnoopResolver ''10.0.0.10:53'' []))
      (question_host (sample_net []) ''a.io'') = (res, m')"
    by (cases "multi_Resolve (sample_env (sample_net []) 0) (sn_multi (NewSnoopResolver ''10.0.0.10:53'' []))
      (question_host (sample_net []) ''a.io'')")
  have c: "\<forall>i \<le> 2 + length (cache_entries (sn_cache (NewSnoopResolver ''10.0.0.10:53'' []))
      (question_host (sample_net []) ''a.io'')). int i \<le> 10" by (simp add: h e)
  have l: "10 < int 2 + answer_ttl ?resp" by (simp add: ttl second_def)
  have ne: "answer_ips ?resp \<noteq> []" by (simp add: ip)
  obtain r s' where R: "snoop_Resolve (10, sample_env (sample_net []) 0)
      (snd (handleQuery (sample_net []) int rev (Inr ?resp) [(''a.io'', TypeA)] (NewSnoopResolver ''10.0.0.10:53'' [])))
      (question_host (sample_net []) ''a.io'') = (Inr r, s')"
    and S: "set (rs_ips r) = set (answer_ips ?resp) \<union> set (cache_Get 10 (question_host (sample_net []) ''a.io'')
        (sn_cache (NewSnoopResolver ''10.0.0.10:53'' []))) \<union> (case res of Inl e \<Rightarrow> {} | Inr a \<Rightarrow> set (rs_ips a))"
    using snoop_resolve_covers_observed [OF new_snoop_inv range_order_rev sample_env_ok disjI1 [OF refl] ne c l m]
    by (elim exE conjE)
  from S have "''1.2.3.4'' \<in> set (rs_ips r)" by (simp add: ip)
  with R show ?thesis unfolding h by (intro exI conjI)
qed

text \<open>The resolution of the snoop resolver never has a CNAME chain, whatever the multi resolver
  returned, so a bound on the chain's length cannot be checked on it.\<close>

lemma snoop_drops_chain: "fst (snoop_Resolve env s h) = Inr r \<Longrightarrow> rs_chain r = []"
  by (auto simp: snoop_Resolve_def empty_resolution_def Let_def split: prod.splits sum.splits if_splits)

end
