(* ===== verification/SnoopServer.thy ===== *)
theory SnoopServer
  imports SnoopResolver
begin

text \<open>
  internal/dns/snoop\_resolver.go: the life of the proxy's UDP server (Start, Shutdown). ListenAndServe of the
  DNS library runs in a goroutine of its own: it calls NotifyStartedFunc once it listens, or returns an error.
  Start returns at the first of three events; what the goroutine does afterwards still changes the server.
\<close>

section \<open>State and operations\<close>

definition defaultSnoopPort :: string where
  "defaultSnoopPort = ''5353''"

record snoop_server =
  sv_addr :: string
  sv_ready :: bool
  sv_listening :: bool

definition NewSnoopServer :: "string \<Rightarrow> snoop_server" where
  "NewSnoopServer listen =
     \<lparr>sv_addr = (if listen = [] then ''0.0.0.0:'' @ defaultSnoopPort else listen), sv_ready = False, sv_listening = False\<rparr>"

datatype server_event = Listening | ListenFailed string | ContextDone string

fun server_step :: "server_event \<Rightarrow> snoop_server \<Rightarrow> snoop_server" where
  "server_step Listening s = s\<lparr>sv_ready := True, sv_listening := True\<rparr>"
| "server_step (ListenFailed e) s = s\<lparr>sv_listening := False\<rparr>"
| "server_step (ContextDone e) s = s"

fun start_result :: "server_event \<Rightarrow> string option" where
  "start_result Listening = None"
| "start_result (ListenFailed e) = Some (''snoop DNS proxy: '' @ e)"
| "start_result (ContextDone e) = Some e"

text \<open>Start, with the event that ends its wait and the ones that follow it.\<close>

definition snoop_Start :: "server_event \<Rightarrow> server_event list \<Rightarrow> snoop_server \<Rightarrow> string option \<times> snoop_server" where
  "snoop_Start first later s = (start_result first, fold server_step (first # later) s)"

definition snoop_Shutdown :: "snoop_server \<Rightarrow> snoop_server" where
  "snoop_Shutdown s = s\<lparr>sv_listening := False\<rparr>"

definition Observations :: "snoop_resolver \<Rightarrow> observation_store" where
  "Observations s = sn_observations s"

section \<open>Lemmas\<close>

lemma server_addr [simp]: "sv_addr (fold server_step evs s) = sv_addr s"
proof (induction evs arbitrary: s)
  case (Cons ev evs)
  then show ?case by (cases ev) simp_all
qed simp

lemma start_ok_iff: "fst (snoop_Start first later s) = None \<longleftrightarrow> first = Listening"
  by (cases first) (simp_all add: snoop_Start_def)

text \<open>Start succeeds exactly when the server listens, and then it is ready.\<close>

lemma start_ok_ready: "snoop_Start first later s = (None, s') \<Longrightarrow> sv_ready s'"
proof -
  assume "snoop_Start first later s = (None, s')"
  then have "first = Listening" "s' = fold server_step later (server_step Listening s)"
    using start_ok_iff [of first later s] by (simp_all add: snoop_Start_def)
  moreover have "sv_ready t \<Longrightarrow> sv_ready (fold server_step later t)" for t
  proof (induction later arbitrary: t)
    case (Cons ev later)
    then show ?case by (cases ev) simp_all
  qed simp
  ultimately show ?thesis by simp
qed

text \<open>A server that comes up after the wait is over serves, although Start reported a failure.\<close>

lemma late_start_serves:
  "snoop_Start (ContextDone e) [Listening] s = (Some e, s\<lparr>sv_ready := True, sv_listening := True\<rparr>)"
  by (simp add: snoop_Start_def)

lemma shutdown_stops [simp]: "\<not> sv_listening (snoop_Shutdown s)"
  by (simp add: snoop_Shutdown_def)

end
