(* ===== verification/GoRegexp.thy ===== *)
theory GoRegexp
  imports GoLib
begin

text \<open>
  The part of Go's package regexp the program uses: a compiled expression anchored at both ends, and
  MatchString. The syntax tree has the operators of the one expression in the repository; its language is
  the usual one (\<open>rx_lang\<close>), and \<open>rx_match\<close> decides it by derivatives, so that a match can be computed.
\<close>

section \<open>Expressions\<close>

datatype rx =
    RZero
  | REps
  | RCls "char \<Rightarrow> bool"
  | RSeq rx rx
  | RAlt rx rx
  | RStar rx

definition ROpt :: "rx \<Rightarrow> rx" where
  "ROpt r = RAlt r REps"

definition RPlus :: "rx \<Rightarrow> rx" where
  "RPlus r = RSeq r (RStar r)"

text \<open>The bounded repetition \<open>r{0,n}\<close>.\<close>

fun RUpto :: "nat \<Rightarrow> rx \<Rightarrow> rx" where
  "RUpto 0 r = REps"
| "RUpto (Suc n) r = ROpt (RSeq r (RUpto n r))"

fun RLit :: "string \<Rightarrow> rx" where
  "RLit [] = REps"
| "RLit (c # s) = RSeq (RCls (\<lambda>d. d = c)) (RLit s)"

section \<open>The language\<close>

primrec rx_lang :: "rx \<Rightarrow> string set" where
  "rx_lang RZero = {}"
| "rx_lang REps = {[]}"
| "rx_lang (RCls p) = {[c] | c. p c}"
| "rx_lang (RSeq a b) = {s @ t | s t. s \<in> rx_lang a \<and> t \<in> rx_lang b}"
| "rx_lang (RAlt a b) = rx_lang a \<union> rx_lang b"
| "rx_lang (RStar r) = {concat ss | ss. set ss \<subseteq> rx_lang r}"

section \<open>The matcher\<close>

fun rx_nullable :: "rx \<Rightarrow> bool" where
  "rx_nullable RZero \<longleftrightarrow> False"
| "rx_nullable REps \<longleftrightarrow> True"
| "rx_nullable (RCls p) \<longleftrightarrow> False"
| "rx_nullable (RSeq a b) \<longleftrightarrow> rx_nullable a \<and> rx_nullable b"
| "rx_nullable (RAlt a b) \<longleftrightarrow> rx_nullable a \<or> rx_nullable b"
| "rx_nullable (RStar r) \<longleftrightarrow> True"

fun rx_deriv :: "char \<Rightarrow> rx \<Rightarrow> rx" where
  "rx_deriv c RZero = RZero"
| "rx_deriv c REps = RZero"
| "rx_deriv c (RCls p) = (if p c then REps else RZero)"
| "rx_deriv c (RSeq a b) =
     (if rx_nullable a then RAlt (RSeq (rx_deriv c a) b) (rx_deriv c b) else RSeq (rx_deriv c a) b)"
| "rx_deriv c (RAlt a b) = RAlt (rx_deriv c a) (rx_deriv c b)"
| "rx_deriv c (RStar r) = RSeq (rx_deriv c r) (RStar r)"

fun rx_match :: "rx \<Rightarrow> string \<Rightarrow> bool" where
  "rx_match r [] \<longleftrightarrow> rx_nullable r"
| "rx_match r (c # s) \<longleftrightarrow> rx_match (rx_deriv c r) s"

lemma nullable_iff: "rx_nullable r \<longleftrightarrow> [] \<in> rx_lang r"
  by (induction r) (auto intro: exI [of _ "[]"])

lemma star_Cons:
  "c # s \<in> rx_lang (RStar r) \<longleftrightarrow> (\<exists>t u. c # t \<in> rx_lang r \<and> u \<in> rx_lang (RStar r) \<and> s = t @ u)"
proof
  assume "c # s \<in> rx_lang (RStar r)"
  then obtain ss where "c # s = concat ss" "set ss \<subseteq> rx_lang r" by auto
  then show "\<exists>t u. c # t \<in> rx_lang r \<and> u \<in> rx_lang (RStar r) \<and> s = t @ u"
  proof (induction ss)
    case (Cons x ss)
    then show ?case by (cases x) auto
  qed simp
next
  assume "\<exists>t u. c # t \<in> rx_lang r \<and> u \<in> rx_lang (RStar r) \<and> s = t @ u"
  then obtain t ss where t: "c # t \<in> rx_lang r" "set ss \<subseteq> rx_lang r" "s = t @ concat ss" by auto
  then have "c # s = concat ((c # t) # ss)" "set ((c # t) # ss) \<subseteq> rx_lang r" by auto
  then show "c # s \<in> rx_lang (RStar r)" unfolding rx_lang.simps by blast
qed

lemma deriv_iff: "s \<in> rx_lang (rx_deriv c r) \<longleftrightarrow> c # s \<in> rx_lang r"
proof (induction r arbitrary: s)
  case (RSeq a b)
  have "c # s \<in> rx_lang (RSeq a b) \<longleftrightarrow>
      (\<exists>t u. c # t \<in> rx_lang a \<and> u \<in> rx_lang b \<and> s = t @ u) \<or> ([] \<in> rx_lang a \<and> c # s \<in> rx_lang b)"
    by (auto simp: Cons_eq_append_conv)
  then show ?case using RSeq.IH by (auto simp: nullable_iff)
next
  case (RStar r)
  then show ?case unfolding star_Cons by auto
qed auto

lemma rx_match_iff: "rx_match r s \<longleftrightarrow> s \<in> rx_lang r"
  by (induction s arbitrary: r) (simp_all add: nullable_iff deriv_iff)

section \<open>Languages of the derived operators\<close>

lemma lang_Opt [simp]: "rx_lang (ROpt r) = insert [] (rx_lang r)"
  by (auto simp: ROpt_def)

lemma lang_Lit [simp]: "rx_lang (RLit s) = {s}"
  by (induction s) auto

lemma lang_Plus: "s \<in> rx_lang (RPlus r) \<longleftrightarrow> (\<exists>ss. ss \<noteq> [] \<and> set ss \<subseteq> rx_lang r \<and> s = concat ss)"
proof
  assume "s \<in> rx_lang (RPlus r)"
  then obtain t ss where "t \<in> rx_lang r" "set ss \<subseteq> rx_lang r" "s = t @ concat ss"
    by (auto simp: RPlus_def)
  then show "\<exists>ss. ss \<noteq> [] \<and> set ss \<subseteq> rx_lang r \<and> s = concat ss"
    by (intro exI [of _ "t # ss"]) auto
next
  assume "\<exists>ss. ss \<noteq> [] \<and> set ss \<subseteq> rx_lang r \<and> s = concat ss"
  then obtain t ss where "set (t # ss) \<subseteq> rx_lang r" "s = concat (t # ss)"
    by (metis neq_Nil_conv)
  then show "s \<in> rx_lang (RPlus r)" by (auto simp: RPlus_def)
qed

lemma lang_Cls_star: "rx_lang (RStar (RCls p)) = {s. list_all p s}"
proof -
  have "set ss \<subseteq> rx_lang (RCls p) \<Longrightarrow> list_all p (concat ss)" for ss
    by (auto simp: list_all_iff)
  moreover have "\<exists>ss. s = concat ss \<and> set ss \<subseteq> rx_lang (RCls p)" if "list_all p s" for s
    using that by (intro exI [of _ "map (\<lambda>c. [c]) s"]) (auto simp: list_all_iff)
  ultimately show ?thesis by auto
qed

lemma lang_Cls_Seq: "rx_lang (RSeq (RCls p) b) = {c # s | c s. p c \<and> s \<in> rx_lang b}"
proof -
  have "c # s \<in> rx_lang (RSeq (RCls p) b)" if "p c" "s \<in> rx_lang b" for c s
    using that by (auto intro: exI [of _ "[c]"])
  then show ?thesis by auto
qed

lemma lang_Cls_Upto: "rx_lang (RUpto n (RCls p)) = {s. length s \<le> n \<and> list_all p s}"
proof (induction n)
  case (Suc n)
  have "s \<in> rx_lang (RUpto (Suc n) (RCls p)) \<longleftrightarrow> length s \<le> Suc n \<and> list_all p s" for s
    unfolding RUpto.simps lang_Opt lang_Cls_Seq Suc.IH by (cases s) auto
  then show ?case by blast
qed auto

end
