(* ===== verification/GoFmt.thy ===== *)
theory GoFmt
  imports GoLib
begin

text \<open>
  The verbs of package fmt the reports and messages use beside \<open>%s\<close> and \<open>%d\<close>: \<open>%q\<close>, the Go literal of a
  byte string (the escapes of ASCII; a byte of a printable multi-byte character stays as it is), and the
  width of \<open>%-32s\<close>, which counts the runes of a UTF-8 text.
\<close>

definition hex_digit :: "nat \<Rightarrow> char" where
  "hex_digit n = (if n < 10 then digit_char n else char_of (87 + n))"

definition go_quote_char :: "char \<Rightarrow> string" where
  "go_quote_char c = (let n = (of_char c :: nat) in
     if n = 34 \<or> n = 92 then [CHR 0x5c, c]
     else if n = 7 then [CHR 0x5c, CHR ''a'']
     else if n = 8 then [CHR 0x5c, CHR ''b'']
     else if n = 12 then [CHR 0x5c, CHR ''f'']
     else if n = 10 then [CHR 0x5c, CHR ''n'']
     else if n = 13 then [CHR 0x5c, CHR ''r'']
     else if n = 9 then [CHR 0x5c, CHR ''t'']
     else if n = 11 then [CHR 0x5c, CHR ''v'']
     else if n < 32 \<or> n = 127 then [CHR 0x5c, CHR ''x'', hex_digit (n div 16), hex_digit (n mod 16)]
     else [c])"

definition go_quote :: "string \<Rightarrow> string" where
  "go_quote s = [CHR 0x22] @ concat (map go_quote_char s) @ [CHR 0x22]"

definition rune_count :: "string \<Rightarrow> nat" where
  "rune_count s = length (filter (\<lambda>c. (of_char c :: nat) div 64 \<noteq> 2) s)"

definition pad_right :: "nat \<Rightarrow> string \<Rightarrow> string" where
  "pad_right w s = s @ replicate (w - rune_count s) (CHR '' '')"

abbreviation newline :: string where "newline \<equiv> [CHR 0x0a]"

end
