(* ===== verification/Webhook.thy ===== *)
theory Webhook
  imports GoRegexp GoFmt HostLoop
begin

text \<open>
  internal/webhook/validate.go: the validating admission webhook for both policy kinds. Decoding of the
  HTTP body and of the object inside it (encoding/json) is an argument: the decoded request, or the error.
\<close>

section \<open>The expression for names\<close>

definition is_alpha :: "char \<Rightarrow> bool" where
  "is_alpha c \<longleftrightarrow> (let n = (of_char c :: nat) in (97 \<le> n \<and> n \<le> 122) \<or> (65 \<le> n \<and> n \<le> 90))"

definition is_alnum :: "char \<Rightarrow> bool" where
  "is_alnum c \<longleftrightarrow> is_alpha c \<or> (let n = (of_char c :: nat) in 48 \<le> n \<and> n \<le> 57)"

definition is_alnum_hyphen :: "char \<Rightarrow> bool" where
  "is_alnum_hyphen c \<longleftrightarrow> is_alnum c \<or> c = CHR ''-''"

definition label_rx :: rx where
  "label_rx = RSeq (RCls is_alnum) (ROpt (RSeq (RUpto 61 (RCls is_alnum_hyphen)) (RCls is_alnum)))"

definition fqdnRE :: rx where
  "fqdnRE = RSeq (ROpt (RLit ''*.''))
     (RSeq (RPlus (RSeq label_rx (RLit ''.'')))
       (RSeq (RCls is_alpha) (RSeq (RCls is_alpha) (RStar (RCls is_alpha)))))"

section \<open>Validation\<close>

definition rule_label :: "nat \<Rightarrow> string \<Rightarrow> string" where
  "rule_label i m = ''egress['' @ itoa i @ ''](''  @ go_quote m @ '')''"

fun port_errors :: "nat \<Rightarrow> nat \<Rightarrow> policy_port list \<Rightarrow> string list" where
  "port_errors i j [] = []"
| "port_errors i j (p # ps) =
     (let pl = ''egress['' @ itoa i @ ''].ports['' @ itoa j @ '']'' in
      (if sint (pp_port p) < 1 \<or> 65535 < sint (pp_port p)
       then [pl @ '': port '' @ itoa_int (sint (pp_port p)) @ '' out of range 1'' @
             [CHR 0xE2, CHR 0x80, CHR 0x93] @ ''65535'']
       else []) @
      (if pp_protocol p \<in> {''TCP'', ''UDP'', ''SCTP'', []} then []
       else [pl @ '': unknown protocol '' @ go_quote (pp_protocol p)]) @
      port_errors i (Suc j) ps)"

definition rule_errors :: "nat \<Rightarrow> bool \<Rightarrow> string list \<Rightarrow> fqdn_rule \<Rightarrow> string list" where
  "rule_errors i snoop seen rule =
     (let m = fr_match rule; label = rule_label i m in
      (if has_prefix m ''*.'' \<and> \<not> snoop
       then [label @ '': wildcards require the snoop resolver (--enable-snoop-resolver)''] else []) @
      (if \<not> rx_match fqdnRE m then [label @ '': not a valid FQDN or wildcard FQDN''] else []) @
      (if parse_ip m \<noteq> None then [label @ '': use NetworkPolicy ipBlock for raw IPs, not FQDNs''] else []) @
      (if m \<in> set seen then [label @ '': duplicate match rule''] else []) @
      port_errors i 0 (fr_ports rule))"

fun validate_rules :: "nat \<Rightarrow> bool \<Rightarrow> string list \<Rightarrow> fqdn_rule list \<Rightarrow> string list" where
  "validate_rules i snoop seen [] = []"
| "validate_rules i snoop seen (rule # rules) =
     (if fr_match rule = [] then
        (rule_label i (fr_match rule) @ '': match is required'') # validate_rules (Suc i) snoop seen rules
      else rule_errors i snoop seen rule @ validate_rules (Suc i) snoop (fr_match rule # seen) rules)"

definition validateEgressRules :: "fqdn_rule list \<Rightarrow> bool \<Rightarrow> string list" where
  "validateEgressRules rules snoop = validate_rules 0 snoop [] rules"

section \<open>The handlers\<close>

text \<open>The request inside a review: its UID and what decoding its object gives.\<close>

record 'o review_request =
  rq_uid :: string
  rq_object :: "string + 'o"

text \<open>An HTTP error with its body, or a review response: the UID, the verdict, the message of a denial.\<close>

datatype webhook_reply = BadRequest string | Verdict string bool "string option"

definition decodeReview ::
  "string \<Rightarrow> string + 'o review_request option \<Rightarrow> string + 'o review_request" where
  "decodeReview content_type body =
     (if \<not> contains_str content_type ''application/json'' then Inl ''expected Content-Type application/json''
      else (case body of
        Inl e \<Rightarrow> Inl (''decode AdmissionReview: '' @ e)
      | Inr None \<Rightarrow> Inl ''AdmissionReview.Request is nil''
      | Inr (Some rq) \<Rightarrow> Inr rq))"

definition respond :: "string \<Rightarrow> bool \<Rightarrow> string \<Rightarrow> webhook_reply" where
  "respond uid allowed msg = Verdict uid allowed (if \<not> allowed then Some msg else None)"

definition admitFQDNNetworkPolicy ::
  "bool \<Rightarrow> string \<Rightarrow> string + fqdn_policy review_request option \<Rightarrow> webhook_reply" where
  "admitFQDNNetworkPolicy snoop content_type body = (case decodeReview content_type body of
     Inl e \<Rightarrow> BadRequest e
   | Inr rq \<Rightarrow> (case rq_object rq of
       Inl e \<Rightarrow> respond (rq_uid rq) False (''failed to decode object: '' @ e)
     | Inr fp \<Rightarrow>
         let errs = validateEgressRules (sp_egress (fp_spec fp)) snoop in
         if errs \<noteq> [] then respond (rq_uid rq) False (join_str ''; '' errs)
         else respond (rq_uid rq) True []))"

definition admitClusterFQDNNetworkPolicy ::
  "bool \<Rightarrow> string \<Rightarrow> string + cluster_policy review_request option \<Rightarrow> webhook_reply" where
  "admitClusterFQDNNetworkPolicy snoop content_type body = (case decodeReview content_type body of
     Inl e \<Rightarrow> BadRequest e
   | Inr rq \<Rightarrow> (case rq_object rq of
       Inl e \<Rightarrow> respond (rq_uid rq) False (''failed to decode object: '' @ e)
     | Inr cp \<Rightarrow>
         let errs = validateEgressRules (cs_egress (cp_spec cp)) snoop in
         if errs \<noteq> [] then respond (rq_uid rq) False (join_str ''; '' errs)
         else respond (rq_uid rq) True []))"

text \<open>The routes of the handler: the two reviews and the health probe; another path is not found.\<close>

datatype http_reply = Reviewed webhook_reply | Healthy | PageNotFound

definition Handler ::
  "bool \<Rightarrow> string \<Rightarrow> string \<Rightarrow> string + fqdn_policy review_request option \<Rightarrow>
   string + cluster_policy review_request option \<Rightarrow> http_reply" where
  "Handler snoop path content_type body cluster_body =
     (if path = ''/validate/fqdnnetworkpolicy'' then Reviewed (admitFQDNNetworkPolicy snoop content_type body)
      else if path = ''/validate/clusterfqdnnetworkpolicy''
      then Reviewed (admitClusterFQDNNetworkPolicy snoop content_type cluster_body)
      else if path = ''/healthz'' then Healthy else PageNotFound)"

section \<open>Valid names\<close>

text \<open>
  What the expression is meant to describe: at least two dot-separated parts after an optional wildcard
  prefix, labels of 1 to 63 letters, digits and inner hyphens, and a last part of two or more letters.
\<close>

definition label_ok :: "string \<Rightarrow> bool" where
  "label_ok l \<longleftrightarrow> l \<noteq> [] \<and> length l \<le> 63 \<and> list_all is_alnum_hyphen l \<and> is_alnum (hd l) \<and> is_alnum (last l)"

definition tld_ok :: "string \<Rightarrow> bool" where
  "tld_ok t \<longleftrightarrow> 2 \<le> length t \<and> list_all is_alpha t"

definition fqdn_body :: "string \<Rightarrow> bool" where
  "fqdn_body b \<longleftrightarrow> (let ps = split_on CHR ''.'' b in
     2 \<le> length ps \<and> list_all label_ok (butlast ps) \<and> tld_ok (last ps))"

definition valid_fqdn :: "string \<Rightarrow> bool" where
  "valid_fqdn s \<longleftrightarrow> fqdn_body (trim_prefix s ''*.'')"

section \<open>Lemmas\<close>

lemma hyphen_class: "is_alnum c \<Longrightarrow> is_alnum_hyphen c"
  by (simp add: is_alnum_hyphen_def)

lemma alpha_alnum: "is_alpha c \<Longrightarrow> is_alnum c"
  by (simp add: is_alnum_def)

lemma not_alnum: "\<not> is_alnum_hyphen CHR ''.''" "\<not> is_alnum_hyphen CHR ''*''" "\<not> is_alpha CHR ''.''"
  "\<not> is_alpha CHR ''*''"
  by (simp_all add: is_alnum_hyphen_def is_alnum_def is_alpha_def)

lemma label_lang: "s \<in> rx_lang label_rx \<longleftrightarrow> label_ok s"
proof (cases s rule: rev_cases)
  case Nil
  then show ?thesis by (simp add: label_rx_def lang_Cls_Seq label_ok_def del: rx_lang.simps)
next
  case (snoc m d)
  show ?thesis
  proof (cases m)
    case Nil
    with snoc show ?thesis
      by (auto simp: label_rx_def lang_Cls_Seq label_ok_def hyphen_class simp del: rx_lang.simps(4))
  next
    case (Cons c m')
    have "m' @ [d] \<in> rx_lang (RSeq (RUpto 61 (RCls is_alnum_hyphen)) (RCls is_alnum)) \<longleftrightarrow>
        length m' \<le> 61 \<and> list_all is_alnum_hyphen m' \<and> is_alnum d"
      by (auto simp: lang_Cls_Upto simp del: RUpto.simps)
    then have "s \<in> rx_lang label_rx \<longleftrightarrow> is_alnum c \<and> length m' \<le> 61 \<and> list_all is_alnum_hyphen m' \<and> is_alnum d"
      unfolding label_rx_def lang_Cls_Seq lang_Opt by (simp add: snoc Cons)
    then show ?thesis by (auto simp: label_ok_def snoc Cons hyphen_class)
  qed
qed

lemma tld_lang:
  "s \<in> rx_lang (RSeq (RCls is_alpha) (RSeq (RCls is_alpha) (RStar (RCls is_alpha)))) \<longleftrightarrow> tld_ok s"
proof -
  have "s \<in> rx_lang (RSeq (RCls is_alpha) (RSeq (RCls is_alpha) (RStar (RCls is_alpha)))) \<longleftrightarrow>
      (\<exists>c d t. s = c # d # t \<and> is_alpha c \<and> is_alpha d \<and> list_all is_alpha t)"
    unfolding lang_Cls_Seq lang_Cls_star by blast
  also have "\<dots> \<longleftrightarrow> tld_ok s"
    by (cases s; cases "tl s") (auto simp: tld_ok_def)
  finally show ?thesis .
qed

lemma label_no_dot: "label_ok l \<Longrightarrow> CHR ''.'' \<notin> set l"
  using not_alnum(1) by (auto simp: label_ok_def list_all_iff)

lemma tld_no_dot: "tld_ok t \<Longrightarrow> CHR ''.'' \<notin> set t"
  using not_alnum(3) by (auto simp: tld_ok_def list_all_iff)

lemma join_labels: "concat (map (\<lambda>l. l @ ''.'') ls) @ t = join_str ''.'' (ls @ [t])"
proof (induction ls)
  case (Cons l ls)
  then show ?case by (cases ls) simp_all
qed simp

lemma body_lang:
  "b \<in> rx_lang (RSeq (RPlus (RSeq label_rx (RLit ''.'')))
       (RSeq (RCls is_alpha) (RSeq (RCls is_alpha) (RStar (RCls is_alpha))))) \<longleftrightarrow> fqdn_body b"
proof -
  let ?L = "rx_lang (RSeq label_rx (RLit ''.''))"
  have L: "x \<in> ?L \<longleftrightarrow> (\<exists>l. label_ok l \<and> x = l @ ''.'')" for x
    by (auto simp: label_lang simp del: RLit.simps)
  have ex: "(\<exists>ss. ss \<noteq> [] \<and> set ss \<subseteq> ?L \<and> s = concat ss) \<longleftrightarrow>
      (\<exists>ls. ls \<noteq> [] \<and> list_all label_ok ls \<and> s = concat (map (\<lambda>l. l @ ''.'') ls))" for s
  proof
    assume "\<exists>ss. ss \<noteq> [] \<and> set ss \<subseteq> ?L \<and> s = concat ss"
    then obtain ss where ss: "ss \<noteq> []" "set ss \<subseteq> ?L" "s = concat ss" by blast
    from ss(2) have "\<exists>ls. length ls = length ss \<and> list_all label_ok ls \<and> ss = map (\<lambda>l. l @ ''.'') ls"
    proof (induction ss)
      case (Cons x ss)
      then obtain ls l where "length ls = length ss" "list_all label_ok ls" "ss = map (\<lambda>l. l @ ''.'') ls"
        "label_ok l" "x = l @ ''.''" using L by auto
      then show ?case by (intro exI [of _ "l # ls"]) simp
    qed simp
    with ss show "\<exists>ls. ls \<noteq> [] \<and> list_all label_ok ls \<and> s = concat (map (\<lambda>l. l @ ''.'') ls)" by auto
  next
    assume "\<exists>ls. ls \<noteq> [] \<and> list_all label_ok ls \<and> s = concat (map (\<lambda>l. l @ ''.'') ls)"
    then obtain ls where ls: "ls \<noteq> []" "list_all label_ok ls" "s = concat (map (\<lambda>l. l @ ''.'') ls)" by blast
    then have "set (map (\<lambda>l. l @ ''.'') ls) \<subseteq> ?L" using L by (auto simp: list_all_iff)
    with ls show "\<exists>ss. ss \<noteq> [] \<and> set ss \<subseteq> ?L \<and> s = concat ss" by blast
  qed
  have "b \<in> rx_lang (RSeq (RPlus (RSeq label_rx (RLit ''.'')))
       (RSeq (RCls is_alpha) (RSeq (RCls is_alpha) (RStar (RCls is_alpha))))) \<longleftrightarrow>
     (\<exists>ls t. ls \<noteq> [] \<and> list_all label_ok ls \<and> tld_ok t \<and> b = join_str ''.'' (ls @ [t]))"
    unfolding rx_lang.simps(4) [of "RPlus r" for r] lang_Plus ex tld_lang join_labels [symmetric] by blast
  also have "\<dots> \<longleftrightarrow> fqdn_body b"
  proof
    assume "\<exists>ls t. ls \<noteq> [] \<and> list_all label_ok ls \<and> tld_ok t \<and> b = join_str ''.'' (ls @ [t])"
    then obtain ls t where l: "ls \<noteq> []" "list_all label_ok ls" "tld_ok t" "b = join_str ''.'' (ls @ [t])" by blast
    have "split_on CHR ''.'' b = ls @ [t]"
      unfolding l(4) using l(2,3) label_no_dot tld_no_dot by (intro split_join) (auto simp: list_all_iff)
    with l show "fqdn_body b" by (cases ls) (simp_all add: fqdn_body_def)
  next
    assume b: "fqdn_body b"
    let ?ps = "split_on CHR ''.'' b"
    have "?ps = butlast ?ps @ [last ?ps]" by simp
    moreover have "b = join_str ''.'' ?ps" by (simp add: join_split)
    moreover have "butlast ?ps \<noteq> []" using b by (cases ?ps; cases "tl ?ps") (auto simp: fqdn_body_def)
    ultimately show "\<exists>ls t. ls \<noteq> [] \<and> list_all label_ok ls \<and> tld_ok t \<and> b = join_str ''.'' (ls @ [t])"
      using b unfolding fqdn_body_def Let_def by metis
  qed
  finally show ?thesis .
qed

lemma set_join: "set (join_str sep xs) \<subseteq> set sep \<union> \<Union> (set ` set xs)"
  by (induction sep xs rule: join_str.induct) auto

lemma fqdn_body_chars:
  assumes "fqdn_body b" "c \<in> set b"
  shows "is_alnum_hyphen c \<or> c = CHR ''.''"
proof -
  let ?ps = "split_on CHR ''.'' b"
  have ps: "?ps = butlast ?ps @ [last ?ps]" by simp
  have "c \<in> set (join_str ''.'' ?ps)" using assms(2) by (simp add: join_split)
  then have "c = CHR ''.'' \<or> (\<exists>p \<in> set ?ps. c \<in> set p)" using set_join by fastforce
  moreover have "is_alnum_hyphen c" if p: "p \<in> set ?ps" "c \<in> set p" for p
  proof (cases "p = last ?ps")
    case True
    with assms(1) p(2) have "is_alpha c" by (auto simp: fqdn_body_def tld_ok_def list_all_iff Let_def)
    then show ?thesis by (simp add: alpha_alnum hyphen_class)
  next
    case False
    with p(1) have "p \<in> set (butlast ?ps)" by (cases ?ps rule: rev_cases) auto
    with assms(1) p(2) show ?thesis by (auto simp: fqdn_body_def label_ok_def list_all_iff Let_def)
  qed
  ultimately show ?thesis by blast
qed

lemma fqdn_body_no_star: "fqdn_body b \<Longrightarrow> CHR ''*'' \<notin> set b"
  using fqdn_body_chars not_alnum(2) by fastforce

lemma fqdnRE_iff: "rx_match fqdnRE s \<longleftrightarrow> valid_fqdn s"
proof -
  have "rx_match fqdnRE s \<longleftrightarrow> fqdn_body s \<or> (\<exists>b. s = ''*.'' @ b \<and> fqdn_body b)"
    unfolding rx_match_iff fqdnRE_def rx_lang.simps(4) [of "ROpt r" for r] lang_Opt lang_Lit body_lang
    by (auto intro: exI [of _ "''*.''"])
  also have "\<dots> \<longleftrightarrow> valid_fqdn s"
  proof (cases "has_prefix s ''*.''")
    case True
    then obtain b where "s = ''*.'' @ b" by (auto simp: has_prefix_iff)
    then show ?thesis
      using fqdn_body_no_star [of s] by (auto simp: valid_fqdn_def trim_prefix_append [of "''*.''", simplified])
  next
    case False
    then show ?thesis by (auto simp: valid_fqdn_def trim_prefix_def has_prefix_iff)
  qed
  finally show ?thesis .
qed

lemma valid_fqdn_nonempty: "valid_fqdn m \<Longrightarrow> m \<noteq> []"
  by (auto simp: valid_fqdn_def fqdn_body_def trim_prefix_def has_prefix_def)

text \<open>A valid name has a star only in its wildcard prefix.\<close>

lemma contains_char: "contains_str s [c] \<longleftrightarrow> c \<in> set s"
  by (induction s) (auto simp: has_prefix_def)

lemma valid_fqdn_star: "valid_fqdn m \<Longrightarrow> contains_str m ''*'' \<longleftrightarrow> has_prefix m ''*.''"
  using fqdn_body_no_star
  by (auto simp: contains_char valid_fqdn_def trim_prefix_def has_prefix_iff split: if_splits)

subsection \<open>What the errors mean\<close>

definition port_valid :: "policy_port \<Rightarrow> bool" where
  "port_valid p \<longleftrightarrow> 1 \<le> sint (pp_port p) \<and> sint (pp_port p) \<le> 65535 \<and>
     pp_protocol p \<in> {''TCP'', ''UDP'', ''SCTP'', []}"

definition rule_valid :: "bool \<Rightarrow> fqdn_rule \<Rightarrow> bool" where
  "rule_valid snoop r \<longleftrightarrow> valid_fqdn (fr_match r) \<and> parse_ip (fr_match r) = None \<and>
     (has_prefix (fr_match r) ''*.'' \<longrightarrow> snoop) \<and> list_all port_valid (fr_ports r)"

lemma port_errors_Nil: "port_errors i j ps = [] \<longleftrightarrow> list_all port_valid ps"
  by (induction i j ps rule: port_errors.induct) (auto simp: port_valid_def Let_def not_less)

lemma rule_errors_Nil:
  "rule_errors i snoop seen r = [] \<longleftrightarrow> rule_valid snoop r \<and> fr_match r \<notin> set seen"
  by (auto simp: rule_errors_def rule_valid_def fqdnRE_iff port_errors_Nil Let_def)

lemma validate_rules_Nil:
  "validate_rules i snoop seen rules = [] \<longleftrightarrow>
     list_all (rule_valid snoop) rules \<and> distinct (map fr_match rules) \<and>
     set (map fr_match rules) \<inter> set seen = {}"
proof (induction rules arbitrary: i seen)
  case (Cons r rules)
  have "fr_match r = [] \<Longrightarrow> \<not> rule_valid snoop r"
    using valid_fqdn_nonempty by (auto simp: rule_valid_def)
  then show ?case by (auto simp: Cons.IH rule_errors_Nil)
qed simp

lemma validate_Nil:
  "validateEgressRules rules snoop = [] \<longleftrightarrow> list_all (rule_valid snoop) rules \<and> distinct (map fr_match rules)"
  by (simp add: validateEgressRules_def validate_rules_Nil)

subsection \<open>The handlers\<close>

lemma review_eq_iff: "rq = \<lparr>rq_uid = u, rq_object = x\<rparr> \<longleftrightarrow> rq_uid rq = u \<and> rq_object rq = x"
  by (cases rq) auto

text \<open>Both handlers are this one, over the errors they find in the object.\<close>

definition reviewed ::
  "('o \<Rightarrow> string list) \<Rightarrow> string \<Rightarrow> string + 'o review_request option \<Rightarrow> webhook_reply" where
  "reviewed errors content_type body = (case decodeReview content_type body of
     Inl e \<Rightarrow> BadRequest e
   | Inr rq \<Rightarrow> (case rq_object rq of
       Inl e \<Rightarrow> respond (rq_uid rq) False (''failed to decode object: '' @ e)
     | Inr x \<Rightarrow> if errors x \<noteq> [] then respond (rq_uid rq) False (join_str ''; '' (errors x))
         else respond (rq_uid rq) True []))"

lemma handlers_reviewed:
  "admitFQDNNetworkPolicy snoop ct body = reviewed (\<lambda>fp. validateEgressRules (sp_egress (fp_spec fp)) snoop) ct body"
  "admitClusterFQDNNetworkPolicy snoop ct cbody = reviewed (\<lambda>cp. validateEgressRules (cs_egress (cp_spec cp)) snoop) ct cbody"
  unfolding admitFQDNNetworkPolicy_def admitClusterFQDNNetworkPolicy_def reviewed_def Let_def by (rule refl)+

lemma reviewed_allowed:
  "reviewed errors ct body = Verdict uid True m \<longleftrightarrow> m = None \<and> contains_str ct ''application/json'' \<and>
     (\<exists>x. body = Inr (Some \<lparr>rq_uid = uid, rq_object = Inr x\<rparr>) \<and> errors x = [])"
  by (auto simp: reviewed_def decodeReview_def respond_def review_eq_iff split: sum.splits option.splits)

lemma reviewed_denied:
  "reviewed errors ct body = Verdict uid False m \<longleftrightarrow> contains_str ct ''application/json'' \<and>
     ((\<exists>e. body = Inr (Some \<lparr>rq_uid = uid, rq_object = Inl e\<rparr>) \<and> m = Some (''failed to decode object: '' @ e)) \<or>
      (\<exists>x. body = Inr (Some \<lparr>rq_uid = uid, rq_object = Inr x\<rparr>) \<and> errors x \<noteq> [] \<and> m = Some (join_str ''; '' (errors x))))"
  by (auto simp: reviewed_def decodeReview_def respond_def review_eq_iff split: sum.splits option.splits)

lemma reviewed_bad:
  "(\<nexists>e. reviewed errors ct body = BadRequest e) \<longleftrightarrow>
     contains_str ct ''application/json'' \<and> (\<exists>rq. body = Inr (Some rq))"
  by (auto simp: reviewed_def decodeReview_def respond_def split: sum.splits option.splits)

text \<open>No error is the empty text, so no denial has an empty message.\<close>

lemma errors_nonempty:
  "list_all (\<lambda>e. e \<noteq> []) (port_errors i j ps)" "list_all (\<lambda>e. e \<noteq> []) (validate_rules i snoop seen rules)"
proof -
  show p: "list_all (\<lambda>e. e \<noteq> []) (port_errors i j ps)" for i j ps
    by (induction i j ps rule: port_errors.induct) (simp_all add: Let_def)
  have "list_all (\<lambda>e. e \<noteq> []) (rule_errors i snoop seen r)" for i seen r
    using p by (simp add: rule_errors_def rule_label_def Let_def)
  then show "list_all (\<lambda>e. e \<noteq> []) (validate_rules i snoop seen rules)"
    by (induction i snoop seen rules rule: validate_rules.induct) (simp_all add: rule_label_def)
qed

lemma message_nonempty: "validateEgressRules rules snoop \<noteq> [] \<Longrightarrow> join_str ''; '' (validateEgressRules rules snoop) \<noteq> []"
  using errors_nonempty(2) [of 0 snoop "[]" rules]
  by (cases "validateEgressRules rules snoop"; cases "tl (validateEgressRules rules snoop)")
    (auto simp: validateEgressRules_def)

section \<open>Properties\<close>

text \<open>C15. The expression is the grammar of names it stands for. MatchString of fqdnRE decides exactly:
  after an optional "*." at the front, at least two dot-separated parts, all but the last made of 1 to 63
  letters, digits and hyphens with no hyphen at either end, the last of at least two letters. (The
  total length is not bounded here.)\<close>

theorem fqdn_expression_grammar: "rx_match fqdnRE s \<longleftrightarrow> valid_fqdn s"
  by (rule fqdnRE_iff)

text \<open>C33. What the webhook answers. For either kind: a review is allowed, without a message, exactly when its
  content type is JSON, it and its object decode, and the egress rules are all valid and name distinct hosts: a
  valid name that is no IP address, a wildcard only with the snoop resolver, ports within 1 to 65535 and a
  known protocol. It is denied exactly when the object does not decode or the rules are not so, with the
  decoding error or the joined errors of the rules, which are not empty, as its message. Both answer with the
  UID of the request. It is a bad request when it is not JSON or has no request.\<close>

theorem webhook_admits_exactly:
  "(admitFQDNNetworkPolicy snoop ct body = Verdict uid True m \<longleftrightarrow> m = None \<and>
     contains_str ct ''application/json'' \<and> (\<exists>fp. body = Inr (Some \<lparr>rq_uid = uid, rq_object = Inr fp\<rparr>) \<and>
       list_all (rule_valid snoop) (sp_egress (fp_spec fp)) \<and> distinct (map fr_match (sp_egress (fp_spec fp))))) \<and>
   (admitFQDNNetworkPolicy snoop ct body = Verdict uid False m \<longleftrightarrow> contains_str ct ''application/json'' \<and>
     ((\<exists>e. body = Inr (Some \<lparr>rq_uid = uid, rq_object = Inl e\<rparr>) \<and> m = Some (''failed to decode object: '' @ e)) \<or>
      (\<exists>fp errs. body = Inr (Some \<lparr>rq_uid = uid, rq_object = Inr fp\<rparr>) \<and>
        \<not> (list_all (rule_valid snoop) (sp_egress (fp_spec fp)) \<and> distinct (map fr_match (sp_egress (fp_spec fp)))) \<and>
        errs = validateEgressRules (sp_egress (fp_spec fp)) snoop \<and> m = Some (join_str ''; '' errs) \<and> m \<noteq> Some []))) \<and>
   ((\<nexists>e. admitFQDNNetworkPolicy snoop ct body = BadRequest e) \<longleftrightarrow>
     contains_str ct ''application/json'' \<and> (\<exists>rq. body = Inr (Some rq))) \<and>
   (admitClusterFQDNNetworkPolicy snoop ct cbody = Verdict uid True m \<longleftrightarrow> m = None \<and>
     contains_str ct ''application/json'' \<and> (\<exists>cp. cbody = Inr (Some \<lparr>rq_uid = uid, rq_object = Inr cp\<rparr>) \<and>
       list_all (rule_valid snoop) (cs_egress (cp_spec cp)) \<and> distinct (map fr_match (cs_egress (cp_spec cp))))) \<and>
   (admitClusterFQDNNetworkPolicy snoop ct cbody = Verdict uid False m \<longleftrightarrow> contains_str ct ''application/json'' \<and>
     ((\<exists>e. cbody = Inr (Some \<lparr>rq_uid = uid, rq_object = Inl e\<rparr>) \<and> m = Some (''failed to decode object: '' @ e)) \<or>
      (\<exists>cp errs. cbody = Inr (Some \<lparr>rq_uid = uid, rq_object = Inr cp\<rparr>) \<and>
        \<not> (list_all (rule_valid snoop) (cs_egress (cp_spec cp)) \<and> distinct (map fr_match (cs_egress (cp_spec cp)))) \<and>
        errs = validateEgressRules (cs_egress (cp_spec cp)) snoop \<and> m = Some (join_str ''; '' errs) \<and> m \<noteq> Some []))) \<and>
   ((\<nexists>e. admitClusterFQDNNetworkPolicy snoop ct cbody = BadRequest e) \<longleftrightarrow>
     contains_str ct ''application/json'' \<and> (\<exists>rq. cbody = Inr (Some rq)))"
  unfolding handlers_reviewed reviewed_allowed reviewed_denied reviewed_bad validate_Nil [symmetric]
  using message_nonempty by (intro conjI refl) auto

text \<open>C34. What becomes of an admitted rule in the reconciler. A rule the webhook admitted is resolved by
  the namespaced reconciler exactly when it is no wildcard; an admitted wildcard (the snoop resolver is
  then on) is skipped with an error, whatever the resolver, and adds no host: enabling the snoop resolver
  lets wildcards in, but nothing expands them.\<close>

theorem admitted_rule_resolved:
  assumes "validateEgressRules rules snoop = []" and "rule \<in> set rules"
  shows "if has_prefix (fr_match rule) ''*.''
    then snoop \<and> lp_resolved (policy_rule resolve clk env fp rule st) = lp_resolved st \<and>
      lp_resolver (policy_rule resolve clk env fp rule st) = lp_resolver st \<and>
      length (lp_errors (policy_rule resolve clk env fp rule st)) = Suc (length (lp_errors st))
    else lp_resolver (policy_rule resolve clk env fp rule st) = snd (resolve env (lp_resolver st) (fr_match rule))"
proof -
  have v: "rule_valid snoop rule" using assms by (auto simp: validate_Nil list_all_iff)
  then have s: "contains_str (fr_match rule) ''*'' \<longleftrightarrow> has_prefix (fr_match rule) ''*.''"
    by (auto simp: rule_valid_def valid_fqdn_star)
  show ?thesis
  proof (cases "has_prefix (fr_match rule) ''*.''")
    case True
    with v s show ?thesis by (simp add: policy_rule_def rule_valid_def)
  next
    case False
    obtain res st' where t: "timed_resolve resolve clk env (fr_match rule) st = (res, st')"
      by (cases "timed_resolve resolve clk env (fr_match rule) st")
    with False s timed_resolve_simps(2) [OF t] show ?thesis
      by (cases res) (simp_all add: policy_rule_def retain_simps admit_simps)
  qed
qed

definition wildcard_rule :: fqdn_rule where
  "wildcard_rule = \<lparr>fr_match = ''*.a.io'', fr_ports = [\<lparr>pp_protocol = ''TCP'', pp_port = 443\<rparr>]\<rparr>"

lemma wildcard_rule_admitted: "validateEgressRules [wildcard_rule] True = []"
  by code_simp

definition idle_state :: "unit loop_state" where
  "idle_state = \<lparr>lp_resolver = (), lp_churn = None, lp_enricher = None, lp_queue = NewTTLQueue,
     lp_resolved = [], lp_errors = [], lp_log = [], lp_tick = 0\<rparr>"

lemma admitted_rule_resolved_witness:
  "lp_resolved (policy_rule (\<lambda>e s h. (Inl ''timeout'', s)) int () (sample_policy [wildcard_rule] [])
     wildcard_rule idle_state) = []"
  using admitted_rule_resolved [OF wildcard_rule_admitted, of wildcard_rule "\<lambda>e s h. (Inl ''timeout'', s)" int "()"
      "sample_policy [wildcard_rule] []" idle_state]
  by (simp add: wildcard_rule_def idle_state_def has_prefix_def)

end
