(* ===== verification/MainWiring.thy ===== *)
theory MainWiring
  imports Reconcile ClusterReconcile ObsReconcile SnoopServer Webhook
begin

text \<open>
  cmd/main.go: the flags, the choice of the resolver and the objects the three controllers and the webhook
  share. The resolver is a Go interface over three concrete types, so here it is a datatype over the three
  models; the controllers hold one pointer to it, so it lives once, in the shared controller state. Whether
  the calls into controller-runtime and the start of the DNS proxy succeed is an argument.
\<close>

section \<open>Flags\<close>

record main_flags =
  mf_metrics_addr :: string
  mf_probe_addr :: string
  mf_webhook_addr :: string
  mf_leader_elect :: bool
  mf_coredns :: string
  mf_snoop :: bool
  mf_snoop_listen :: string
  mf_snoop_upstream :: string
  mf_multi :: bool
  mf_asn :: string
  mf_token :: string

definition default_flags :: "(string \<Rightarrow> string) \<Rightarrow> main_flags" where
  "default_flags getenv = \<lparr>mf_metrics_addr = '':8080'', mf_probe_addr = '':8081'', mf_webhook_addr = '':9443'',
     mf_leader_elect = False, mf_coredns = [], mf_snoop = False, mf_snoop_listen = ''0.0.0.0:5353'',
     mf_snoop_upstream = [], mf_multi = True, mf_asn = getenv ''FQDNNP_ASN_ENRICHER'',
     mf_token = getenv ''FQDNNP_IPINFO_TOKEN''\<rparr>"

section \<open>The resolver\<close>

datatype wired_resolver = WSnoop snoop_resolver | WMulti multi_resolver | WActive string

text \<open>The constructors of the active resolver; the argument \<open>system\<close> is what systemNameserver returns.\<close>

definition NewActiveResolver :: "string \<Rightarrow> string" where
  "NewActiveResolver system = system"

definition NewCoreDNSResolver :: "string \<Rightarrow> string" where
  "NewCoreDNSResolver addr = addr"

definition extraUpstreams :: "string \<Rightarrow> string list" where
  "extraUpstreams addr = (if addr = [] then [] else [addr])"

definition select_resolver :: "string \<Rightarrow> string option \<Rightarrow> main_flags \<Rightarrow> wired_resolver" where
  "select_resolver system start_err flags =
     (if mf_snoop flags then
        (let upstream = (if mf_snoop_upstream flags = [] then mf_coredns flags else mf_snoop_upstream flags) in
         case start_err of
           Some e \<Rightarrow> WMulti (NewMultiResolver system (extraUpstreams (mf_coredns flags)))
         | None \<Rightarrow> WSnoop (NewSnoopResolver system upstream))
      else if mf_multi flags then WMulti (NewMultiResolver system (extraUpstreams (mf_coredns flags)))
      else if mf_coredns flags \<noteq> [] then WActive (NewCoreDNSResolver (mf_coredns flags))
      else WActive (NewActiveResolver system))"

text \<open>The Snoop field of the controllers: the same object when it is the resolver, nil otherwise.\<close>

definition snoop_of :: "wired_resolver \<Rightarrow> snoop_resolver option" where
  "snoop_of w = (case w of WSnoop s \<Rightarrow> Some s | _ \<Rightarrow> None)"

definition observations_of :: "wired_resolver \<Rightarrow> observation_store option" where
  "observations_of w = map_option Observations (snoop_of w)"

record wired_env =
  wd_net :: dns_net
  wd_aaaa_first :: bool
  wd_now :: gotime
  wd_multi :: multi_env

definition wired_Resolve ::
  "wired_env \<Rightarrow> wired_resolver \<Rightarrow> string \<Rightarrow> (string + resolution) \<times> wired_resolver" where
  "wired_Resolve env w h = (case w of
     WSnoop s \<Rightarrow> (let (r, s') = snoop_Resolve (wd_now env, wd_multi env) s h in (r, WSnoop s'))
   | WMulti m \<Rightarrow> (let (r, m') = multi_Resolve (wd_multi env) m h in (r, WMulti m'))
   | WActive ns \<Rightarrow> (active_Resolve (wd_net env) (wd_aaaa_first env) ns h, WActive ns))"

section \<open>The process\<close>

record running =
  pr_shared :: "wired_resolver controller"
  pr_observation :: obs_controller
  pr_webhook_snoop :: bool

text \<open>Outcomes of the calls main makes, in its order; an error ends the process with code 1.\<close>

record main_io =
  mi_manager :: "string option"
  mi_healthz :: "string option"
  mi_readyz :: "string option"
  mi_snoop_start :: server_event
  mi_snoop_later :: "server_event list"
  mi_policy :: "string option"
  mi_cluster :: "string option"
  mi_observation :: "string option"
  mi_run :: "string option"

definition wire :: "string \<Rightarrow> string option \<Rightarrow> main_flags \<Rightarrow> running" where
  "wire system start_err flags =
     \<lparr>pr_shared = \<lparr>ct_resolver = select_resolver system start_err flags, ct_churn = Some NewChurnTracker,
        ct_enricher = NewManagerFromConfig (mf_asn flags) (mf_token flags)\<rparr>,
      pr_observation = [], pr_webhook_snoop = mf_snoop flags\<rparr>"

text \<open>The exit code of a failed step, or what ran until the manager was stopped: the objects and the DNS proxy.\<close>

definition start_snoop :: "main_io \<Rightarrow> main_flags \<Rightarrow> string option \<times> snoop_server option" where
  "start_snoop io flags =
     (if mf_snoop flags then
        (let (err, server) = snoop_Start (mi_snoop_start io) (mi_snoop_later io) (NewSnoopServer (mf_snoop_listen flags))
         in (err, Some server))
      else (None, None))"

definition main_start :: "string \<Rightarrow> main_io \<Rightarrow> main_flags \<Rightarrow> int + running \<times> snoop_server option" where
  "main_start system io flags =
     (if mi_manager io \<noteq> None then Inl 1
      else if mi_healthz io \<noteq> None then Inl 1
      else if mi_readyz io \<noteq> None then Inl 1
      else
        let (start_err, server) = start_snoop io flags; p = wire system start_err flags in
        if mi_policy io \<noteq> None then Inl 1
        else if mi_cluster io \<noteq> None then Inl 1
        else if mi_observation io \<noteq> None then Inl 1
        else if mi_run io \<noteq> None then Inl 1
        else Inr (p, server))"

section \<open>The contract of the wired resolver\<close>

definition wired_env_ok :: "wired_env \<Rightarrow> bool" where
  "wired_env_ok env \<longleftrightarrow> multi_env_ok (wd_multi env)"

definition wired_inv :: "wired_resolver \<Rightarrow> bool" where
  "wired_inv w = (case w of WSnoop s \<Rightarrow> snoop_inv s | WMulti m \<Rightarrow> multi_inv m | WActive ns \<Rightarrow> True)"

lemma wired_law:
  assumes "wired_env_ok env" "wired_inv w"
  shows "wired_inv (snd (wired_Resolve env w h)) \<and>
    (\<forall>r. fst (wired_Resolve env w h) = Inr r \<longrightarrow> resolution_ok h r)"
proof (cases w)
  case (WSnoop s)
  obtain r s' where r: "snoop_Resolve (wd_now env, wd_multi env) s h = (r, s')"
    by (cases "snoop_Resolve (wd_now env, wd_multi env) s h")
  have e: "snoop_env_ok (wd_now env, wd_multi env)" and i: "snoop_inv s"
    using assms WSnoop by (simp_all add: wired_env_ok_def snoop_env_ok_def wired_inv_def)
  from snoop.keeps [OF e i, of h] snoop.answers [OF e i, of h] show ?thesis
    by (simp add: WSnoop wired_Resolve_def wired_inv_def r)
next
  case (WMulti m)
  obtain r m' where r: "multi_Resolve (wd_multi env) m h = (r, m')" by (cases "multi_Resolve (wd_multi env) m h")
  have e: "multi_env_ok (wd_multi env)" and i: "multi_inv m"
    using assms WMulti by (simp_all add: wired_env_ok_def wired_inv_def)
  from multi.keeps [OF e i, of h] multi.answers [OF e i, of h] show ?thesis
    by (simp add: WMulti wired_Resolve_def wired_inv_def r)
next
  case (WActive ns)
  then show ?thesis using active_Resolve_ok by (simp add: wired_Resolve_def wired_inv_def)
qed

interpretation wired: resolver wired_Resolve wired_env_ok wired_inv
  by unfold_locales (simp_all add: wired_law)

lemma new_multi_inv: "multi_inv (NewMultiResolver system extra)"
  by (simp add: multi_inv_def NewMultiResolver_def NewIPCache_def cache_text_def cache_entries_def cache_ok_def ips_ok_def)

lemma wired_start: "wired_inv (select_resolver system err flags)"
proof -
  have "snoop_inv (NewSnoopResolver system up)" for up by (rule new_snoop_inv)
  then show ?thesis
    using new_multi_inv by (simp add: select_resolver_def wired_inv_def Let_def split: option.split)
qed

text \<open>A proxied query, and what the wired resolver keeps through it.\<close>

definition proxied ::
  "dns_net \<Rightarrow> (nat \<Rightarrow> gotime) \<Rightarrow> ((string \<times> observed_ip) list \<Rightarrow> (string \<times> observed_ip) list) \<Rightarrow>
   string + dns_msg \<Rightarrow> (string \<times> int) list \<Rightarrow> wired_resolver \<Rightarrow> wired_resolver" where
  "proxied net clk ord exchanged questions w = (case w of
     WSnoop s \<Rightarrow> WSnoop (snd (handleQuery net clk ord exchanged questions s)) | _ \<Rightarrow> w)"

text \<open>Without a started proxy there is no store: drift is not recorded and observations are inactive. The
  webhook goes by the flag, so when the proxy fails to start it still admits wildcards.\<close>

lemma wire_snoop_failed:
  assumes "mf_snoop flags"
  shows "observations_of (ct_resolver (pr_shared (wire system (Some e) flags))) = None"
    "pr_webhook_snoop (wire system (Some e) flags)"
  using assms by (simp_all add: wire_def select_resolver_def observations_of_def snoop_of_def)

text \<open>The controllers use the snoop resolver exactly when the flag is set and its server came up in time; a
  server that comes up later is left running, and answers queries into records nobody reads.\<close>

lemma snoop_used_iff:
  assumes "main_start system io flags = Inr (p, server)"
  shows "(\<exists>s. ct_resolver (pr_shared p) = WSnoop s) \<longleftrightarrow> mf_snoop flags \<and> mi_snoop_start io = Listening"
proof -
  from assms have p: "p = wire system (fst (start_snoop io flags)) flags"
    by (auto simp: main_start_def Let_def split: if_splits prod.splits)
  show ?thesis
    by (cases "mi_snoop_start io")
      (auto simp: p wire_def select_resolver_def start_snoop_def snoop_Start_def Let_def)
qed

lemma late_proxy_serves:
  assumes "main_start system io flags = Inr (p, server)" and "mf_snoop flags"
    and "mi_snoop_start io = ContextDone e" and "mi_snoop_later io = [Listening]"
  shows "\<exists>s. server = Some s \<and> sv_listening s" and "observations_of (ct_resolver (pr_shared p)) = None"
proof -
  from assms have "server = snd (start_snoop io flags)" and p: "p = wire system (fst (start_snoop io flags)) flags"
    by (auto simp: main_start_def Let_def split: if_splits prod.splits)
  then show "\<exists>s. server = Some s \<and> sv_listening s"
    using assms by (simp add: start_snoop_def late_start_serves)
  show "observations_of (ct_resolver (pr_shared p)) = None"
    using assms by (simp add: p start_snoop_def late_start_serves wire_snoop_failed)
qed

end
