(* ===== verification/ProfFilter.thy ===== *)
theory ProfFilter
  imports ApiTypes Drift
begin

text \<open>
  internal/profiler: filter.go (which observed domains are internal), the base domain of cluster.go and
  classifier.go (the provider a hostname belongs to). A Go set or table is the list of its entries.
\<close>

section \<open>filter.go\<close>

definition internalSuffixes :: "string list" where
  "internalSuffixes = [''.cluster.local'', ''.cluster.local.'', ''.svc'', ''.svc.'', ''.local'', ''.local.'',
     ''.internal'', ''.internal.'', ''.in-addr.arpa'', ''.in-addr.arpa.'', ''.ip6.arpa'', ''.ip6.arpa.'']"

definition exactInternalNames :: "string list" where
  "exactInternalNames = [''kubernetes'', ''kubernetes.default'', ''kubernetes.default.svc'', ''localhost'',
     ''localhost.localdomain'', ''ip6-localhost'', ''ip6-loopback'', ''metadata.google.internal'',
     ''169.254.169.254'']"

definition IsInternalDomain :: "string \<Rightarrow> bool" where
  "IsInternalDomain name =
     (let hostname = to_lower (trim_space name) in
      if hostname = [] then True
      else if hostname \<in> set exactInternalNames then True
      else if list_ex (\<lambda>suffix. has_suffix hostname suffix) internalSuffixes then True
      else \<not> contains_str (trim_suffix hostname ''.'') ''.'')"

definition FilterDomains :: "observed_domain list \<Rightarrow> observed_domain list \<times> observed_domain list" where
  "FilterDomains ds = (filter (\<lambda>d. \<not> IsInternalDomain (od_hostname d)) ds,
     filter (\<lambda>d. IsInternalDomain (od_hostname d)) ds)"

section \<open>Base domains\<close>

text \<open>The normal form of a hostname that cluster.go, classifier.go and simulator.go compare.\<close>

definition norm_host :: "string \<Rightarrow> string" where
  "norm_host name = trim_suffix (to_lower (trim_space name)) ''.''"

definition commonMultiPartTLDs :: "string list" where
  "commonMultiPartTLDs = [''co.uk'', ''org.uk'', ''gov.uk'', ''ac.uk'', ''co.jp'', ''ne.jp'', ''com.au'',
     ''net.au'', ''org.au'', ''co.nz'', ''co.in'', ''net.in'', ''org.in'', ''gen.in'', ''ind.in'']"

definition BaseDomain :: "string \<Rightarrow> string" where
  "BaseDomain name =
     (let hostname = norm_host name;
          parts = split_on CHR ''.'' hostname;
          n = length parts
      in if n \<le> 2 then hostname
         else (let lastTwo = parts ! (n - 2) @ ''.'' @ parts ! (n - 1) in
           if lastTwo \<in> set commonMultiPartTLDs then
             (if 3 \<le> n then parts ! (n - 3) @ ''.'' @ lastTwo else hostname)
           else parts ! (n - 2) @ ''.'' @ parts ! (n - 1)))"

section \<open>classifier.go\<close>

record classification =
  cl_category :: string
  cl_provider :: string

record provider_rule =
  pr_suffix :: string
  pr_provider :: string
  pr_category :: string

abbreviation provider_entry :: "string \<Rightarrow> string \<Rightarrow> string \<Rightarrow> provider_rule" where
  "provider_entry s p c \<equiv> \<lparr>pr_suffix = s, pr_provider = p, pr_category = c\<rparr>"

definition knownProviders :: "provider_rule list" where
  "knownProviders =
     [provider_entry ''stripe.com'' ''Stripe'' ''Payments & Financial'',
      provider_entry ''paypal.com'' ''PayPal'' ''Payments & Financial'',
      provider_entry ''adyen.com'' ''Adyen'' ''Payments & Financial'',
      provider_entry ''braintreegateway.com'' ''Braintree'' ''Payments & Financial'',
      provider_entry ''plaid.com'' ''Plaid'' ''Payments & Financial'',
      provider_entry ''squareup.com'' ''Square'' ''Payments & Financial'',
      provider_entry ''amazonaws.com'' ''AWS'' ''Cloud & Storage'',
      provider_entry ''cloudfront.net'' ''AWS CloudFront'' ''Cloud & Storage'',
      provider_entry ''googleapis.com'' ''Google Cloud'' ''Cloud & Storage'',
      provider_entry ''googleusercontent.com'' ''Google Cloud'' ''Cloud & Storage'',
      provider_entry ''azure.com'' ''Microsoft Azure'' ''Cloud & Storage'',
      provider_entry ''azureedge.net'' ''Microsoft Azure CDN'' ''Cloud & Storage'',
      provider_entry ''windows.net'' ''Microsoft Azure'' ''Cloud & Storage'',
      provider_entry ''auth0.com'' ''Auth0'' ''Auth & Identity'',
      provider_entry ''okta.com'' ''Okta'' ''Auth & Identity'',
      provider_entry ''oktapreview.com'' ''Okta'' ''Auth & Identity'',
      provider_entry ''login.microsoftonline.com'' ''Microsoft Entra ID'' ''Auth & Identity'',
      provider_entry ''accounts.google.com'' ''Google Identity'' ''Auth & Identity'',
      provider_entry ''clerk.dev'' ''Clerk'' ''Auth & Identity'',
      provider_entry ''clerk.com'' ''Clerk'' ''Auth & Identity'',
      provider_entry ''datadoghq.com'' ''Datadog'' ''Observability & APM'',
      provider_entry ''datadoghq.eu'' ''Datadog'' ''Observability & APM'',
      provider_entry ''sentry.io'' ''Sentry'' ''Observability & APM'',
      provider_entry ''honeycomb.io'' ''Honeycomb'' ''Observability & APM'',
      provider_entry ''newrelic.com'' ''New Relic'' ''Observability & APM'',
      provider_entry ''dynatrace.com'' ''Dynatrace'' ''Observability & APM'',
      provider_entry ''grafana.net'' ''Grafana Cloud'' ''Observability & APM'',
      provider_entry ''github.com'' ''GitHub'' ''Developer & Registries'',
      provider_entry ''githubusercontent.com'' ''GitHub'' ''Developer & Registries'',
      provider_entry ''gitlab.com'' ''GitLab'' ''Developer & Registries'',
      provider_entry ''docker.io'' ''Docker Hub'' ''Developer & Registries'',
      provider_entry ''docker.com'' ''Docker'' ''Developer & Registries'',
      provider_entry ''pypi.org'' ''Python Package Index'' ''Developer & Registries'',
      provider_entry ''pythonhosted.org'' ''Python Package Index'' ''Developer & Registries'',
      provider_entry ''npmjs.org'' ''npm Registry'' ''Developer & Registries'',
      provider_entry ''npmjs.com'' ''npm Registry'' ''Developer & Registries'',
      provider_entry ''crates.io'' ''Rust Crates'' ''Developer & Registries'',
      provider_entry ''slack.com'' ''Slack'' ''Communication & Messaging'',
      provider_entry ''twilio.com'' ''Twilio'' ''Communication & Messaging'',
      provider_entry ''sendgrid.net'' ''SendGrid'' ''Communication & Messaging'',
      provider_entry ''mailgun.net'' ''Mailgun'' ''Communication & Messaging'',
      provider_entry ''cloudflare.com'' ''Cloudflare'' ''CDN & Infrastructure'',
      provider_entry ''fastly.net'' ''Fastly'' ''CDN & Infrastructure'',
      provider_entry ''akamai.net'' ''Akamai'' ''CDN & Infrastructure'',
      provider_entry ''akamaiedge.net'' ''Akamai'' ''CDN & Infrastructure'',
      provider_entry ''edgekey.net'' ''Akamai'' ''CDN & Infrastructure'']"

definition provider_matches :: "string \<Rightarrow> provider_rule \<Rightarrow> bool" where
  "provider_matches hostname r \<longleftrightarrow> hostname = pr_suffix r \<or> has_suffix hostname (''.'' @ pr_suffix r)"

definition classify_in :: "provider_rule list \<Rightarrow> string \<Rightarrow> classification" where
  "classify_in table name =
     (let hostname = trim_suffix (trim_prefix (to_lower (trim_space name)) ''*.'') ''.'' in
      case find (provider_matches hostname) table of
        Some r \<Rightarrow> \<lparr>cl_category = pr_category r, cl_provider = pr_provider r\<rparr>
      | None \<Rightarrow> \<lparr>cl_category = ''General / Unclassified'', cl_provider = BaseDomain hostname\<rparr>)"

definition ClassifyDomain :: "string \<Rightarrow> classification" where
  "ClassifyDomain name = classify_in knownProviders name"

section \<open>Lemmas\<close>

lemma join_append:
  "xs \<noteq> [] \<Longrightarrow> ys \<noteq> [] \<Longrightarrow> join_str sep (xs @ ys) = join_str sep xs @ sep @ join_str sep ys"
proof (induction sep xs rule: join_str.induct)
  case (2 sep x)
  then show ?case by (cases ys) simp_all
qed simp_all

text \<open>A dot-separated text ends in the join of its last k parts.\<close>

lemma last_parts:
  assumes "k < length (split_on d s)" "0 < k"
  shows "\<exists>p. s = p @ [d] @ join_str [d] (drop (length (split_on d s) - k) (split_on d s))"
proof -
  let ?ps = "split_on d s" and ?m = "length (split_on d s) - k"
  have "s = join_str [d] (take ?m ?ps @ drop ?m ?ps)" by (simp add: join_split)
  also have "\<dots> = join_str [d] (take ?m ?ps) @ [d] @ join_str [d] (drop ?m ?ps)"
    using assms by (intro join_append) auto
  finally show ?thesis by blast
qed

lemma drop_last_Suc:
  assumes "k < length ps"
  shows "drop (length ps - Suc k) ps = ps ! (length ps - Suc k) # drop (length ps - k) ps"
proof -
  have "Suc (length ps - Suc k) = length ps - k" "length ps - Suc k < length ps" using assms by arith+
  then show ?thesis using Cons_nth_drop_Suc [of "length ps - Suc k" ps] by simp
qed

lemma drop_last2:
  assumes "2 \<le> length ps"
  shows "drop (length ps - 2) ps = [ps ! (length ps - 2), ps ! (length ps - 1)]"
proof -
  have "0 < length ps" using assms by linarith
  from drop_last_Suc [OF this] drop_last_Suc [of 1 ps] assms show ?thesis by (simp add: numeral_2_eq_2)
qed

lemma drop_last3:
  "3 \<le> length ps \<Longrightarrow>
   drop (length ps - 3) ps = [ps ! (length ps - 3), ps ! (length ps - 2), ps ! (length ps - 1)]"
  using drop_last_Suc [of 2 ps] drop_last2 [of ps] by (simp add: numeral_3_eq_3)

text \<open>The base domain is the hostname itself or what follows one of its dots.\<close>

lemma base_is_parts:
  "BaseDomain name = norm_host name \<or>
   (\<exists>k. k < length (split_on CHR ''.'' (norm_host name)) \<and> 2 \<le> k \<and>
     BaseDomain name = join_str ''.'' (drop (length (split_on CHR ''.'' (norm_host name)) - k)
       (split_on CHR ''.'' (norm_host name))))"
proof -
  let ?ps = "split_on CHR ''.'' (norm_host name)"
  let ?two = "?ps ! (length ?ps - 2) @ ''.'' @ ?ps ! (length ?ps - 1)"
  consider "length ?ps \<le> 2" | "length ?ps = 3" "?two \<in> set commonMultiPartTLDs"
    | "3 < length ?ps" "?two \<in> set commonMultiPartTLDs" | "2 < length ?ps" "?two \<notin> set commonMultiPartTLDs"
    by linarith
  then show ?thesis
  proof cases
    case 1
    then show ?thesis by (simp add: BaseDomain_def)
  next
    case 2
    then have "BaseDomain name = join_str ''.'' (drop (length ?ps - 3) ?ps)"
      by (subst drop_last3) (simp_all add: BaseDomain_def Let_def)
    with 2(1) show ?thesis by (simp add: join_split)
  next
    case 3
    then have "BaseDomain name = join_str ''.'' (drop (length ?ps - 3) ?ps)"
      by (subst drop_last3) (simp_all add: BaseDomain_def Let_def)
    with 3 show ?thesis by (intro disjI2 exI [of _ 3]) simp
  next
    case 4
    then have "BaseDomain name = join_str ''.'' (drop (length ?ps - 2) ?ps)"
      by (subst drop_last2) (simp_all add: BaseDomain_def Let_def)
    with 4 show ?thesis by (intro disjI2 exI [of _ 2]) simp
  qed
qed

lemma base_suffix: "norm_host name = BaseDomain name \<or> (\<exists>p. norm_host name = p @ ''.'' @ BaseDomain name)"
proof (cases "BaseDomain name = norm_host name")
  case False
  then obtain k where "k < length (split_on CHR ''.'' (norm_host name))" "2 \<le> k"
    "BaseDomain name = join_str ''.'' (drop (length (split_on CHR ''.'' (norm_host name)) - k)
       (split_on CHR ''.'' (norm_host name)))"
    using base_is_parts [of name] by blast
  with last_parts [of k "CHR ''.''" "norm_host name"] show ?thesis by simp
qed simp

lemma norm_external: "\<not> IsInternalDomain h \<Longrightarrow> norm_host h \<noteq> []"
proof
  assume n: "\<not> IsInternalDomain h" and "norm_host h = []"
  then have "\<not> contains_str (trim_suffix (to_lower (trim_space h)) ''.'') ''.''"
    by (simp add: norm_host_def has_prefix_def)
  with n show False by (simp add: IsInternalDomain_def Let_def split: if_splits)
qed

subsection \<open>The provider table\<close>

text \<open>No suffix of the table is another one, or ends with a dot and another one.\<close>

fun unambiguous :: "provider_rule list \<Rightarrow> bool" where
  "unambiguous [] \<longleftrightarrow> True"
| "unambiguous (r # rs) \<longleftrightarrow>
     list_all (\<lambda>q. \<not> provider_matches (pr_suffix r) q \<and> \<not> provider_matches (pr_suffix q) r) rs \<and> unambiguous rs"

lemma known_unambiguous: "unambiguous knownProviders"
  by code_simp

lemma suffix_linear: "s @ a = t @ b \<Longrightarrow> length a \<le> length b \<Longrightarrow> \<exists>u. b = u @ a"
  by (auto simp: append_eq_append_conv2)

lemma provider_matches_iff: "provider_matches h r \<longleftrightarrow> (\<exists>p. ''.'' @ h = p @ ''.'' @ pr_suffix r)"
proof
  assume "provider_matches h r"
  then consider "h = pr_suffix r" | p where "h = p @ ''.'' @ pr_suffix r"
    by (auto simp: provider_matches_def has_suffix_iff)
  then show "\<exists>p. ''.'' @ h = p @ ''.'' @ pr_suffix r"
    by cases (auto intro: exI [of _ "[]"] exI [of _ "''.'' @ p" for p])
next
  assume "\<exists>p. ''.'' @ h = p @ ''.'' @ pr_suffix r"
  then obtain p where "''.'' @ h = p @ ''.'' @ pr_suffix r" by blast
  then show "provider_matches h r"
    by (cases p) (auto simp: provider_matches_def has_suffix_iff)
qed

text \<open>Two rules that match the same hostname: one matches the other's suffix.\<close>

lemma both_match:
  assumes "provider_matches h q" "provider_matches h r" "length (pr_suffix q) \<le> length (pr_suffix r)"
  shows "provider_matches (pr_suffix r) q"
proof -
  obtain p where p: "''.'' @ h = p @ ''.'' @ pr_suffix q" using assms(1) provider_matches_iff by blast
  obtain p' where p': "''.'' @ h = p' @ ''.'' @ pr_suffix r" using assms(2) provider_matches_iff by blast
  have "p @ ''.'' @ pr_suffix q = p' @ ''.'' @ pr_suffix r" by (rule trans [OF p [symmetric] p'])
  then have "\<exists>u. ''.'' @ pr_suffix r = u @ ''.'' @ pr_suffix q"
    using assms(3) by (intro suffix_linear) simp_all
  then show ?thesis by (simp add: provider_matches_iff)
qed

lemma unambiguous_unique:
  assumes "unambiguous table" "q \<in> set table" "r \<in> set table" "provider_matches h q" "provider_matches h r"
  shows "q = r"
  using assms
proof (induction table)
  case (Cons a table)
  have no: "False" if "x \<in> set table" "provider_matches h a" "provider_matches h x" for x
    using Cons.prems(1) that both_match [of h a x] both_match [of h x a] by (auto simp: list_all_iff) (metis nle_le)
  show ?case using Cons no by auto
qed simp

lemma find_unique:
  assumes "x \<in> set xs" "P x" "\<And>y. y \<in> set xs \<Longrightarrow> P y \<Longrightarrow> y = x"
  shows "find P xs = Some x"
proof (cases "find P xs")
  case None
  with assms(1,2) show ?thesis unfolding find_None_iff by blast
next
  case (Some y)
  then have "y \<in> set xs \<and> P y" unfolding find_Some_iff by (metis nth_mem)
  with Some assms(3) show ?thesis by blast
qed

lemma classify_in_order:
  assumes "set table = set table'" "unambiguous table'"
  shows "classify_in table name = classify_in table' name"
proof -
  have "find (provider_matches h) table = find (provider_matches h) table'" for h
  proof (cases "\<exists>r \<in> set table'. provider_matches h r")
    case True
    then obtain r where r: "r \<in> set table'" "provider_matches h r" by blast
    have u: "y = r" if "y \<in> set table'" "provider_matches h y" for y
      using unambiguous_unique [OF assms(2) that(1) r(1) that(2) r(2)] .
    have "find (provider_matches h) table' = Some r" using r(1,2) u by (rule find_unique)
    moreover have "r \<in> set table" "\<And>y. y \<in> set table \<Longrightarrow> provider_matches h y \<Longrightarrow> y = r"
      using r(1) u by (simp_all only: assms(1))
    then have "find (provider_matches h) table = Some r" using r(2) by (intro find_unique)
    ultimately show ?thesis by simp
  next
    case False
    then have "find (provider_matches h) table' = None" "find (provider_matches h) table = None"
      using assms(1) by (auto simp: find_None_iff)
    then show ?thesis by simp
  qed
  then show ?thesis by (simp add: classify_in_def)
qed

section \<open>Properties\<close>

text \<open>The classifier does not depend on the order of its table. No hostname matches two entries of
  knownProviders, so ClassifyDomain gives every hostname the same category and provider with any table
  that has the same entries.\<close>

theorem classify_order_independent:
  assumes "set table = set knownProviders"
  shows "classify_in table name = ClassifyDomain name"
  unfolding ClassifyDomain_def by (rule classify_in_order [OF assms known_unambiguous])

lemma classify_order_independent_witness:
  "cl_provider (classify_in (rev knownProviders) ''API.GitHub.com.'') = ''GitHub''"
proof -
  have "classify_in (rev knownProviders) ''API.GitHub.com.'' = ClassifyDomain ''API.GitHub.com.''"
    by (rule classify_order_independent) simp
  moreover have "cl_provider (ClassifyDomain ''API.GitHub.com.'') = ''GitHub''" by code_simp
  ultimately show ?thesis by simp
qed

end
