(* ===== verification/ProfCluster.thy ===== *)
theory ProfCluster
  imports ProfFilter
begin

text \<open>
  internal/profiler/cluster.go: grouping observed hostnames by base domain and rolling the large groups up
  into wildcard rules. The orders of the ranges over the two maps are arguments (\<open>ord\<close> for a set of
  hostnames, \<open>ord_base\<close> for the groups); the keys of a Go set built from a list are \<open>unique_from []\<close>.
\<close>

section \<open>Clustering\<close>

record cluster_result =
  cr_rules :: "string list"
  cr_clusters :: "(string, string list) gomap"

definition clean_domains :: "string list \<Rightarrow> string list" where
  "clean_domains domains = filter (\<lambda>d. d \<noteq> []) (map norm_host domains)"

definition group_by_base :: "string list \<Rightarrow> (string, string list) gomap" where
  "group_by_base ds = fold (\<lambda>d m. put (BaseDomain d)
     ((case map_of m (BaseDomain d) of None \<Rightarrow> [] | Some l \<Rightarrow> l) @ [d]) m) ds []"

definition sub_list :: "(string list \<Rightarrow> string list) \<Rightarrow> string list \<Rightarrow> string list" where
  "sub_list ord subs = sort_strings (ord (unique_from [] subs))"

definition rolls_up :: "int \<Rightarrow> string list \<Rightarrow> bool" where
  "rolls_up threshold subs \<longleftrightarrow> list_ex (\<lambda>s. has_prefix s ''*.'') subs \<or> threshold \<le> int (length subs)"

fun cluster_loop ::
  "(string list \<Rightarrow> string list) \<Rightarrow> int \<Rightarrow> (string, string list) gomap \<Rightarrow>
   string list \<times> (string, string list) gomap \<Rightarrow> string list \<times> (string, string list) gomap" where
  "cluster_loop ord threshold [] acc = acc"
| "cluster_loop ord threshold ((base, subs) # groups) (rules, clusters) =
     (let subList = sub_list ord subs in
      if rolls_up threshold subList
      then cluster_loop ord threshold groups (rules @ [''*.'' @ base], put (''*.'' @ base) subList clusters)
      else cluster_loop ord threshold groups (rules @ subList, clusters))"

definition ClusterWildcards ::
  "(string list \<Rightarrow> string list) \<Rightarrow> ((string \<times> string list) list \<Rightarrow> (string \<times> string list) list) \<Rightarrow>
   string list \<Rightarrow> int \<Rightarrow> cluster_result" where
  "ClusterWildcards ord ord_base domains threshold =
     (if threshold \<le> 1 then
        \<lparr>cr_rules = sub_list ord (clean_domains domains), cr_clusters = []\<rparr>
      else
        let (rules, clusters) = cluster_loop ord threshold (ord_base (group_by_base (clean_domains domains))) ([], [])
        in \<lparr>cr_rules = sort_strings rules, cr_clusters = clusters\<rparr>)"

section \<open>Stable names\<close>

text \<open>A name that normalising leaves alone.\<close>

definition stable_name :: "string \<Rightarrow> bool" where
  "stable_name d \<longleftrightarrow> d \<noteq> [] \<and> to_lower d = d \<and> \<not> is_space (hd d) \<and> \<not> is_space (last d) \<and> last d \<noteq> CHR ''.''"

lemma trim_space_id: "d \<noteq> [] \<Longrightarrow> \<not> is_space (hd d) \<Longrightarrow> \<not> is_space (last d) \<Longrightarrow> trim_space d = d"
proof -
  assume d: "d \<noteq> []" "\<not> is_space (hd d)" "\<not> is_space (last d)"
  have "dropWhile is_space d = d" using d by (cases d) simp_all
  moreover have "dropWhile is_space (rev d) = rev d" using d by (cases d rule: rev_cases) simp_all
  ultimately show ?thesis by (simp add: trim_space_def)
qed

lemma has_suffix_char: "has_suffix s [c] \<longleftrightarrow> s \<noteq> [] \<and> last s = c"
  by (cases s rule: rev_cases) (auto simp: has_suffix_def)

lemma stable_norm: "stable_name d \<Longrightarrow> norm_host d = d"
  by (simp add: stable_name_def norm_host_def trim_space_id trim_suffix_def has_suffix_char)

lemma length_trim_space: "length (trim_space s) \<le> length s"
  using length_dropWhile_le [of is_space "rev (dropWhile is_space s)"] length_dropWhile_le [of is_space s]
  by (simp add: trim_space_def)

lemma dropWhile_full: "length s \<le> length (dropWhile P s) \<Longrightarrow> dropWhile P s = s"
  by (metis append_Nil dropWhile_append takeWhile_dropWhile_id append_self_conv2 length_append
      add_le_same_cancel2 length_0_conv le_zero_eq)

lemma norm_stable:
  assumes "norm_host d = d" "d \<noteq> []"
  shows "stable_name d"
proof -
  have l: "length (to_lower (trim_space d)) \<le> length d" by (simp add: to_lower_def length_trim_space)
  have t: "\<not> has_suffix (to_lower (trim_space d)) ''.''"
  proof
    assume h: "has_suffix (to_lower (trim_space d)) ''.''"
    then have "length (norm_host d) < length (to_lower (trim_space d))"
      by (auto simp: norm_host_def trim_suffix_def has_suffix_char)
    with l assms(1) show False by simp
  qed
  then have lo: "to_lower (trim_space d) = d" using assms(1) by (simp add: norm_host_def trim_suffix_def)
  then have len: "length (trim_space d) = length d" by (metis to_lower_def length_map)
  let ?e = "dropWhile is_space d"
  have "length d \<le> length ?e"
    using len length_dropWhile_le [of is_space "rev ?e"] by (simp add: trim_space_def)
  then have e: "?e = d" by (rule dropWhile_full)
  with len have "length (rev d) \<le> length (dropWhile is_space (rev d))" by (simp add: trim_space_def)
  then have r: "dropWhile is_space (rev d) = rev d" by (rule dropWhile_full)
  have "\<not> is_space (hd d)" using e hd_dropWhile [of is_space d] assms(2) by (metis dropWhile_eq_Nil_conv list.set_sel(1))
  moreover have "\<not> is_space (last d)"
    using r hd_dropWhile [of is_space "rev d"] assms(2)
    by (metis dropWhile_eq_Nil_conv hd_rev list.set_sel(1) rev_is_Nil_conv)
  moreover have "trim_space d = d" using e r by (simp add: trim_space_def)
  ultimately show ?thesis using lo t assms(2) by (simp add: stable_name_def has_suffix_char)
qed

text \<open>The base domain of a stable name, and the wildcard over it, are stable too.\<close>

lemma base_nonempty: "norm_host name \<noteq> [] \<Longrightarrow> BaseDomain name \<noteq> []"
proof -
  assume n: "norm_host name \<noteq> []"
  consider "BaseDomain name = norm_host name"
    | k where "k < length (split_on CHR ''.'' (norm_host name))" "2 \<le> k"
      "BaseDomain name = join_str ''.'' (drop (length (split_on CHR ''.'' (norm_host name)) - k)
         (split_on CHR ''.'' (norm_host name)))"
    using base_is_parts [of name] by blast
  then show ?thesis
  proof cases
    case 1
    with n show ?thesis by simp
  next
    case 2
    let ?qs = "drop (length (split_on CHR ''.'' (norm_host name)) - k) (split_on CHR ''.'' (norm_host name))"
    have "length ?qs = k" using 2(1) by simp
    with 2(2) obtain x y zs where "?qs = x # y # zs"
      by (metis Suc_le_length_iff numeral_2_eq_2)
    with 2(3) show ?thesis by simp
  qed
qed

lemma stable_suffix:
  assumes "stable_name (p @ b)" "b \<noteq> []"
  shows "stable_name (''*.'' @ b)" "to_lower b = b"
  using assms by (auto simp: stable_name_def to_lower_def lower_char_def is_space_def)

lemma base_stable:
  assumes "stable_name d"
  shows "d = BaseDomain d \<or> (\<exists>p. d = p @ ''.'' @ BaseDomain d)" "BaseDomain d \<noteq> []"
    "stable_name (''*.'' @ BaseDomain d)"
proof -
  have n: "norm_host d = d" by (rule stable_norm [OF assms])
  show s: "d = BaseDomain d \<or> (\<exists>p. d = p @ ''.'' @ BaseDomain d)" using base_suffix [of d] by (simp add: n)
  show b: "BaseDomain d \<noteq> []" using base_nonempty [of d] assms by (simp add: n stable_name_def)
  from s obtain p where "d = p @ BaseDomain d" by (metis append_Nil append_assoc)
  with assms b show "stable_name (''*.'' @ BaseDomain d)" by (metis stable_suffix(1))
qed

section \<open>What the clustering computes\<close>

definition in_base :: "string list \<Rightarrow> string \<Rightarrow> string set" where
  "in_base domains b = {d \<in> set (clean_domains domains). BaseDomain d = b}"

definition bases :: "string list \<Rightarrow> string set" where
  "bases domains = BaseDomain ` set (clean_domains domains)"

definition clustered :: "string list \<Rightarrow> int \<Rightarrow> string \<Rightarrow> bool" where
  "clustered domains threshold b \<longleftrightarrow>
     (\<exists>d \<in> in_base domains b. has_prefix d ''*.'') \<or> threshold \<le> int (card (in_base domains b))"

text \<open>The groups.\<close>

lemma group_lookup_gen:
  "map_of (fold (\<lambda>d m. put (BaseDomain d)
      ((case map_of m (BaseDomain d) of None \<Rightarrow> [] | Some l \<Rightarrow> l) @ [d]) m) ds m) b =
   (let l = filter (\<lambda>d. BaseDomain d = b) ds in
    case map_of m b of None \<Rightarrow> if l = [] then None else Some l | Some l0 \<Rightarrow> Some (l0 @ l))"
proof (induction ds arbitrary: m)
  case (Cons d ds)
  show ?case
    by (cases "BaseDomain d = b"; cases "map_of m b") (simp_all add: Cons.IH Let_def)
qed (simp split: option.split)

lemma group_lookup:
  "map_of (group_by_base ds) b =
     (if filter (\<lambda>d. BaseDomain d = b) ds = [] then None else Some (filter (\<lambda>d. BaseDomain d = b) ds))"
  unfolding group_by_base_def group_lookup_gen by (simp add: Let_def)

lemma group_ok: "gomap_ok (group_by_base ds)"
proof -
  have "gomap_ok m \<Longrightarrow> gomap_ok (fold (\<lambda>d m. put (BaseDomain d)
      ((case map_of m (BaseDomain d) of None \<Rightarrow> [] | Some l \<Rightarrow> l) @ [d]) m) ds m)" for m
    by (induction ds arbitrary: m) simp_all
  then show ?thesis by (simp add: group_by_base_def)
qed

lemma group_member:
  "(b, subs) \<in> set (group_by_base (clean_domains domains)) \<longleftrightarrow>
   b \<in> bases domains \<and> subs = filter (\<lambda>d. BaseDomain d = b) (clean_domains domains)"
  unfolding gomap_lookup [OF group_ok] group_lookup
  by (auto simp: bases_def filter_empty_conv)

lemma sub_list_eq:
  assumes "range_order ord"
  shows "sub_list ord subs = sorted_list_of_set (set subs)"
proof -
  have "distinct (ord (unique_from [] subs))"
    by (rule range_order_distinct [OF assms distinct_unique_from])
  moreover have "set (ord (unique_from [] subs)) = set subs"
    using range_order_set [OF assms] by (simp add: set_unique_from)
  ultimately show ?thesis
    unfolding sub_list_def sort_strings_def
    by (intro sorted_distinct_set_unique) simp_all
qed

lemma rolls_up_iff:
  assumes "range_order ord"
  shows "rolls_up threshold (sub_list ord (filter (\<lambda>d. BaseDomain d = b) (clean_domains domains))) \<longleftrightarrow>
    clustered domains threshold b"
proof -
  have "set (filter (\<lambda>d. BaseDomain d = b) (clean_domains domains)) = in_base domains b"
    by (auto simp: in_base_def)
  moreover have "finite (in_base domains b)" by (simp add: in_base_def)
  ultimately show ?thesis
    by (auto simp: rolls_up_def sub_list_eq [OF assms] clustered_def list_ex_iff)
qed

text \<open>The rules one group contributes; each rule names its group.\<close>

definition group_rules :: "string list \<Rightarrow> int \<Rightarrow> string \<Rightarrow> string list" where
  "group_rules domains threshold b =
     (if clustered domains threshold b then [''*.'' @ b] else sorted_list_of_set (in_base domains b))"

definition owner :: "string \<Rightarrow> string" where
  "owner r = (if has_prefix r ''*.'' then drop 2 r else BaseDomain r)"

lemma group_rules_owner:
  "distinct (group_rules domains threshold b)" "x \<in> set (group_rules domains threshold b) \<Longrightarrow> owner x = b"
proof -
  have f: "finite (in_base domains b)" by (simp add: in_base_def)
  then show "distinct (group_rules domains threshold b)" by (simp add: group_rules_def)
  show "x \<in> set (group_rules domains threshold b) \<Longrightarrow> owner x = b"
    using f by (auto simp: group_rules_def owner_def clustered_def in_base_def has_prefix_def split: if_splits)
qed

lemma distinct_owned:
  assumes "distinct bs" "\<And>b. distinct (f b)" "\<And>b x. x \<in> set (f b) \<Longrightarrow> own x = b"
  shows "distinct (concat (map f bs))"
  using assms(1)
proof (induction bs)
  case (Cons b bs)
  have "set (f b) \<inter> set (concat (map f bs)) = {}"
  proof -
    have False if "x \<in> set (f b)" "c \<in> set bs" "x \<in> set (f c)" for x c
      using assms(3) [OF that(1)] assms(3) [OF that(3)] that(2) Cons.prems by simp
    then show ?thesis by auto
  qed
  with Cons assms(2) [of b] show ?case by simp
qed simp

lemma cluster_loop_spec:
  assumes "range_order ord" "distinct (map fst groups)"
    and "\<And>b subs. (b, subs) \<in> set groups \<Longrightarrow> subs = filter (\<lambda>d. BaseDomain d = b) (clean_domains domains)"
    and "cluster_loop ord threshold groups (rules, clusters) = (rules', clusters')"
  shows "rules' = rules @ concat (map (group_rules domains threshold) (map fst groups)) \<and>
    map_of clusters' (''*.'' @ b) =
      (if b \<in> fst ` set groups \<and> clustered domains threshold b then Some (sorted_list_of_set (in_base domains b))
       else map_of clusters (''*.'' @ b))"
  using assms(2-4)
proof (induction groups arbitrary: rules clusters)
  case (Cons g groups)
  obtain c subs where g: "g = (c, subs)" by (cases g)
  have subs: "subs = filter (\<lambda>d. BaseDomain d = c) (clean_domains domains)" using Cons.prems(2) by (simp add: g)
  have s: "sub_list ord subs = sorted_list_of_set (in_base domains c)"
    unfolding sub_list_eq [OF assms(1)] subs by (rule arg_cong [where f = sorted_list_of_set]) (auto simp: in_base_def)
  have r: "rolls_up threshold (sub_list ord subs) \<longleftrightarrow> clustered domains threshold c"
    unfolding subs by (rule rolls_up_iff [OF assms(1)])
  have d: "distinct (map fst groups)" and c: "c \<notin> fst ` set groups" using Cons.prems(1) by (auto simp: g)
  have gr: "\<And>b subs. (b, subs) \<in> set groups \<Longrightarrow> subs = filter (\<lambda>d. BaseDomain d = b) (clean_domains domains)"
    using Cons.prems(2) by simp
  show ?case
  proof (cases "clustered domains threshold c")
    case True
    have "cluster_loop ord threshold groups (rules @ [''*.'' @ c],
        put (''*.'' @ c) (sorted_list_of_set (in_base domains c)) clusters) = (rules', clusters')"
      using Cons.prems(3) True r by (simp add: g s)
    from Cons.IH [OF d gr this] c True show ?thesis by (auto simp: g group_rules_def)
  next
    case False
    have "cluster_loop ord threshold groups (rules @ sorted_list_of_set (in_base domains c), clusters) = (rules', clusters')"
      using Cons.prems(3) False r by (simp add: g s)
    from Cons.IH [OF d gr this] c False show ?thesis by (auto simp: g group_rules_def)
  qed
qed simp

lemma cluster_spec:
  assumes "1 < threshold" "range_order ord" "range_order ord_base"
  shows "sorted (cr_rules (ClusterWildcards ord ord_base domains threshold))"
    "distinct (cr_rules (ClusterWildcards ord ord_base domains threshold))"
    "set (cr_rules (ClusterWildcards ord ord_base domains threshold)) =
      (\<Union>b \<in> bases domains. set (group_rules domains threshold b))"
    "map_of (cr_clusters (ClusterWildcards ord ord_base domains threshold)) (''*.'' @ b) =
      (if b \<in> bases domains \<and> clustered domains threshold b then Some (sorted_list_of_set (in_base domains b))
       else None)"
proof -
  let ?g = "group_by_base (clean_domains domains)"
  obtain rules clusters where l: "cluster_loop ord threshold (ord_base ?g) ([], []) = (rules, clusters)"
    by (cases "cluster_loop ord threshold (ord_base ?g) ([], [])")
  have d: "distinct (map fst (ord_base ?g))"
    using range_order_ok [OF assms(3) group_ok] by (simp add: gomap_ok_def)
  have set_g: "set (ord_base ?g) = set ?g" by (rule range_order_set [OF assms(3)])
  have m: "subs = filter (\<lambda>d. BaseDomain d = b) (clean_domains domains)" if "(b, subs) \<in> set (ord_base ?g)" for b subs
    using that unfolding set_g group_member by simp
  have f: "fst ` set (ord_base ?g) = bases domains"
  proof -
    have "b \<in> fst ` set ?g" if "b \<in> bases domains" for b
      using group_member [of b "filter (\<lambda>d. BaseDomain d = b) (clean_domains domains)" domains] that
      by (simp add: rev_image_eqI)
    then show ?thesis unfolding set_g by (auto simp: group_member)
  qed
  note sp = cluster_loop_spec [OF assms(2) d m l]
  have r: "rules = concat (map (group_rules domains threshold) (map fst (ord_base ?g)))"
    using sp [THEN conjunct1] by simp
  have e: "ClusterWildcards ord ord_base domains threshold = \<lparr>cr_rules = sort_strings rules, cr_clusters = clusters\<rparr>"
    using assms(1) by (simp add: ClusterWildcards_def l)
  show "sorted (cr_rules (ClusterWildcards ord ord_base domains threshold))" by (simp add: e)
  have "distinct rules" unfolding r by (rule distinct_owned [OF d group_rules_owner(1) group_rules_owner(2)])
  then show "distinct (cr_rules (ClusterWildcards ord ord_base domains threshold))"
    by (simp add: e sort_strings_def)
  show "set (cr_rules (ClusterWildcards ord ord_base domains threshold)) =
      (\<Union>b \<in> bases domains. set (group_rules domains threshold b))"
    unfolding e r f [symmetric] by simp
  show "map_of (cr_clusters (ClusterWildcards ord ord_base domains threshold)) (''*.'' @ b) =
      (if b \<in> bases domains \<and> clustered domains threshold b then Some (sorted_list_of_set (in_base domains b))
       else None)"
    using sp [THEN conjunct2] by (simp add: e f)
qed

lemma cluster_low_threshold:
  assumes "threshold \<le> 1" "range_order ord"
  shows "cr_rules (ClusterWildcards ord ord_base domains threshold) = sorted_list_of_set (set (clean_domains domains))"
  using assms by (simp add: ClusterWildcards_def sub_list_eq)

text \<open>Every rule is one of the names or the wildcard over a base domain, and every name is covered.\<close>

lemma rule_forms:
  assumes "range_order ord" "range_order ord_base"
    and "r \<in> set (cr_rules (ClusterWildcards ord ord_base domains threshold))"
  shows "r \<in> set (clean_domains domains) \<or> (\<exists>b \<in> bases domains. r = ''*.'' @ b)"
proof (cases "1 < threshold")
  case True
  from assms(3) obtain b where b: "b \<in> bases domains" "r \<in> set (group_rules domains threshold b)"
    unfolding cluster_spec(3) [OF True assms(1,2)] by blast
  have "finite (in_base domains b)" by (simp add: in_base_def)
  with b show ?thesis by (auto simp: group_rules_def in_base_def split: if_splits)
next
  case False
  with assms show ?thesis by (simp add: cluster_low_threshold)
qed

lemma cluster_covers:
  assumes "range_order ord" "range_order ord_base" "d \<in> set (clean_domains domains)" "stable_name d"
  shows "\<exists>r \<in> set (cr_rules (ClusterWildcards ord ord_base domains threshold)). matchesEgressRule d r"
proof (cases "1 < threshold")
  case True
  let ?b = "BaseDomain d"
  have b: "?b \<in> bases domains" and d: "d \<in> in_base domains ?b" using assms(3) by (auto simp: bases_def in_base_def)
  have f: "finite (in_base domains ?b)" by (simp add: in_base_def)
  have "\<exists>r \<in> set (group_rules domains threshold ?b). matchesEgressRule d r"
  proof (cases "clustered domains threshold ?b")
    case True
    have "matchesEgressRule d (''*.'' @ ?b)"
      unfolding matches_wildcard using base_stable(1) [OF assms(4)] by blast
    with True show ?thesis by (simp add: group_rules_def)
  next
    case False
    with d f show ?thesis by (intro bexI [of _ d]) (simp_all add: group_rules_def matchesEgressRule_def)
  qed
  with b show ?thesis unfolding cluster_spec(3) [OF True assms(1,2)] by blast
next
  case False
  with assms show ?thesis
    by (intro bexI [of _ d]) (simp_all add: cluster_low_threshold matchesEgressRule_def)
qed

section \<open>Properties\<close>

text \<open>C35. Clustering, exactly. With a threshold above one, whatever the orders of the ranges over the maps,
  the rules are sorted and distinct; a base domain with a wildcard among its names, or with at least
  threshold distinct names, contributes the one rule "*." base (and its names are recorded under it), every
  other one contributes its names; no name is lost: each one that normalising leaves alone is matched by a
  rule the way the drift check matches.\<close>

theorem cluster_wildcards_exact:
  assumes "1 < threshold" and "range_order ord" and "range_order ord_base"
  shows "sorted (cr_rules (ClusterWildcards ord ord_base domains threshold)) \<and>
    distinct (cr_rules (ClusterWildcards ord ord_base domains threshold)) \<and>
    set (cr_rules (ClusterWildcards ord ord_base domains threshold)) =
      {''*.'' @ b | b. b \<in> bases domains \<and> clustered domains threshold b} \<union>
      {d \<in> set (clean_domains domains). \<not> clustered domains threshold (BaseDomain d)} \<and>
    map_of (cr_clusters (ClusterWildcards ord ord_base domains threshold)) (''*.'' @ b) =
      (if b \<in> bases domains \<and> clustered domains threshold b then Some (sorted_list_of_set (in_base domains b))
       else None) \<and>
    {d \<in> set (clean_domains domains). stable_name d \<and>
       \<not> isCovered d (cr_rules (ClusterWildcards ord ord_base domains threshold))} = {}"
proof -
  have f: "finite (in_base domains b)" for b by (simp add: in_base_def)
  have "(\<Union>b \<in> bases domains. set (group_rules domains threshold b)) =
      {''*.'' @ b | b. b \<in> bases domains \<and> clustered domains threshold b} \<union>
      {d \<in> set (clean_domains domains). \<not> clustered domains threshold (BaseDomain d)}"
    using f by (auto simp: group_rules_def bases_def in_base_def split: if_splits)
  with cluster_spec(1-3) [OF assms, of domains] cluster_spec(4) [OF assms, of domains b] cluster_covers [OF assms(2,3), of _ domains threshold]
  show ?thesis by (auto simp: isCovered_iff)
qed

lemma cluster_wildcards_exact_witness:
  "sorted (cr_rules (ClusterWildcards rev rev [''api.x.io'', ''www.x.io'', ''y.org''] 2)) \<and>
   map_of (cr_clusters (ClusterWildcards rev rev [''api.x.io'', ''www.x.io'', ''y.org''] 2)) (''*.'' @ ''q.io'') = None"
proof -
  have "''q.io'' \<notin> bases [''api.x.io'', ''www.x.io'', ''y.org'']"
    unfolding bases_def by code_simp
  with cluster_wildcards_exact [of 2 rev rev "[''api.x.io'', ''www.x.io'', ''y.org'']" "''q.io''"]
  show ?thesis by simp
qed

end
