(* ===== verification/ProfSimulate.thy ===== *)
theory ProfSimulate
  imports ProfCluster GoFmt IpFilter
begin

text \<open>
  internal/profiler/simulator.go: the blast radius of a policy over the observed hostnames, the audits of
  the report and its terminal text. The characters outside ASCII are their UTF-8 bytes.
\<close>

section \<open>The report\<close>

record domain_evaluation =
  de_hostname :: string
  de_query_count :: int
  de_first_seen :: gotime
  de_last_seen :: gotime
  de_matched_by :: string
  de_category :: string
  de_provider :: string

record security_audit =
  sa_level :: string
  sa_message :: string

record simulation_report =
  sr_policy_name :: string
  sr_namespace :: string
  sr_mode :: string
  sr_total :: nat
  sr_allowed_count :: nat
  sr_blocked_count :: nat
  sr_internal_count :: nat
  sr_allowed :: "domain_evaluation list"
  sr_blocked :: "domain_evaluation list"
  sr_internal :: "domain_evaluation list"
  sr_audits :: "security_audit list"
  sr_has_risk :: bool

section \<open>Simulation\<close>

text \<open>The empty string is "no rule", as in the code.\<close>

fun findMatchingRule :: "string \<Rightarrow> fqdn_rule list \<Rightarrow> string" where
  "findMatchingRule host [] = []"
| "findMatchingRule host (r # rs) =
     (let hostname = norm_host host; m = norm_host (fr_match r) in
      if hostname = m then fr_match r
      else (case cut_prefix m ''*.'' of
        Some suffix \<Rightarrow>
          if has_suffix hostname (''.'' @ suffix) \<or> hostname = suffix then fr_match r
          else findMatchingRule host rs
      | None \<Rightarrow> findMatchingRule host rs))"

definition evaluation :: "observed_domain \<Rightarrow> domain_evaluation" where
  "evaluation d = (let cl = ClassifyDomain (od_hostname d) in
     \<lparr>de_hostname = od_hostname d, de_query_count = od_query_count d, de_first_seen = od_first_seen d,
      de_last_seen = od_last_seen d, de_matched_by = [], de_category = cl_category cl,
      de_provider = cl_provider cl\<rparr>)"

fun simulate_loop :: "fqdn_rule list \<Rightarrow> observed_domain list \<Rightarrow> simulation_report \<Rightarrow> simulation_report" where
  "simulate_loop rules [] report = report"
| "simulate_loop rules (d # ds) report =
     (let ev = evaluation d in
      if IsInternalDomain (od_hostname d)
      then simulate_loop rules ds (report\<lparr>sr_internal := sr_internal report @ [ev]\<rparr>)
      else (let matched = findMatchingRule (od_hostname d) rules in
        if matched \<noteq> []
        then simulate_loop rules ds (report\<lparr>sr_allowed := sr_allowed report @ [ev\<lparr>de_matched_by := matched\<rparr>]\<rparr>)
        else simulate_loop rules ds (report\<lparr>sr_blocked := sr_blocked report @ [ev]\<rparr>)))"

abbreviation audit :: "string \<Rightarrow> string \<Rightarrow> security_audit" where
  "audit level msg \<equiv> \<lparr>sa_level = level, sa_message = msg\<rparr>"

definition wildcard_audits :: "fqdn_rule \<Rightarrow> security_audit list" where
  "wildcard_audits r = (let m = trim_space (fr_match r) in
     (if m = ''*'' \<or> m = ''*.*''
      then [audit ''WARNING'' (''Rule '' @ go_quote m @ '' matches everything, effectively disabling egress filtering.'')]
      else []) @
     (if has_prefix m ''*.'' \<and> \<not> contains_str (trim_prefix m ''*.'') ''.''
      then [audit ''WARNING'' (''Wildcard rule '' @ go_quote m @
              '' is dangerously broad (covers entire top-level domain).'')]
      else []))"

definition private_audit :: "security_spec option \<Rightarrow> security_audit" where
  "private_audit sec = (case sec of
     Some s \<Rightarrow> (if ss_block_private s = Some True
       then audit ''INFO'' ''DNS safety guard active: private/loopback/link-local IPs will be blocked.''
       else audit ''WARNING'' (''spec.security.blockPrivateIPs is not enabled; DNS rebinding to internal/'' @
              ''link-local IPs (e.g. cloud metadata 169.254.169.254) is possible.''))
   | None \<Rightarrow> audit ''WARNING'' (''spec.security.blockPrivateIPs is not enabled; DNS rebinding to internal/'' @
              ''link-local IPs (e.g. cloud metadata 169.254.169.254) is possible.''))"

definition runSecurityAudits :: "fqdn_policy \<Rightarrow> simulation_report \<Rightarrow> simulation_report" where
  "runSecurityAudits p report = report\<lparr>sr_audits := sr_audits report @
     (if sp_egress (fp_spec p) = []
      then [audit ''CRITICAL'' (''Policy specifies no egress rules. If enforced, '' @
              ''ALL outbound traffic (except DNS) will be blocked!'')]
      else []) @
     concat (map wildcard_audits (sp_egress (fp_spec p))) @
     [private_audit (sp_security (fp_spec p))] @
     (if sp_mode (fp_spec p) = PolicyModeAudit
      then [audit ''INFO'' ''Policy is in Audit mode: no traffic will be dropped upon application.'']
      else if 0 < sr_blocked_count report
      then [audit ''CRITICAL'' (''Policy is in Enforce mode and '' @ itoa (sr_blocked_count report) @
              '' observed domains will be immediately BLOCKED!'')]
      else [])\<rparr>"

definition Simulate :: "fqdn_policy option \<Rightarrow> observed_domain list \<Rightarrow> string + simulation_report" where
  "Simulate policy observed = (case policy of
     None \<Rightarrow> Inl ''policy is nil''
   | Some p \<Rightarrow>
       let mode = sp_mode (fp_spec p);
           report = \<lparr>sr_policy_name = om_name (fp_meta p), sr_namespace = om_namespace (fp_meta p),
             sr_mode = (if mode = [] then ''Audit'' else mode), sr_total = length observed,
             sr_allowed_count = 0, sr_blocked_count = 0, sr_internal_count = 0,
             sr_allowed = [], sr_blocked = [], sr_internal = [], sr_audits = [], sr_has_risk = False\<rparr>;
           looped = simulate_loop (sp_egress (fp_spec p)) observed report;
           counted = looped\<lparr>sr_allowed_count := length (sr_allowed looped),
             sr_blocked_count := length (sr_blocked looped),
             sr_internal_count := length (sr_internal looped),
             sr_has_risk := 0 < length (sr_blocked looped)\<rparr>
       in Inr (runSecurityAudits p counted))"

section \<open>The terminal report\<close>

abbreviation check_mark :: string where "check_mark \<equiv> [CHR 0xE2, CHR 0x9C, CHR 0x93]"
abbreviation cross_mark :: string where "cross_mark \<equiv> [CHR 0xE2, CHR 0x9C, CHR 0x97]"
abbreviation warning_sign :: string where
  "warning_sign \<equiv> [CHR 0xE2, CHR 0x9A, CHR 0xA0, CHR 0xEF, CHR 0xB8, CHR 0x8F]"
abbreviation info_sign :: string where "info_sign \<equiv> [CHR 0xE2, CHR 0x84, CHR 0xB9]"

definition section_head :: "string \<Rightarrow> string" where
  "section_head title = replicate 80 CHR ''-'' @ newline @ title @ newline @ replicate 80 CHR ''-'' @ newline"

definition blocked_line :: "domain_evaluation \<Rightarrow> string" where
  "blocked_line d = ''  '' @ cross_mark @ '' '' @ pad_right 32 (de_hostname d) @ '' ['' @ de_category d @ '' / '' @
     de_provider d @ '']'' @
     (if 0 < de_query_count d then '' (queries: '' @ itoa_int (de_query_count d) @ '')'' else []) @ newline"

definition allowed_line :: "domain_evaluation \<Rightarrow> string" where
  "allowed_line d = ''  '' @ check_mark @ '' '' @ pad_right 32 (de_hostname d) @ '' (matched by: '' @
     de_matched_by d @ '')'' @ newline"

definition audit_line :: "security_audit \<Rightarrow> string" where
  "audit_line a = ''  ['' @ sa_level a @ ''] '' @
     (if sa_level a = ''WARNING'' then ''!'' else if sa_level a = ''CRITICAL'' then cross_mark else info_sign) @
     '' '' @ sa_message a @ newline"

definition report_String :: "simulation_report \<Rightarrow> string" where
  "report_String r =
     (let banner = replicate 80 CHR ''='' in
      banner @ newline @
      '' BLAST RADIUS REPORT: '' @ sr_namespace r @ ''/'' @ sr_policy_name r @ '' (Mode: '' @ sr_mode r @ '')'' @ newline @
      banner @ newline @ newline @
      (if sr_has_risk r
       then warning_sign @ ''  RISK DETECTED: '' @ itoa (sr_blocked_count r) @
         '' actively observed domain(s) would be BLOCKED!'' @ newline @ newline
       else check_mark @ '' SAFE: All observed external domains are permitted by the proposed policy.'' @
         newline @ newline) @
      ''Coverage Breakdown:'' @ newline @
      ''  Total Domains Observed:  '' @ itoa (sr_total r) @ newline @
      ''  Allowed by Policy:       '' @ itoa (sr_allowed_count r) @ newline @
      ''  BLOCKED (Blast Radius):  '' @ itoa (sr_blocked_count r) @ newline @
      ''  Internal K8s (Ignored):  '' @ itoa (sr_internal_count r) @ newline @ newline @
      (if 0 < length (sr_blocked r)
       then section_head '' [BLAST RADIUS] DOMAINS THAT WOULD BE BLOCKED:'' @
         concat (map blocked_line (sr_blocked r)) @ newline
       else []) @
      (if 0 < length (sr_allowed r)
       then section_head '' [ALLOWED] DOMAINS PERMITTED BY POLICY:'' @
         concat (map allowed_line (take (min (length (sr_allowed r)) 10) (sr_allowed r))) @
         (if 10 < length (sr_allowed r)
          then ''  ... and '' @ itoa (length (sr_allowed r) - 10) @ '' more allowed domains'' @ newline else []) @
         newline
       else []) @
      (if 0 < length (sr_audits r)
       then section_head '' SECURITY & SANITY AUDIT:'' @ concat (map audit_line (sr_audits r)) @ newline
       else []) @
      banner @ newline)"

section \<open>Lemmas\<close>

text \<open>The simulator decides coverage the way the drift check does, on normal forms.\<close>

definition simulated_cover :: "fqdn_rule list \<Rightarrow> string \<Rightarrow> bool" where
  "simulated_cover rules h \<longleftrightarrow> isCovered (norm_host h) (map (\<lambda>r. norm_host (fr_match r)) rules)"

lemma norm_Nil: "norm_host [] = []" by code_simp

lemma matching_rule_iff:
  assumes "norm_host h \<noteq> []"
  shows "findMatchingRule h rules \<noteq> [] \<longleftrightarrow> simulated_cover rules h"
proof (induction rules)
  case (Cons r rs)
  show ?case
  proof (cases "matchesEgressRule (norm_host h) (norm_host (fr_match r))")
    case True
    have "fr_match r \<noteq> []"
    proof
      assume "fr_match r = []"
      then have "norm_host (fr_match r) = []" by (simp add: norm_Nil)
      with True assms show False by (simp add: matchesEgressRule_def cut_prefix_def has_prefix_def)
    qed
    moreover have "findMatchingRule h (r # rs) = fr_match r"
      using True by (cases "cut_prefix (norm_host (fr_match r)) ''*.''")
        (auto simp: matchesEgressRule_def Let_def split: if_splits)
    ultimately show ?thesis using True by (simp add: simulated_cover_def)
  next
    case False
    then have "findMatchingRule h (r # rs) = findMatchingRule h rs"
      by (cases "cut_prefix (norm_host (fr_match r)) ''*.''")
        (auto simp: matchesEgressRule_def Let_def split: if_splits)
    with Cons False show ?thesis by (simp add: simulated_cover_def)
  qed
qed (simp add: simulated_cover_def)

lemma matching_rule_member: "findMatchingRule h rules = [] \<or> findMatchingRule h rules \<in> set (map fr_match rules)"
  by (induction rules) (auto simp: Let_def split: option.split)

text \<open>The loop appends to the three lists and leaves the rest.\<close>

definition allowed_evaluation :: "fqdn_rule list \<Rightarrow> observed_domain \<Rightarrow> domain_evaluation" where
  "allowed_evaluation rules d = (evaluation d)\<lparr>de_matched_by := findMatchingRule (od_hostname d) rules\<rparr>"

lemma simulate_loop_spec:
  "simulate_loop rules ds report = report
     \<lparr>sr_internal := sr_internal report @ map evaluation (filter (\<lambda>d. IsInternalDomain (od_hostname d)) ds),
      sr_allowed := sr_allowed report @ map (allowed_evaluation rules)
        (filter (\<lambda>d. \<not> IsInternalDomain (od_hostname d) \<and> simulated_cover rules (od_hostname d)) ds),
      sr_blocked := sr_blocked report @ map evaluation
        (filter (\<lambda>d. \<not> IsInternalDomain (od_hostname d) \<and> \<not> simulated_cover rules (od_hostname d)) ds)\<rparr>"
proof (induction ds arbitrary: report)
  case (Cons d ds)
  show ?case
  proof (cases "IsInternalDomain (od_hostname d)")
    case True
    then show ?thesis by (simp add: Cons.IH Let_def)
  next
    case False
    with norm_external matching_rule_iff [of "od_hostname d" rules]
    have "findMatchingRule (od_hostname d) rules \<noteq> [] \<longleftrightarrow> simulated_cover rules (od_hostname d)" by simp
    with False show ?thesis by (simp add: Cons.IH Let_def allowed_evaluation_def)
  qed
qed simp

lemma simulate_facts:
  "\<exists>r. Simulate (Some p) observed = Inr r \<and>
    sr_total r = length observed \<and>
    sr_internal r = map evaluation (filter (\<lambda>d. IsInternalDomain (od_hostname d)) observed) \<and>
    sr_allowed r = map (allowed_evaluation (sp_egress (fp_spec p))) (filter (\<lambda>d. \<not> IsInternalDomain (od_hostname d) \<and>
        simulated_cover (sp_egress (fp_spec p)) (od_hostname d)) observed) \<and>
    sr_blocked r = map evaluation (filter (\<lambda>d. \<not> IsInternalDomain (od_hostname d) \<and>
        \<not> simulated_cover (sp_egress (fp_spec p)) (od_hostname d)) observed) \<and>
    sr_internal_count r = length (sr_internal r) \<and> sr_allowed_count r = length (sr_allowed r) \<and>
    sr_blocked_count r = length (sr_blocked r) \<and> (sr_has_risk r \<longleftrightarrow> sr_blocked r \<noteq> [])"
  by (simp add: Simulate_def Let_def runSecurityAudits_def simulate_loop_spec)

lemma partition3: "length xs = length (filter P xs) + length (filter (\<lambda>x. \<not> P x \<and> Q x) xs) +
    length (filter (\<lambda>x. \<not> P x \<and> \<not> Q x) xs)"
  by (induction xs) auto

lemma hostname_evaluation: "de_hostname (evaluation d) = od_hostname d"
    "de_hostname (allowed_evaluation rules d) = od_hostname d"
  by (simp_all add: evaluation_def allowed_evaluation_def Let_def)

section \<open>Properties\<close>

text \<open>C36. The blast radius, exactly. Simulating a policy always succeeds and partitions the observed
  hostnames in their order: the internal ones; the allowed ones, whose normal form a rule's normal form
  covers as in the drift check, each attributed to a rule of the policy; the blocked ones. The counts
  are the lengths of the lists and add up to the total, and the report carries a risk exactly when
  something is blocked.\<close>

theorem simulate_partitions:
  "\<exists>r. Simulate (Some p) observed = Inr r \<and>
    map de_hostname (sr_internal r) = filter IsInternalDomain (map od_hostname observed) \<and>
    map de_hostname (sr_allowed r) = filter (\<lambda>h. \<not> IsInternalDomain h \<and>
      isCovered (norm_host h) (map (\<lambda>r. norm_host (fr_match r)) (sp_egress (fp_spec p)))) (map od_hostname observed) \<and>
    map de_hostname (sr_blocked r) = filter (\<lambda>h. \<not> IsInternalDomain h \<and>
      \<not> isCovered (norm_host h) (map (\<lambda>r. norm_host (fr_match r)) (sp_egress (fp_spec p)))) (map od_hostname observed) \<and>
    de_matched_by ` set (sr_allowed r) \<subseteq> fr_match ` set (sp_egress (fp_spec p)) \<and>
    sr_internal_count r = length (sr_internal r) \<and> sr_allowed_count r = length (sr_allowed r) \<and>
    sr_blocked_count r = length (sr_blocked r) \<and>
    sr_total r = sr_allowed_count r + sr_blocked_count r + sr_internal_count r \<and>
    (sr_has_risk r \<longleftrightarrow> sr_blocked r \<noteq> [])"
proof -
  let ?rules = "sp_egress (fp_spec p)"
  obtain r where r: "Simulate (Some p) observed = Inr r" "sr_total r = length observed"
    "sr_internal r = map evaluation (filter (\<lambda>d. IsInternalDomain (od_hostname d)) observed)"
    "sr_allowed r = map (allowed_evaluation ?rules) (filter (\<lambda>d. \<not> IsInternalDomain (od_hostname d) \<and>
        simulated_cover ?rules (od_hostname d)) observed)"
    "sr_blocked r = map evaluation (filter (\<lambda>d. \<not> IsInternalDomain (od_hostname d) \<and>
        \<not> simulated_cover ?rules (od_hostname d)) observed)"
    "sr_internal_count r = length (sr_internal r)" "sr_allowed_count r = length (sr_allowed r)"
    "sr_blocked_count r = length (sr_blocked r)" "sr_has_risk r \<longleftrightarrow> sr_blocked r \<noteq> []"
    using simulate_facts [of p observed] by blast
  have m: "de_matched_by (allowed_evaluation ?rules d) \<in> fr_match ` set ?rules"
    if "\<not> IsInternalDomain (od_hostname d)" "simulated_cover ?rules (od_hostname d)" for d
    using matching_rule_iff [OF norm_external [OF that(1)], of ?rules] that(2)
      matching_rule_member [of "od_hostname d" ?rules] by (simp add: allowed_evaluation_def)
  show ?thesis
  proof (intro exI [of _ r] conjI)
    show "de_matched_by ` set (sr_allowed r) \<subseteq> fr_match ` set ?rules" using m by (auto simp: r(4))
    show "sr_total r = sr_allowed_count r + sr_blocked_count r + sr_internal_count r"
      using partition3 [of observed "\<lambda>d. IsInternalDomain (od_hostname d)" "\<lambda>d. simulated_cover ?rules (od_hostname d)"]
      by (simp add: r(2-8))
  qed (use r(1,6-9) in \<open>simp_all add: r(3-5) hostname_evaluation simulated_cover_def filter_map comp_def\<close>)
qed

text \<open>The report of a policy that leaves its mode unset: the header says Audit, the audit says Enforce.\<close>

lemma simulate_unset_mode:
  assumes "sp_mode (fp_spec p) = []" "Simulate (Some p) observed = Inr r" "sr_blocked r \<noteq> []"
  shows "sr_mode r = ''Audit''"
    "audit ''CRITICAL'' (''Policy is in Enforce mode and '' @ itoa (length (sr_blocked r)) @
       '' observed domains will be immediately BLOCKED!'') \<in> set (sr_audits r)"
  using assms by (auto simp: Simulate_def Let_def runSecurityAudits_def simulate_loop_spec)

text \<open>A policy that leaves blockPrivateIPs unset is warned about, though the filter then blocks.\<close>

lemma simulate_unset_private:
  assumes "sp_security (fp_spec p) = None" "Simulate (Some p) observed = Inr r"
  shows "private_audit None \<in> set (sr_audits r)" "sa_level (private_audit None) = ''WARNING''"
    "doBlock (sp_security (fp_spec p)) ss_block_private"
  using assms by (auto simp: Simulate_def Let_def runSecurityAudits_def private_audit_def doBlock_def)

end
