(* ===== verification/ProfSynthesize.thy ===== *)
theory ProfSynthesize
  imports ProfSimulate Webhook
begin

text \<open>
  internal/profiler/synthesizer.go: a policy from observed traffic. The type tag of the object (TypeMeta) is
  its record type; the creation stamp in the annotations (time.Now in RFC 3339) and the orders of the
  ranges over the maps of the clustering are arguments.
\<close>

section \<open>Options and summary\<close>

record profile_options =
  po_policy_name :: string
  po_namespace :: string
  po_pod_selector :: "(string, string) gomap option"
  po_threshold :: int
  po_mode :: policy_mode
  po_preset :: string
  po_observed :: "observed_domain list"
  po_source :: string

record profile_summary =
  ps_total :: nat
  ps_internal :: nat
  ps_external :: nat
  ps_rules :: nat
  ps_wildcards :: nat
  ps_categories :: "(string, int) gomap"
  ps_rollups :: "(string, string list) gomap"

section \<open>Synthesis\<close>

definition buildSecurityConfig :: "string \<Rightarrow> security_spec" where
  "buildSecurityConfig preset =
     (let none = \<lparr>ss_max_cname_depth = None, ss_block_private = None, ss_block_loopback = None,
        ss_block_link_local = None, ss_block_on_divergence = None, ss_min_agreement = None\<rparr> in
      if preset = ''strict''
      then none\<lparr>ss_block_private := Some True, ss_block_on_divergence := Some True, ss_min_agreement := Some 3\<rparr>
      else if preset = ''relaxed''
      then none\<lparr>ss_block_private := Some False, ss_block_on_divergence := Some False\<rparr>
      else none\<lparr>ss_block_private := Some True, ss_block_on_divergence := Some False\<rparr>)"

definition with_defaults :: "profile_options \<Rightarrow> profile_options" where
  "with_defaults opts = opts
     \<lparr>po_policy_name := (if po_policy_name opts = [] then ''discovered-egress-policy'' else po_policy_name opts),
      po_namespace := (if po_namespace opts = [] then ''default'' else po_namespace opts),
      po_mode := (if po_mode opts = [] then PolicyModeAudit else po_mode opts),
      po_threshold := (if po_threshold opts \<le> 0 then 3 else po_threshold opts),
      po_preset := (if po_preset opts = [] then ''production'' else po_preset opts)\<rparr>"

definition synthesized_rule :: "string \<Rightarrow> fqdn_rule" where
  "synthesized_rule m = \<lparr>fr_match = m, fr_ports = [\<lparr>pp_protocol = ''TCP'', pp_port = 443\<rparr>]\<rparr>"

fun rule_loop :: "string list \<Rightarrow> (string, int) gomap \<times> fqdn_rule list \<Rightarrow> (string, int) gomap \<times> fqdn_rule list" where
  "rule_loop [] acc = acc"
| "rule_loop (m # ms) (counts, egress) =
     (let c = cl_category (ClassifyDomain m) in
      rule_loop ms (put c (count_of counts c + 1) counts, egress @ [synthesized_rule m]))"

definition SynthesizePolicy ::
  "(string list \<Rightarrow> string list) \<Rightarrow> ((string \<times> string list) list \<Rightarrow> (string \<times> string list) list) \<Rightarrow>
   string \<Rightarrow> profile_options \<Rightarrow> fqdn_policy \<times> profile_summary" where
  "SynthesizePolicy ord ord_base stamp raw =
     (let opts = with_defaults raw;
          (external, internal) = FilterDomains (po_observed opts);
          res = ClusterWildcards ord ord_base (map od_hostname external) (po_threshold opts);
          (counts, egress) = rule_loop (cr_rules res) ([], []);
          annotations =
            [(''netsec.kunal.dev/profiled-at'', stamp),
             (''netsec.kunal.dev/profile-source'', po_source opts),
             (''netsec.kunal.dev/profile-observed-count'', itoa (length (po_observed opts))),
             (''netsec.kunal.dev/profile-internal-count'', itoa (length internal)),
             (''netsec.kunal.dev/profile-rules-count'', itoa (length (cr_rules res))),
             (''netsec.kunal.dev/profile-wildcards-clustered'', itoa (length (cr_clusters res)))]
      in (\<lparr>fp_meta = \<lparr>om_name = po_policy_name opts, om_namespace = po_namespace opts, om_uid = [],
             om_generation = 0, om_created = zero_time,
             om_labels = [(''app.kubernetes.io/managed-by'', ''kubectl-fqdn_policy''),
               (''netsec.kunal.dev/profiled'', ''true'')],
             om_annotations = annotations\<rparr>,
           fp_spec = \<lparr>sp_pod_selector = \<lparr>pss_selector =
               \<lparr>ls_match_labels = (case po_pod_selector opts of None \<Rightarrow> [] | Some m \<Rightarrow> m), ls_match_expressions = []\<rparr>\<rparr>,
             sp_egress = egress, sp_mode = po_mode opts, sp_ttl_override = None, sp_coredns = [],
             sp_security = Some (buildSecurityConfig (po_preset opts))\<rparr>,
           fp_status = \<lparr>st_resolved_hosts = [], st_generated = [], st_conditions = [],
             st_observed_generation = 0, st_unpolicied = []\<rparr>\<rparr>,
          \<lparr>ps_total = length (po_observed opts), ps_internal = length internal, ps_external = length external,
           ps_rules = length (cr_rules res), ps_wildcards = length (cr_clusters res), ps_categories = counts,
           ps_rollups = cr_clusters res\<rparr>))"

text \<open>The recap the plugin prints; the orders of its two ranges are sorted away.\<close>

definition summary_String ::
  "((string \<times> int) list \<Rightarrow> (string \<times> int) list) \<Rightarrow> (string list \<Rightarrow> string list) \<Rightarrow> profile_summary \<Rightarrow> string" where
  "summary_String ord_cat ord s =
     (let categories = sort_strings (map (\<lambda>(cat, n). ''    - '' @ cat @ '': '' @ itoa_int n @ '' rule(s)'')
            (ord_cat (ps_categories s)));
          catOutput = concat (map (\<lambda>line. line @ newline) categories);
          wildcardOutput =
            (if 0 < length (ps_rollups s)
             then ''  Clustered Wildcards:'' @ newline @
               concat (map (\<lambda>k. ''    * '' @ k @ '' (aggregated '' @
                   itoa (length (case map_of (ps_rollups s) k of None \<Rightarrow> [] | Some subs \<Rightarrow> subs)) @
                   '' subdomains)'' @ newline)
                 (sort_strings (ord (keys (ps_rollups s)))))
             else [])
      in ''Profile Summary:'' @ newline @
         ''  Total Observed Queries:   '' @ itoa (ps_total s) @ newline @
         ''  Internal Domains Filtered: '' @ itoa (ps_internal s) @ newline @
         ''  External Candidates:      '' @ itoa (ps_external s) @ newline @
         ''  Generated Egress Rules:   '' @ itoa (ps_rules s) @ newline @
         ''  Wildcards Aggregated:     '' @ itoa (ps_wildcards s) @ newline @
         ''  Categories:'' @ newline @ catOutput @ wildcardOutput)"

section \<open>Lemmas\<close>

lemma rule_loop_rules: "snd (rule_loop ms (counts, egress)) = egress @ map synthesized_rule ms"
  by (induction ms arbitrary: counts egress) (simp_all add: Let_def)

abbreviation synthesized :: "(string list \<Rightarrow> string list) \<Rightarrow>
   ((string \<times> string list) list \<Rightarrow> (string \<times> string list) list) \<Rightarrow> profile_options \<Rightarrow> string list" where
  "synthesized ord ord_base opts \<equiv> cr_rules (ClusterWildcards ord ord_base
     (map od_hostname (filter (\<lambda>d. \<not> IsInternalDomain (od_hostname d)) (po_observed opts)))
     (po_threshold (with_defaults opts)))"

lemma observed_defaults: "po_observed (with_defaults opts) = po_observed opts"
  by (simp add: with_defaults_def)

lemma synthesized_egress:
  "sp_egress (fp_spec (fst (SynthesizePolicy ord ord_base stamp opts))) =
     map synthesized_rule (synthesized ord ord_base opts)"
  using rule_loop_rules [of "synthesized ord ord_base opts" "[]" "[]"]
  by (simp add: SynthesizePolicy_def FilterDomains_def observed_defaults Let_def case_prod_beta)

lemma synthesized_match: "fr_match (synthesized_rule m) = m"
  by (simp add: synthesized_rule_def)

text \<open>Every rule of the synthesis is in normal form when the observed names are.\<close>

definition external_names :: "profile_options \<Rightarrow> string set" where
  "external_names opts = norm_host ` {h \<in> set (map od_hostname (po_observed opts)). \<not> IsInternalDomain h}"

lemma clean_external:
  "set (clean_domains (map od_hostname (filter (\<lambda>d. \<not> IsInternalDomain (od_hostname d)) (po_observed opts)))) =
     external_names opts"
  using norm_external by (auto simp: clean_domains_def external_names_def)

lemma synthesized_forms:
  assumes "range_order ord" "range_order ord_base" "r \<in> set (synthesized ord ord_base opts)"
  shows "r \<in> external_names opts \<or> (\<exists>d \<in> external_names opts. r = ''*.'' @ BaseDomain d)"
  using rule_forms [OF assms] unfolding bases_def clean_external by blast

lemma synthesized_normal:
  assumes "range_order ord" "range_order ord_base" "external_names opts \<subseteq> Collect stable_name"
    "r \<in> set (synthesized ord ord_base opts)"
  shows "norm_host r = r"
  using synthesized_forms [OF assms(1,2,4)] assms(3) stable_norm base_stable(3) by blast

lemma synthesized_covers:
  assumes "range_order ord" "range_order ord_base" "external_names opts \<subseteq> Collect stable_name"
    "h \<in> set (map od_hostname (po_observed opts))" "\<not> IsInternalDomain h"
  shows "isCovered (norm_host h) (map (\<lambda>r. norm_host (fr_match r))
    (sp_egress (fp_spec (fst (SynthesizePolicy ord ord_base stamp opts)))))"
proof -
  have d: "norm_host h \<in> external_names opts" using assms(4,5) by (auto simp: external_names_def)
  from cluster_covers [OF assms(1,2) d [folded clean_external]] assms(3) d
  obtain r where r: "r \<in> set (synthesized ord ord_base opts)" "matchesEgressRule (norm_host h) r" by blast
  have "norm_host r = r" by (rule synthesized_normal [OF assms(1-3) r(1)])
  with r show ?thesis by (auto simp: isCovered_iff synthesized_egress synthesized_match intro!: bexI [of _ r])
qed

text \<open>Names and base domains the admission webhook accepts.\<close>

lemma lower_idem: "lower_char (lower_char c) = lower_char c"
  by (simp add: lower_char_def)

lemma norm_lower: "to_lower (norm_host h) = norm_host h"
  by (simp add: norm_host_def trim_suffix_def to_lower_def take_map lower_idem comp_def)

lemma last_split_sep: "last (split_on d (e @ [d])) = []"
proof (induction e)
  case (Cons c e)
  obtain y ys where "split_on d (e @ [d]) = y # ys" by (cases "split_on d (e @ [d])") auto
  moreover from this have "ys \<noteq> [] \<or> e = []"
    using Cons by (cases e) (auto split: if_splits list.splits)
  ultimately show ?case using Cons by auto
qed simp

lemma body_stable:
  assumes "fqdn_body (norm_host h)"
  shows "stable_name (norm_host h)"
proof -
  let ?d = "norm_host h"
  have sp: "\<not> is_space c" if "c \<in> set ?d" for c
    using fqdn_body_chars [OF assms that] by (auto simp: is_space_def is_alnum_hyphen_def is_alnum_def is_alpha_def)
  have n: "?d \<noteq> []" using assms by (auto simp: fqdn_body_def)
  have l: "last ?d \<noteq> CHR ''.''"
  proof
    assume "last ?d = CHR ''.''"
    then obtain e where e: "?d = e @ CHR ''.'' # []" using n by (metis append_butlast_last_id)
    have "last (split_on CHR ''.'' ?d) = []" unfolding e by (rule last_split_sep)
    with assms show False by (simp add: fqdn_body_def tld_ok_def)
  qed
  show ?thesis using n l sp [of "hd ?d"] sp [of "last ?d"] by (simp add: stable_name_def norm_lower)
qed

lemma base_body:
  assumes "fqdn_body (norm_host h)"
  shows "fqdn_body (BaseDomain h)"
proof (cases "BaseDomain h = norm_host h")
  case False
  let ?ps = "split_on CHR ''.'' (norm_host h)"
  from False base_is_parts [of h] obtain k where k: "k < length ?ps" "2 \<le> k"
    "BaseDomain h = join_str ''.'' (drop (length ?ps - k) ?ps)" by blast
  let ?qs = "drop (length ?ps - k) ?ps"
  have "split_on CHR ''.'' (join_str ''.'' ?qs) = ?qs"
    using k split_on_parts by (intro split_join) (auto dest!: in_set_dropD)
  moreover have "length ?qs = k" using k(1) by simp
  moreover have "set (butlast ?qs) \<subseteq> set (butlast ?ps)" "last ?qs = last ?ps"
    using k(1,2) by (auto simp: butlast_drop dest: in_set_dropD)
  ultimately show ?thesis using assms k(2,3) by (auto simp: fqdn_body_def Let_def list_all_iff)
qed (simp add: assms)

lemma tld_not_octet: "tld_ok t \<Longrightarrow> parse_octet t = None"
  by (cases t) (auto simp: tld_ok_def parse_octet_def digit_val_def is_alpha_def Let_def)

lemma body_no_ip:
  assumes "fqdn_body b"
  shows "parse_ip b = None" "parse_ip (''*.'' @ b) = None"
proof -
  have p4: "parse_ipv4 s = None" if "tld_ok (last (split_on CHR ''.'' s))" for s
  proof (rule ccontr)
    assume "parse_ipv4 s \<noteq> None"
    then obtain bs where "map parse_octet (split_on CHR ''.'' s) = map Some bs"
      using ipv4_fields_parts by (auto simp: parse_ipv4_def)
    moreover have "last (split_on CHR ''.'' s) \<in> set (split_on CHR ''.'' s)" by simp
    ultimately have "parse_octet (last (split_on CHR ''.'' s)) \<in> set (map Some bs)" by (metis image_eqI list.set_map)
    with tld_not_octet [OF that] show False by auto
  qed
  have fd: "find (\<lambda>c. c = CHR ''.'' \<or> c = CHR '':'' \<or> c = CHR 0x25) s \<in> {None, Some CHR ''.''}"
    if "\<And>c. c \<in> set s \<Longrightarrow> is_alnum_hyphen c \<or> c = CHR ''.'' \<or> c = CHR ''*''" for s
    using that
  proof (induction s)
    case (Cons c s)
    have "c \<noteq> CHR '':''" "c \<noteq> CHR 0x25"
      using Cons.prems [of c] by (auto simp: is_alnum_hyphen_def is_alnum_def is_alpha_def)
    with Cons show ?case by auto
  qed simp
  have none: "parse_ip s = None"
    if "\<And>c. c \<in> set s \<Longrightarrow> is_alnum_hyphen c \<or> c = CHR ''.'' \<or> c = CHR ''*''" "parse_ipv4 s = None" for s
    using fd [of s, OF that(1)] that(2) by (auto simp: parse_ip_def)
  have t: "tld_ok (last (split_on CHR ''.'' b))" using assms by (simp add: fqdn_body_def Let_def)
  have t2: "tld_ok (last (split_on CHR ''.'' (''*.'' @ b)))" using t by simp
  show "parse_ip b = None"
    by (rule none) (use fqdn_body_chars [OF assms] p4 [OF t] in auto)
  show "parse_ip (''*.'' @ b) = None"
    by (rule none) (use fqdn_body_chars [OF assms] p4 [OF t2] in auto)
qed

lemma synthesized_rule_valid:
  assumes "fqdn_body m \<or> (\<exists>b. m = ''*.'' @ b \<and> fqdn_body b)"
  shows "rule_valid True (synthesized_rule m)"
proof -
  have "valid_fqdn m"
    using assms fqdn_body_no_star [of m]
    by (auto simp: valid_fqdn_def trim_prefix_def has_prefix_iff)
  moreover have "parse_ip m = None" using assms body_no_ip by (elim disjE exE conjE) simp_all
  ultimately show ?thesis
    by (simp add: rule_valid_def synthesized_rule_def port_valid_def)
qed

lemma cluster_distinct:
  assumes "range_order ord" "range_order ord_base"
  shows "distinct (cr_rules (ClusterWildcards ord ord_base domains threshold))"
  using cluster_spec(2) [OF _ assms] cluster_low_threshold [OF _ assms(1)]
  by (cases "1 < threshold") simp_all

section \<open>Properties\<close>

text \<open>C37. A synthesized policy has no blast radius. Simulating the policy that the profiler synthesizes, over
  the observed names it was synthesized from, blocks none of them, whatever the threshold, the preset and
  the orders of the maps, as long as normalising the external names twice changes nothing more.\<close>

theorem synthesized_no_blast_radius:
  assumes "range_order ord" and "range_order ord_base" and "external_names opts \<subseteq> Collect stable_name"
  shows "\<exists>r. Simulate (Some (fst (SynthesizePolicy ord ord_base stamp opts))) (po_observed opts) = Inr r \<and>
    sr_blocked r = [] \<and> \<not> sr_has_risk r"
proof -
  let ?p = "fst (SynthesizePolicy ord ord_base stamp opts)"
  have "filter (\<lambda>d. \<not> IsInternalDomain (od_hostname d) \<and>
      \<not> simulated_cover (sp_egress (fp_spec ?p)) (od_hostname d)) (po_observed opts) = []"
    using synthesized_covers [OF assms] by (auto simp: simulated_cover_def filter_empty_conv)
  with simulate_facts [of ?p "po_observed opts"] show ?thesis by (metis list.simps(8))
qed

definition sample_observed :: "string \<Rightarrow> observed_domain" where
  "sample_observed h = \<lparr>od_hostname = h, od_first_seen = 0, od_last_seen = 0, od_ports = [], od_query_count = 1\<rparr>"

definition sample_options :: profile_options where
  "sample_options = \<lparr>po_policy_name = [], po_namespace = ''prod'', po_pod_selector = None, po_threshold = 2,
     po_mode = [], po_preset = ''strict'',
     po_observed = map sample_observed [''API.x.io.'', ''www.x.io'', ''y.org'', ''db.prod.svc''], po_source = ''file''\<rparr>"

lemma sample_names: "external_names sample_options = {''api.x.io'', ''www.x.io'', ''y.org''}"
proof -
  have "map norm_host (filter (\<lambda>h. \<not> IsInternalDomain h) (map od_hostname (po_observed sample_options))) =
      [''api.x.io'', ''www.x.io'', ''y.org'']" by code_simp
  moreover have "external_names sample_options =
      set (map norm_host (filter (\<lambda>h. \<not> IsInternalDomain h) (map od_hostname (po_observed sample_options))))"
    by (auto simp: external_names_def)
  ultimately show ?thesis by simp
qed

lemma synthesized_no_blast_radius_witness:
  "\<exists>r. Simulate (Some (fst (SynthesizePolicy rev rev ''now'' sample_options))) (po_observed sample_options) = Inr r \<and>
     sr_blocked r = []"
proof -
  have "external_names sample_options \<subseteq> Collect stable_name"
    unfolding sample_names by (simp add: stable_name_def to_lower_def lower_char_def is_space_def)
  from synthesized_no_blast_radius [OF range_order_rev range_order_rev this] show ?thesis by blast
qed

text \<open>C38. A synthesized policy passes admission. When the external names are plain valid names, the
  webhook (with the snoop resolver, which wildcards need) finds nothing wrong with the synthesized rules:
  every one is a valid name or the wildcard over a valid base domain, none is an address, none appears
  twice, and their port is valid.\<close>

theorem synthesized_policy_admitted:
  assumes "range_order ord" and "range_order ord_base" and "external_names opts \<subseteq> Collect fqdn_body"
  shows "validateEgressRules (sp_egress (fp_spec (fst (SynthesizePolicy ord ord_base stamp opts)))) True = []"
proof -
  have "rule_valid True (synthesized_rule r)" if "r \<in> set (synthesized ord ord_base opts)" for r
  proof (rule synthesized_rule_valid)
    have "fqdn_body (BaseDomain d)" if d: "d \<in> external_names opts" for d
    proof -
      from d assms(3) have b: "fqdn_body d" by blast
      from d obtain h where h: "d = norm_host h" by (auto simp: external_names_def)
      have "norm_host d = d" using body_stable b stable_norm unfolding h by blast
      with b base_body [of d] show ?thesis by simp
    qed
    with synthesized_forms [OF assms(1,2) that] assms(3)
    show "fqdn_body r \<or> (\<exists>b. r = ''*.'' @ b \<and> fqdn_body b)" by blast
  qed
  then show ?thesis
    unfolding validate_Nil synthesized_egress
    using cluster_distinct [OF assms(1,2)] by (simp add: list_all_iff comp_def synthesized_match)
qed

lemma synthesized_policy_admitted_witness:
  "validateEgressRules (sp_egress (fp_spec (fst (SynthesizePolicy rev rev ''now'' sample_options)))) True = []"
proof -
  have "list_all fqdn_body [''api.x.io'', ''www.x.io'', ''y.org'']" by code_simp
  then have "external_names sample_options \<subseteq> Collect fqdn_body" unfolding sample_names by simp
  from synthesized_policy_admitted [OF range_order_rev range_order_rev this] show ?thesis .
qed

text \<open>A threshold of zero does not turn the clustering off: it is replaced by three.\<close>

lemma synthesize_zero_threshold: "po_threshold (with_defaults (opts\<lparr>po_threshold := 0\<rparr>)) = 3"
  by (simp add: with_defaults_def)

end
