(* ===== verification/PluginHelpers.thy ===== *)
theory PluginHelpers
  imports MainWiring ProfSynthesize
begin

text \<open>
  The helpers of cmd/kubectl-fqdn\_policy/main.go: the choice of the resolver, the divergence of the answers of
  the upstreams, the address filter that mirrors the controller's, the sets of the diff and the kubeconfig's path. A Go set is the
  list of its keys; the order of a range over one is an argument.
\<close>

section \<open>Resolver and divergence\<close>

definition buildResolver :: "string \<Rightarrow> string \<Rightarrow> bool \<Rightarrow> string \<Rightarrow> wired_resolver" where
  "buildResolver system coredns no_multi spec_coredns =
     (let addr = (if coredns = [] then spec_coredns else coredns) in
      if no_multi then
        (if addr \<noteq> [] then WActive (NewCoreDNSResolver addr) else WActive (NewActiveResolver system))
      else WMulti (NewMultiResolver system (if addr \<noteq> [] then [addr] else [])))"

definition uniqueIPCount :: "(string \<times> string list) list \<Rightarrow> nat" where
  "uniqueIPCount results = length (unique_from [] (concat (map snd results)))"

definition hasDivergence :: "(string \<times> string list) list \<Rightarrow> bool" where
  "hasDivergence results =
     (if length results \<le> 1 then False
      else list_ex (\<lambda>(ip, n). n < int (length results)) (fold (\<lambda>(u, ips) m. count_ips ips m) results []))"

section \<open>Addresses\<close>

definition cgnatNet :: ipnet where
  "cgnatNet = the (parse_cidr ''100.64.0.0/10'')"

definition privateIPCategory :: "string \<Rightarrow> bool \<times> string" where
  "privateIPCategory s = (case parse_ip s of
     None \<Rightarrow> (False, [])
   | Some x \<Rightarrow>
       if is_loopback x then (True, ''loopback'')
       else if is_link_local_unicast x then (True, ''link-local'')
       else if net_contains cgnatNet x then (True, ''CGNAT (100.64/10)'')
       else if is_private x then (True, ''RFC1918'')
       else (False, []))"

fun security_loop :: "bool \<Rightarrow> bool \<Rightarrow> bool \<Rightarrow> string list \<Rightarrow> string list" where
  "security_loop private loopback link_local [] = []"
| "security_loop private loopback link_local (s # ips) = (case parse_ip s of
     None \<Rightarrow> s # security_loop private loopback link_local ips
   | Some x \<Rightarrow>
       if loopback \<and> is_loopback x then security_loop private loopback link_local ips
       else if private \<and> (is_private x \<or> net_contains cgnatNet x) then security_loop private loopback link_local ips
       else if link_local \<and> is_link_local_unicast x then security_loop private loopback link_local ips
       else s # security_loop private loopback link_local ips)"

definition applySecurityFilter :: "string list \<Rightarrow> security_spec option \<Rightarrow> string list" where
  "applySecurityFilter ips sec = security_loop
     (case sec of None \<Rightarrow> True | Some s \<Rightarrow> (case ss_block_private s of None \<Rightarrow> True | Some b \<Rightarrow> b))
     (case sec of None \<Rightarrow> True | Some s \<Rightarrow> (case ss_block_loopback s of None \<Rightarrow> True | Some b \<Rightarrow> b))
     (case sec of None \<Rightarrow> True | Some s \<Rightarrow> (case ss_block_link_local s of None \<Rightarrow> True | Some b \<Rightarrow> b)) ips"

definition plugin_hostCIDR :: "string \<Rightarrow> string" where
  "plugin_hostCIDR ip = (if Option.bind (parse_ip ip) to4 \<noteq> None then ip @ ''/32'' else ip @ ''/128'')"

section \<open>Sets\<close>

definition toSet :: "string list \<Rightarrow> string list" where
  "toSet ips = unique_from [] ips"

definition setDiff :: "(string list \<Rightarrow> string list) \<Rightarrow> string list \<Rightarrow> string list \<Rightarrow> string list" where
  "setDiff ord a b = filter (\<lambda>k. k \<notin> set b) (ord a)"

definition sortedStrs :: "string list \<Rightarrow> string list" where
  "sortedStrs ss = sort_strings ss"

section \<open>Lemmas\<close>

lemma cgnat_eq: "cgnatNet = Net4 0x64400000 10"
  by code_simp

lemma cgnat_contains: "net_contains cgnatNet x \<longleftrightarrow> (\<exists>w. to4 x = Some w \<and> drop_bit 22 w = 0x191)"
  by (cases "to4 x") (auto simp: cgnat_eq net4_contains_v4 net4_contains_v6 to4_eq_Some simp del: net_contains.simps)

text \<open>A unique local IPv6 address (fc00::/7): net.IP.IsPrivate counts it, the controller's table does not.\<close>

definition unique_local :: "ip \<Rightarrow> bool" where
  "unique_local x \<longleftrightarrow> to4 x = None \<and> drop_bit 121 x = 0x7e"

lemma private_or_cgnat: "is_private x \<or> net_contains cgnatNet x \<longleftrightarrow> private_range x \<or> unique_local x"
  unfolding cgnat_contains
  by (cases "to4 x") (auto simp: is_private_def private_range_def unique_local_def)

lemma net_predicates: "is_loopback x \<longleftrightarrow> loopback_range x" "is_link_local_unicast x \<longleftrightarrow> link_local_range x"
  by (simp_all add: is_loopback_def loopback_range_def is_link_local_unicast_def link_local_range_def)

definition text_unique_local :: "string \<Rightarrow> bool" where
  "text_unique_local s \<longleftrightarrow> (case parse_ip s of None \<Rightarrow> False | Some x \<Rightarrow> unique_local x)"

lemma doBlock_field:
  "doBlock sec f \<longleftrightarrow> (case sec of None \<Rightarrow> True | Some s \<Rightarrow> (case f s of None \<Rightarrow> True | Some b \<Rightarrow> b))"
  by (simp add: doBlock_def split: option.split)

lemma security_loop_eq:
  "security_loop (doBlock sec ss_block_private) (doBlock sec ss_block_loopback) (doBlock sec ss_block_link_local) ips =
     filter (\<lambda>s. block_field sec s = None \<and> \<not> (doBlock sec ss_block_private \<and> text_unique_local s)) ips"
proof (induction ips)
  case (Cons s ips)
  show ?case
  proof (cases "parse_ip s")
    case None
    with Cons show ?thesis by (simp add: block_field_def text_unique_local_def)
  next
    case (Some x)
    have b: "block_field sec s = None \<longleftrightarrow> \<not> (doBlock sec ss_block_loopback \<and> loopback_range x) \<and>
        \<not> (doBlock sec ss_block_private \<and> private_range x) \<and> \<not> (doBlock sec ss_block_link_local \<and> link_local_range x)"
      by (simp add: block_field_def Some)
    have u: "text_unique_local s \<longleftrightarrow> unique_local x" by (simp add: text_unique_local_def Some)
    show ?thesis
      by (simp only: security_loop.simps Some option.case net_predicates private_or_cgnat filter.simps b u Cons.IH)
        (simp; blast)
  qed
qed simp

lemma toSet_set [simp]: "set (toSet ips) = set ips"
  by (simp add: toSet_def set_unique_from)

lemma setDiff_set: "range_order ord \<Longrightarrow> set (setDiff ord a b) = set a - set b"
  by (auto simp: setDiff_def range_order_set)

text \<open>The count behind hasDivergence adds up occurrences, so an upstream that lists an address twice hides
  that another one lacks it; and an unreadable address is a /128 here and a /32 in the NetworkPolicy.\<close>

lemma divergence_hidden: "\<not> hasDivergence [(''u1'', [''1.2.3.4'', ''1.2.3.4'', ''1.2.3.5'']), (''u2'', [''1.2.3.5''])]"
  by code_simp

lemma unreadable_cidr: "parse_ip s = None \<Longrightarrow> plugin_hostCIDR s = s @ ''/128'' \<and> hostCIDR s = s @ ''/32''"
  by (simp add: plugin_hostCIDR_def hostCIDR_def)

section \<open>Kubeconfig\<close>

text \<open>path/filepath on Unix: Clean works on the segments, Join cleans what it joined. The path buildK8sClient
  hands to clientcmd; \<open>home\<close> is what os.UserHomeDir returns.\<close>

fun clean_loop :: "bool \<Rightarrow> string list \<Rightarrow> string list \<Rightarrow> string list" where
  "clean_loop rooted acc [] = rev acc"
| "clean_loop rooted acc (p # ps) =
     (if p = [] \<or> p = ''.'' then clean_loop rooted acc ps
      else if p = ''..'' then
        (case acc of
           [] \<Rightarrow> clean_loop rooted (if rooted then [] else [p]) ps
         | a # as \<Rightarrow> if a = ''..'' then clean_loop rooted (p # acc) ps else clean_loop rooted as ps)
      else clean_loop rooted (p # acc) ps)"

definition path_clean :: "string \<Rightarrow> string" where
  "path_clean s =
     (let rooted = has_prefix s ''/'';
          out = (if rooted then ''/'' else []) @ join_str ''/'' (clean_loop rooted [] (split_on (CHR ''/'') s))
      in if out = [] then ''.'' else out)"

definition path_join :: "string list \<Rightarrow> string" where
  "path_join parts = (case dropWhile (\<lambda>p. p = []) parts of [] \<Rightarrow> [] | ps \<Rightarrow> path_clean (join_str ''/'' ps))"

definition kubeconfig_path :: "(string \<Rightarrow> string) \<Rightarrow> string option \<Rightarrow> string" where
  "kubeconfig_path getenv home =
     (if getenv ''KUBECONFIG'' \<noteq> [] then getenv ''KUBECONFIG''
      else case home of None \<Rightarrow> [] | Some h \<Rightarrow> path_join [h, ''.kube'', ''config''])"

text \<open>A home directory written plainly, as a rooted path of named segments.\<close>

definition plain_segment :: "string \<Rightarrow> bool" where
  "plain_segment p \<longleftrightarrow> p \<noteq> [] \<and> p \<noteq> ''.'' \<and> p \<noteq> ''..'' \<and> CHR ''/'' \<notin> set p"

lemma clean_loop_plain: "list_all plain_segment ps \<Longrightarrow> clean_loop rooted acc ps = rev acc @ ps"
  by (induction ps arbitrary: acc) (auto simp: plain_segment_def)

lemma path_clean_plain:
  assumes "ps \<noteq> []" "list_all plain_segment ps"
  shows "path_clean (''/'' @ join_str ''/'' ps) = ''/'' @ join_str ''/'' ps"
proof -
  have "split_on (CHR ''/'') (join_str ''/'' ps) = ps"
    using assms by (intro split_join) (auto simp: plain_segment_def list_all_iff)
  then show ?thesis by (simp add: path_clean_def has_prefix_def clean_loop_plain [OF assms(2)])
qed

lemma kubeconfig_at_home:
  assumes "getenv ''KUBECONFIG'' = []" "ps \<noteq> []" "list_all plain_segment ps"
  shows "kubeconfig_path getenv (Some (''/'' @ join_str ''/'' ps)) = ''/'' @ join_str ''/'' ps @ ''/.kube/config''"
proof -
  have j: "join_str ''/'' (ps @ [''.kube'', ''config'']) = join_str ''/'' ps @ ''/.kube/config''"
    using assms(2) by (induction ps rule: induct_list012) simp_all
  have "list_all plain_segment (ps @ [''.kube'', ''config''])" using assms(3) by (simp add: plain_segment_def)
  from path_clean_plain [OF _ this] show ?thesis
    using assms(1) by (simp add: kubeconfig_path_def path_join_def j)
qed

section \<open>Properties\<close>

text \<open>C39. The plugin's filter against the controller's. applySecurityFilter keeps, in order, the addresses
  filterBlockedIPs allows, except that with private addresses blocked it also drops the unique local IPv6
  addresses (fc00::/7), which the controller lets through: on all other input the two agree.\<close>

theorem plugin_filter_mirrors:
  "applySecurityFilter ips sec =
     filter (\<lambda>s. \<not> (doBlock sec ss_block_private \<and> text_unique_local s)) (fst (filterBlockedIPs ips sec))"
  unfolding applySecurityFilter_def doBlock_field [symmetric] security_loop_eq filterBlocked_allowed
  by (simp add: conj_commute)

end
