(* ===== verification/Plugin.thy ===== *)
theory Plugin
  imports PluginHelpers
begin

text \<open>
  cmd/kubectl-fqdn\_policy/main.go: the five commands of the kubectl plugin as functions from their arguments
  and flags to what they print, the files they write and the error they end with. Files, the YAML and JSON
  libraries, the API server, DNS and the clock are the environment (\<open>plugin_io\<close>). Characters outside ASCII
  are their UTF-8 bytes.
\<close>

section \<open>Flags and environment\<close>

record plugin_flags =
  pf_coredns :: string
  pf_no_multi :: bool
  pf_namespace :: string
  pf_from_file :: string
  pf_from_obs :: string
  pf_threshold :: int
  pf_preset :: string
  pf_app_label :: string
  pf_mode :: string
  pf_name :: string
  pf_output :: string
  sf_from_obs :: string
  sf_baseline :: string
  sf_fail_blocked :: bool
  sf_json :: bool

text \<open>
  The five commands. Defining a flag sets its variable to the default, and several commands define flags
  over the same variable, so what holds before parsing is what the definitions leave in their order.
\<close>

datatype plugin_command = Preview | Diff | Suggest | Profile | SimulateCmd

definition zero_flags :: plugin_flags where
  "zero_flags = \<lparr>pf_coredns = [], pf_no_multi = False, pf_namespace = [], pf_from_file = [], pf_from_obs = [],
     pf_threshold = 0, pf_preset = [], pf_app_label = [], pf_mode = [], pf_name = [], pf_output = [],
     sf_from_obs = [], sf_baseline = [], sf_fail_blocked = False, sf_json = False\<rparr>"

definition define_flags :: "plugin_command \<Rightarrow> plugin_flags \<Rightarrow> plugin_flags" where
  "define_flags cmd fl = (case cmd of
     Preview \<Rightarrow> fl\<lparr>pf_coredns := [], pf_no_multi := False\<rparr>
   | Diff \<Rightarrow> fl\<lparr>pf_namespace := [], pf_coredns := []\<rparr>
   | Suggest \<Rightarrow> fl\<lparr>pf_namespace := []\<rparr>
   | Profile \<Rightarrow> fl\<lparr>pf_namespace := ''default'', pf_from_file := [], pf_from_obs := [], pf_threshold := 3,
       pf_preset := ''production'', pf_app_label := [], pf_mode := ''Audit'', pf_name := [], pf_output := []\<rparr>
   | SimulateCmd \<Rightarrow> fl\<lparr>pf_namespace := ''default'', sf_from_obs := [], sf_baseline := [],
       sf_fail_blocked := False, sf_json := False\<rparr>)"

definition plugin_defaults :: plugin_flags where
  "plugin_defaults = fold define_flags [Preview, Diff, Suggest, Profile, SimulateCmd] zero_flags"

record plugin_io =
  io_read :: "string \<Rightarrow> string + string"
  io_exists :: "string \<Rightarrow> bool"
  io_write :: "string \<Rightarrow> string option"
  io_kind :: "string \<Rightarrow> string + string"
  io_policy :: "string \<Rightarrow> string + fqdn_policy"
  io_cluster :: "string \<Rightarrow> string + cluster_policy"
  io_observation :: "string \<Rightarrow> string + egress_observation"
  io_client :: "string option"
  io_get_policy :: "string \<Rightarrow> string \<Rightarrow> string + fqdn_policy"
  io_get_obs :: "string \<Rightarrow> string \<Rightarrow> string + egress_observation"
  io_list_obs :: "string \<Rightarrow> string + egress_observation list"
  io_yaml :: "fqdn_policy \<Rightarrow> string + string"
  io_json :: "simulation_report \<Rightarrow> string + string"
  io_system :: string
  io_calls :: "nat \<Rightarrow> wired_env"
  io_upstreams :: "nat \<Rightarrow> dns_net"
  io_clk :: "nat \<Rightarrow> gotime"
  io_stamp :: string
  io_ord :: "string list \<Rightarrow> string list"
  io_ord_base :: "(string \<times> string list) list \<Rightarrow> (string \<times> string list) list"
  io_ord_cat :: "(string \<times> int) list \<Rightarrow> (string \<times> int) list"

datatype plugin_out = Out string | ErrOut string | Wrote string string

text \<open>What a command did, and the error it returned.\<close>

type_synonym plugin_run = "plugin_out list \<times> string option"

definition fails :: "string \<Rightarrow> plugin_run" where
  "fails e = ([], Some e)"

text \<open>Printing a line: fmt.Printf with a newline, fmt.Println.\<close>

definition say :: "string \<Rightarrow> plugin_out" where
  "say s = Out (s @ newline)"

abbreviation em_dash :: string where "em_dash \<equiv> [CHR 0xE2, CHR 0x80, CHR 0x94]"
abbreviation right_arrow :: string where "right_arrow \<equiv> [CHR 0xE2, CHR 0x86, CHR 0x92]"

text \<open>time.Duration: Round to seconds, and String of a number of whole seconds.\<close>

definition round_second :: "duration \<Rightarrow> duration" where
  "round_second d = (let r = d mod second in if r + r < second then d - r else d + (second - r))"

definition seconds_string :: "duration \<Rightarrow> string" where
  "seconds_string d = (let s = d div second in
     (if 3600 \<le> s then itoa_int (s div 3600) @ ''h'' else []) @
     (if 60 \<le> s then itoa_int (s mod 3600 div 60) @ ''m'' else []) @ itoa_int (s mod 60) @ ''s'')"

text \<open>An argument [namespace/]name.\<close>

definition split_target :: "string \<Rightarrow> string \<Rightarrow> string \<times> string" where
  "split_target ns arg = (case split2 CHR ''/'' [] arg of [a, b] \<Rightarrow> (a, b) | _ \<Rightarrow> (ns, arg))"

section \<open>preview\<close>

record preview_state =
  pv_resolver :: wired_resolver
  pv_out :: "plugin_out list"
  pv_warnings :: "string list"
  pv_hosts :: "resolved_host list"

definition is_v4_text :: "string \<Rightarrow> bool" where
  "is_v4_text ip \<longleftrightarrow> Option.bind (parse_ip ip) to4 \<noteq> None"

definition answer_lines :: "string \<Rightarrow> resolution \<Rightarrow> plugin_out list" where
  "answer_lines m r =
     (let v4 = filter is_v4_text (rs_ips r); v6 = filter (\<lambda>ip. \<not> is_v4_text ip) (rs_ips r) in
      [say m] @
      (if 0 < length v4 then [say (''  A:     '' @ join_str '', '' v4)] else []) @
      (if 0 < length v6 then [say (''  AAAA:  '' @ join_str '', '' v6)] else []) @
      (if 0 < rs_ttl r then [say (''  TTL:   '' @ seconds_string (round_second (rs_ttl r)))] else []) @
      (if 0 < length (rs_chain r)
       then [say (''  CNAME: '' @ join_str ('' '' @ right_arrow @ '' '') (rs_chain r))]
       else [say ''  CNAME: (none)'']))"

definition divergence_lines :: "dns_net \<Rightarrow> wired_resolver \<Rightarrow> string \<Rightarrow> plugin_out list \<times> string list" where
  "divergence_lines net w m = (case w of
     WMulti mr \<Rightarrow>
       (let results = ResolvePerUpstream net mr m; n = uniqueIPCount results in
        ([say (''  Resolver divergence: '' @ itoa n @ '' IPs across '' @ itoa (length results) @ '' resolvers'')],
         (if hasDivergence results
          then [''[WARN] '' @ m @ '': resolver divergence ('' @ itoa n @ '' IPs appeared in fewer than all resolvers)'']
          else []) @
         (if 10 < n
          then [''[WARN] '' @ m @ '': CDN-like IP churn detected ('' @ itoa n @ '' distinct IPs observed across resolvers)'']
          else [])))
   | _ \<Rightarrow> ([], []))"

definition private_warning :: "string \<Rightarrow> string \<Rightarrow> string list" where
  "private_warning m ip = (let (priv, kind) = privateIPCategory ip in
     if priv then [''[WARN] '' @ m @ '': '' @ ip @ '' is a '' @ kind @ '' address '' @ em_dash @
       '' blocked by security defaults''] else [])"

definition depth_warning :: "string \<Rightarrow> resolution \<Rightarrow> string list" where
  "depth_warning m r = (if 3 < length (rs_chain r)
     then [''[WARN] '' @ m @ '': CNAME chain depth '' @ itoa (length (rs_chain r)) @ '' > 3 '' @ em_dash @
       '' review for potential CNAME hijacking''] else [])"

definition preview_rule ::
  "plugin_io \<Rightarrow> security_spec option \<Rightarrow> nat \<Rightarrow> string \<Rightarrow> preview_state \<Rightarrow> preview_state" where
  "preview_rule io sec i m st =
     (let (res, w) = wired_Resolve (io_calls io i) (pv_resolver st) m in
      case res of
        Inl e \<Rightarrow> st\<lparr>pv_resolver := w,
          pv_out := pv_out st @ [say (m @ newline @ ''  ERROR: '' @ e @ newline)],
          pv_warnings := pv_warnings st @ [''[ERR]  '' @ m @ '': '' @ e]\<rparr>
      | Inr r \<Rightarrow>
          let (lines, warns) = divergence_lines (io_upstreams io i) w m in
          st\<lparr>pv_resolver := w,
             pv_out := pv_out st @ answer_lines m r @ lines @ [say []],
             pv_warnings := pv_warnings st @ warns @ concat (map (private_warning m) (rs_ips r)) @ depth_warning m r,
             pv_hosts := pv_hosts st @
               [\<lparr>rh_hostname = m, rh_ips = applySecurityFilter (rs_ips r) sec, rh_last_seen = io_clk io i,
                 rh_source = ''preview'', rh_ttl_seconds = 0, rh_cname_chain = rs_chain r, rh_security = None,
                 rh_enrichments = []\<rparr>]\<rparr>)"

fun preview_rules ::
  "plugin_io \<Rightarrow> security_spec option \<Rightarrow> nat \<Rightarrow> fqdn_rule list \<Rightarrow> preview_state \<Rightarrow> preview_state" where
  "preview_rules io sec i [] st = st"
| "preview_rules io sec i (r # rs) st = preview_rules io sec (Suc i) rs (preview_rule io sec i (fr_match r) st)"

text \<open>The lines for one peer, without the keys already printed.\<close>

fun port_lines :: "string \<Rightarrow> np_port list \<Rightarrow> string list \<Rightarrow> plugin_out list \<times> string list" where
  "port_lines cidr [] seen = ([], seen)"
| "port_lines cidr (p # ps) seen =
     (let key = cidr @ '':'' @ itoa_int (sint (npp_port p)) @ ''/'' @ npp_protocol p in
      if key \<in> set seen then port_lines cidr ps seen
      else (let (out, seen') = port_lines cidr ps (key # seen) in (say (''  '' @ key) # out, seen')))"

fun peer_lines :: "np_port list \<Rightarrow> np_peer list \<Rightarrow> string list \<Rightarrow> plugin_out list \<times> string list" where
  "peer_lines ports [] seen = ([], seen)"
| "peer_lines ports (p # ps) seen = (case peer_ip_block p of
     None \<Rightarrow> peer_lines ports ps seen
   | Some cidr \<Rightarrow>
       (let (out1, seen1) =
              (if ports = [] then (if cidr \<in> set seen then ([], seen) else ([say (''  '' @ cidr @ '' (all ports)'')], cidr # seen))
               else port_lines cidr ports seen);
            (out2, seen2) = peer_lines ports ps seen1
        in (out1 @ out2, seen2)))"

fun rule_lines :: "np_rule list \<Rightarrow> string list \<Rightarrow> plugin_out list \<times> string list" where
  "rule_lines [] seen = ([], seen)"
| "rule_lines (r # rs) seen =
     (let (out1, seen1) = peer_lines (nr_ports r) (nr_to r) seen; (out2, seen2) = rule_lines rs seen1
      in (out1 @ out2, seen2))"

definition preview_policy :: "string \<Rightarrow> fqdn_rule list \<Rightarrow> resolved_host list \<Rightarrow> fqdn_policy" where
  "preview_policy name egress hosts =
     \<lparr>fp_meta = \<lparr>om_name = name, om_namespace = ''preview'', om_uid = [], om_generation = 0,
        om_created = zero_time, om_labels = [], om_annotations = []\<rparr>,
      fp_spec = \<lparr>sp_pod_selector = \<lparr>pss_selector = \<lparr>ls_match_labels = [], ls_match_expressions = []\<rparr>\<rparr>,
        sp_egress = egress, sp_mode = [], sp_ttl_override = None, sp_coredns = [], sp_security = None\<rparr>,
      fp_status = \<lparr>st_resolved_hosts = hosts, st_generated = [], st_conditions = [],
        st_observed_generation = 0, st_unpolicied = []\<rparr>\<rparr>"

definition preview_np :: "fqdn_policy \<Rightarrow> plugin_out list" where
  "preview_np fp = (case Build fp of
     Inl e \<Rightarrow> []
   | Inr np \<Rightarrow> if 0 < length (np_egress np)
       then [say ''Generated NetworkPolicy would allow:''] @ fst (rule_lines (np_egress np) []) @ [say []]
       else [])"

definition preview_run ::
  "plugin_io \<Rightarrow> plugin_flags \<Rightarrow> string \<Rightarrow> string \<Rightarrow> fqdn_rule list \<Rightarrow> security_spec option \<Rightarrow> string \<Rightarrow> plugin_run" where
  "preview_run io fl name ns egress sec coredns =
     (let st = preview_rules io sec 0 egress
            \<lparr>pv_resolver = buildResolver (io_system io) (pf_coredns fl) (pf_no_multi fl) coredns,
             pv_out = [say (''Policy:    '' @ name), say (''Namespace: '' @ ns @ newline)],
             pv_warnings = [], pv_hosts = []\<rparr>
      in (pv_out st @ preview_np (preview_policy name egress (pv_hosts st)) @
          (if 0 < length (pv_warnings st)
           then say ''Warnings:'' # map (\<lambda>w. say (''  '' @ w)) (pv_warnings st) else []), None))"

definition runPreview :: "plugin_io \<Rightarrow> plugin_flags \<Rightarrow> string \<Rightarrow> plugin_run" where
  "runPreview io fl file = (case io_read io file of
     Inl e \<Rightarrow> fails (''reading '' @ file @ '': '' @ e)
   | Inr data \<Rightarrow> (case io_kind io data of
       Inl e \<Rightarrow> fails (''parsing YAML: '' @ e)
     | Inr kind \<Rightarrow>
         if kind = ''FQDNNetworkPolicy'' then (case io_policy io data of
             Inl e \<Rightarrow> fails (''unmarshalling FQDNNetworkPolicy: '' @ e)
           | Inr fp \<Rightarrow> preview_run io fl (om_name (fp_meta fp)) (om_namespace (fp_meta fp)) (sp_egress (fp_spec fp))
               (sp_security (fp_spec fp)) (sp_coredns (fp_spec fp)))
         else if kind = ''ClusterFQDNNetworkPolicy'' then (case io_cluster io data of
             Inl e \<Rightarrow> fails (''unmarshalling ClusterFQDNNetworkPolicy: '' @ e)
           | Inr cp \<Rightarrow> preview_run io fl (om_name (cp_meta cp)) ''(cluster-scoped)'' (cs_egress (cp_spec cp))
               (cs_security (cp_spec cp)) (cs_coredns (cp_spec cp)))
         else fails (''unsupported kind '' @ go_quote kind @ '' '' @ em_dash @
           '' expected FQDNNetworkPolicy or ClusterFQDNNetworkPolicy'')))"

section \<open>diff\<close>

definition live_ips :: "resolved_host list \<Rightarrow> (string, string list) gomap" where
  "live_ips hosts = fold (\<lambda>h. put (rh_hostname h) (rh_ips h)) hosts []"

fun fresh_ips ::
  "plugin_io \<Rightarrow> security_spec option \<Rightarrow> nat \<Rightarrow> fqdn_rule list \<Rightarrow>
   wired_resolver \<times> (string, string list) gomap \<times> plugin_out list \<Rightarrow> (string, string list) gomap \<times> plugin_out list" where
  "fresh_ips io sec i [] (w, fresh, out) = (fresh, out)"
| "fresh_ips io sec i (r # rs) (w, fresh, out) =
     (let (res, w') = wired_Resolve (io_calls io i) w (fr_match r) in
      case res of
        Inl e \<Rightarrow> fresh_ips io sec (Suc i) rs
          (w', fresh, out @ [say (fr_match r @ '': resolution error: '' @ e @ newline)])
      | Inr a \<Rightarrow> fresh_ips io sec (Suc i) rs
          (w', put (fr_match r) (applySecurityFilter (rs_ips a) sec) fresh, out))"

definition ips_at :: "(string, string list) gomap \<Rightarrow> string \<Rightarrow> string list" where
  "ips_at m h = (case map_of m h of None \<Rightarrow> [] | Some l \<Rightarrow> l)"

definition diff_rule ::
  "(string list \<Rightarrow> string list) \<Rightarrow> (string, string list) gomap \<Rightarrow> (string, string list) gomap \<Rightarrow> string \<Rightarrow>
   plugin_out list" where
  "diff_rule ord live fresh m =
     (let l = toSet (ips_at live m); f = toSet (ips_at fresh m);
          added = setDiff ord f l; removed = setDiff ord l f
      in if added = [] \<and> removed = [] then []
         else [say m] @ map (\<lambda>ip. say (''  + '' @ plugin_hostCIDR ip @ ''  (new)'')) (sortedStrs added) @
           map (\<lambda>ip. say (''  - '' @ plugin_hostCIDR ip @ ''  (stale)'')) (sortedStrs removed) @ [say []])"

definition runDiff :: "plugin_io \<Rightarrow> plugin_flags \<Rightarrow> string \<Rightarrow> plugin_run" where
  "runDiff io fl arg =
     (let (ns, name) = split_target (pf_namespace fl) arg in
      if ns = [] then fails (''namespace required '' @ em_dash @ '' use -n <namespace> or <namespace>/<name>'')
      else (case io_client io of
        Some e \<Rightarrow> fails (''connecting to cluster: '' @ e)
      | None \<Rightarrow> (case io_get_policy io ns name of
          Inl e \<Rightarrow> fails (''fetching '' @ ns @ ''/'' @ name @ '': '' @ e)
        | Inr fp \<Rightarrow>
            let live = live_ips (st_resolved_hosts (fp_status fp));
                (fresh, out) = fresh_ips io (sp_security (fp_spec fp)) 0 (sp_egress (fp_spec fp))
                  (buildResolver (io_system io) (pf_coredns fl) (pf_no_multi fl) (sp_coredns (fp_spec fp)), [], []);
                changes = concat (map (\<lambda>r. diff_rule (io_ord io) live fresh (fr_match r)) (sp_egress (fp_spec fp)))
            in (out @ [say (''Policy: '' @ om_name (fp_meta fp) @ '' (namespace: '' @ om_namespace (fp_meta fp) @ '')'' @ newline)] @
                changes @
                (if changes = [] then [say (''No changes '' @ em_dash @ '' fresh resolution matches live NetworkPolicy IPs.'')]
                 else []), None))))"

section \<open>suggest\<close>

definition suggested_policy :: "string \<Rightarrow> string \<Rightarrow> fqdn_policy \<Rightarrow> fqdn_policy" where
  "suggested_policy ns name fp =
     \<lparr>fp_meta = \<lparr>om_name = name @ ''-suggested'', om_namespace = ns, om_uid = [], om_generation = 0,
        om_created = zero_time, om_labels = [], om_annotations = []\<rparr>,
      fp_spec = \<lparr>sp_pod_selector = sp_pod_selector (fp_spec fp),
        sp_egress = map (\<lambda>d. \<lparr>fr_match = od_hostname d, fr_ports = []\<rparr>) (st_unpolicied (fp_status fp)),
        sp_mode = PolicyModeAudit, sp_ttl_override = None, sp_coredns = [], sp_security = None\<rparr>,
      fp_status = \<lparr>st_resolved_hosts = [], st_generated = [], st_conditions = [],
        st_observed_generation = 0, st_unpolicied = []\<rparr>\<rparr>"

definition runSuggest :: "plugin_io \<Rightarrow> plugin_flags \<Rightarrow> string \<Rightarrow> plugin_run" where
  "runSuggest io fl arg =
     (let (ns, name) = split_target (pf_namespace fl) arg in
      if ns = [] then fails (''namespace required '' @ em_dash @ '' use -n <namespace> or <namespace>/<name>'')
      else (case io_client io of
        Some e \<Rightarrow> fails (''connecting to cluster: '' @ e)
      | None \<Rightarrow> (case io_get_policy io ns name of
          Inl e \<Rightarrow> fails (''fetching '' @ ns @ ''/'' @ name @ '': '' @ e)
        | Inr fp \<Rightarrow>
            if st_unpolicied (fp_status fp) = [] then
              ([say (''No egress drift observed for '' @ ns @ ''/'' @ name @ '' '' @ em_dash @ '' nothing to suggest.''),
                say ''(Requires the snoop resolver to be active and at least one reconcile since drift appeared.)''], None)
            else (case io_yaml io (suggested_policy ns name fp) of
              Inl e \<Rightarrow> fails (''marshalling suggested policy: '' @ e)
            | Inr out \<Rightarrow>
                ([say (''# Suggested FQDNNetworkPolicy covering '' @
                    itoa (length (sp_egress (fp_spec (suggested_policy ns name fp)))) @
                    '' domain(s) observed as drift against '' @ ns @ ''/'' @ name @ ''.''),
                  say (''# Nothing was written to the cluster '' @ em_dash @ '' review, edit, and `kubectl apply -f -` yourself.''),
                  say (''# Starts in Audit mode: switch spec.mode to Enforce once you'' @ [CHR 0x27] @
                    ''re satisfied with the rules.''),
                  Out out], None)))))"

section \<open>profile\<close>

definition load_observation ::
  "plugin_io \<Rightarrow> plugin_flags \<Rightarrow> string list \<Rightarrow> string + egress_observation \<times> string" where
  "load_observation io fl args =
     (if pf_from_file fl \<noteq> [] then (case io_read io (pf_from_file fl) of
          Inl e \<Rightarrow> Inl (''reading observation file '' @ pf_from_file fl @ '': '' @ e)
        | Inr data \<Rightarrow> (case io_observation io data of
            Inl e \<Rightarrow> Inl (''parsing observation file '' @ pf_from_file fl @ '': '' @ e)
          | Inr ob \<Rightarrow> Inr (ob, ''file://'' @ pf_from_file fl)))
      else (case io_client io of
          Some e \<Rightarrow> Inl (''connecting to cluster: '' @ e)
        | None \<Rightarrow>
            let (ns, name) = split_target (pf_namespace fl)
                  (if pf_from_obs fl = [] \<and> args \<noteq> [] then hd args else pf_from_obs fl)
            in if name \<noteq> [] then (case io_get_obs io ns name of
                   Inl e \<Rightarrow> Inl (''fetching FQDNEgressObservation '' @ ns @ ''/'' @ name @ '': '' @ e)
                 | Inr ob \<Rightarrow> Inr (ob, ''k8s://'' @ om_namespace (eo_meta ob) @ ''/'' @ om_name (eo_meta ob)))
               else (case io_list_obs io ns of
                   Inl e \<Rightarrow> Inl (''listing FQDNEgressObservations in namespace '' @ ns @ '': '' @ e)
                 | Inr [] \<Rightarrow> Inl (''no FQDNEgressObservation found in namespace '' @ go_quote ns @ '' '' @ em_dash @
                     '' specify --from-file or create an observation first'')
                 | Inr (ob # _) \<Rightarrow> Inr (ob, ''k8s://'' @ om_namespace (eo_meta ob) @ ''/'' @ om_name (eo_meta ob)))))"

definition app_selector :: "string \<Rightarrow> egress_observation \<Rightarrow> (string, string) gomap" where
  "app_selector label ob =
     (if label \<noteq> [] then (case split2 CHR ''='' [] label of
          [k, v] \<Rightarrow> [(trim_space k, trim_space v)]
        | ps \<Rightarrow> [(''app'', trim_space (hd ps))])
      else ls_match_labels (pss_selector (os_pod_selector (eo_spec ob))))"

definition options_of :: "plugin_flags \<Rightarrow> egress_observation \<Rightarrow> string \<Rightarrow> profile_options" where
  "options_of fl ob source =
     \<lparr>po_policy_name = (if pf_name fl \<noteq> [] then pf_name fl
        else if om_name (eo_meta ob) \<noteq> [] then om_name (eo_meta ob) @ ''-policy'' else ''discovered-egress-policy''),
      po_namespace = (if pf_namespace fl \<noteq> [] then pf_namespace fl
        else if om_namespace (eo_meta ob) \<noteq> [] then om_namespace (eo_meta ob) else ''default''),
      po_pod_selector = Some (app_selector (pf_app_label fl) ob), po_threshold = pf_threshold fl,
      po_mode = (if pf_mode fl \<noteq> PolicyModeAudit \<and> pf_mode fl \<noteq> PolicyModeEnforce then PolicyModeAudit else pf_mode fl),
      po_preset = pf_preset fl, po_observed = ost_domains (eo_status ob), po_source = source\<rparr>"

definition runProfile :: "plugin_io \<Rightarrow> plugin_flags \<Rightarrow> string list \<Rightarrow> plugin_run" where
  "runProfile io fl args = (case load_observation io fl args of
     Inl e \<Rightarrow> fails e
   | Inr (ob, source) \<Rightarrow>
       if ost_domains (eo_status ob) = []
       then fails (''observation source '' @ source @ '' has no observed domains recorded yet'')
       else
         let (policy, summary) = SynthesizePolicy (io_ord io) (io_ord_base io) (io_stamp io) (options_of fl ob source);
             recap = ErrOut (summary_String (io_ord_cat io) (io_ord io) summary @ newline)
         in case io_yaml io policy of
              Inl e \<Rightarrow> ([recap], Some (''marshalling synthesized policy: '' @ e))
            | Inr out \<Rightarrow>
                if pf_output fl \<noteq> [] then (case io_write io (pf_output fl) of
                    Some e \<Rightarrow> ([recap], Some (''writing output file '' @ pf_output fl @ '': '' @ e))
                  | None \<Rightarrow> ([recap, Wrote (pf_output fl) out,
                      ErrOut (''Synthesized policy written to '' @ pf_output fl @ newline)], None))
                else ([recap, Out out], None))"

section \<open>simulate\<close>

definition load_policy :: "plugin_io \<Rightarrow> plugin_flags \<Rightarrow> string \<Rightarrow> string + fqdn_policy" where
  "load_policy io fl target =
     (if io_exists io target \<or> has_suffix target ''.yaml'' \<or> has_suffix target ''.yml'' then (case io_read io target of
          Inl e \<Rightarrow> Inl (''reading policy file '' @ target @ '': '' @ e)
        | Inr data \<Rightarrow> (case io_policy io data of
            Inl e \<Rightarrow> Inl (''parsing policy file '' @ target @ '': '' @ e)
          | Inr fp \<Rightarrow> Inr fp))
      else (case io_client io of
          Some e \<Rightarrow> Inl (''connecting to cluster: '' @ e)
        | None \<Rightarrow>
            let (ns, name) = split_target (pf_namespace fl) target in
            case io_get_policy io ns name of
              Inl e \<Rightarrow> Inl (''fetching FQDNNetworkPolicy '' @ ns @ ''/'' @ name @ '': '' @ e)
            | Inr fp \<Rightarrow> Inr fp))"

definition load_baseline :: "plugin_io \<Rightarrow> plugin_flags \<Rightarrow> fqdn_policy \<Rightarrow> string + observed_domain list" where
  "load_baseline io fl fp =
     (if sf_baseline fl \<noteq> [] then (case io_read io (sf_baseline fl) of
          Inl e \<Rightarrow> Inl (''reading baseline file '' @ sf_baseline fl @ '': '' @ e)
        | Inr data \<Rightarrow> (case io_observation io data of
            Inl e \<Rightarrow> Inl (''parsing baseline file '' @ sf_baseline fl @ '': '' @ e)
          | Inr ob \<Rightarrow> Inr (ost_domains (eo_status ob))))
      else (case io_client io of
          Some e \<Rightarrow> Inl (''connecting to cluster: '' @ e)
        | None \<Rightarrow>
            let ns = (if om_namespace (fp_meta fp) = [] then pf_namespace fl else om_namespace (fp_meta fp)) in
            if sf_from_obs fl \<noteq> [] then (case io_get_obs io ns (sf_from_obs fl) of
                Inl e \<Rightarrow> Inl (''fetching FQDNEgressObservation '' @ ns @ ''/'' @ sf_from_obs fl @ '': '' @ e)
              | Inr ob \<Rightarrow> Inr (ost_domains (eo_status ob)))
            else (case io_list_obs io ns of
                Inl e \<Rightarrow> Inl (''listing observations in '' @ ns @ '': '' @ e)
              | Inr [] \<Rightarrow> Inl (''no FQDNEgressObservation found in namespace '' @ go_quote ns @
                  '' to simulate against (specify --baseline or --from-observation)'')
              | Inr (ob # _) \<Rightarrow> Inr (ost_domains (eo_status ob)))))"

definition runSimulate :: "plugin_io \<Rightarrow> plugin_flags \<Rightarrow> string \<Rightarrow> plugin_run" where
  "runSimulate io fl target = (case load_policy io fl target of
     Inl e \<Rightarrow> fails e
   | Inr fp \<Rightarrow> (case load_baseline io fl fp of
       Inl e \<Rightarrow> fails e
     | Inr observed \<Rightarrow>
         if observed = [] then fails (''baseline has no observed domains recorded '' @ em_dash @
           '' run an observation window first or provide a populated baseline'')
         else (case Simulate (Some fp) observed of
           Inl e \<Rightarrow> fails (''running simulation: '' @ e)
         | Inr report \<Rightarrow>
             let verdict = (if sf_fail_blocked fl \<and> sr_has_risk report
                   then Some (''blast radius check failed: '' @ itoa (sr_blocked_count report) @
                     '' observed domain(s) would be blocked under this policy'') else None)
             in if sf_json fl then (case io_json io report of
                    Inl e \<Rightarrow> fails (''generating JSON report: '' @ e)
                  | Inr out \<Rightarrow> ([say out], verdict))
                else ([Out (report_String report)], verdict))))"

section \<open>main\<close>

text \<open>Running the parsed command; the exit code. The number of arguments is checked before a command runs.\<close>

definition run_command :: "plugin_io \<Rightarrow> plugin_command \<Rightarrow> plugin_flags \<Rightarrow> string list \<Rightarrow> plugin_run" where
  "run_command io cmd fl args = (case cmd of
     Preview \<Rightarrow> runPreview io fl (hd args)
   | Diff \<Rightarrow> runDiff io fl (hd args)
   | Suggest \<Rightarrow> runSuggest io fl (hd args)
   | Profile \<Rightarrow> runProfile io fl args
   | SimulateCmd \<Rightarrow> runSimulate io fl (hd args))"

definition args_ok :: "plugin_command \<Rightarrow> string list \<Rightarrow> bool" where
  "args_ok cmd args \<longleftrightarrow> (if cmd = Profile then length args \<le> 1 else length args = 1)"

definition plugin_main :: "plugin_io \<Rightarrow> string + plugin_command \<times> plugin_flags \<times> string list \<Rightarrow> plugin_out list \<times> int" where
  "plugin_main io parsed = (case parsed of
     Inl e \<Rightarrow> ([], 1)
   | Inr (cmd, fl, args) \<Rightarrow>
       if \<not> args_ok cmd args then ([], 1)
       else (let (out, err) = run_command io cmd fl args in (out, if err = None then 0 else 1)))"

section \<open>Lemmas\<close>

text \<open>The later definitions overwrite the namespace of diff and suggest, so without -n they do not ask for one
  but use "default"; and the namespace of a profile's policy is the flag's, whatever namespace the
  observation was read from.\<close>

lemma default_namespace: "pf_namespace plugin_defaults = ''default''"
  by (simp add: plugin_defaults_def define_flags_def zero_flags_def)

lemma profile_namespace: "pf_namespace fl \<noteq> [] \<Longrightarrow> po_namespace (options_of fl ob source) = pf_namespace fl"
  by (simp add: options_of_def)

text \<open>When every host of a preview lost all its addresses to the filter, no destination is printed, while the
  NetworkPolicy that Build makes of it, with no ports named, admits every destination.\<close>

lemma preview_hides_open:
  assumes "hosts \<noteq> []" "\<forall>h \<in> set hosts. rh_ips h = []"
  shows "preview_np (preview_policy name egress hosts) =
      [say ''Generated NetworkPolicy would allow:'', say []]"
    and "\<forall>r \<in> set egress. fr_ports r = [] \<Longrightarrow>
      build_admits (preview_policy name egress hosts) x proto q"
proof -
  have p: "collect_peers hosts = []" using assms(2) by (simp add: collect_peers_Nil_iff)
  obtain np where b: "Build (preview_policy name egress hosts) = Inr np" using Build_Inr by blast
  have e: "np_egress np = [\<lparr>nr_to = [], nr_ports = collectPorts (preview_policy name egress hosts)\<rparr>, allowDNSRule]"
    using b assms(1) p by (auto simp: Build_def preview_policy_def)
  show "preview_np (preview_policy name egress hosts) = [say ''Generated NetworkPolicy would allow:'', say []]"
    by (simp add: preview_np_def b e allowDNSRule_def)
  show "build_admits (preview_policy name egress hosts) x proto q" if "\<forall>r \<in> set egress. fr_ports r = []"
  proof -
    have "collectPorts (preview_policy name egress hosts) = []" using that by (simp add: collectPorts_Nil_iff preview_policy_def)
    then show ?thesis by (simp add: build_admits_def b egress_allows_def e rule_admits_def)
  qed
qed

lemma isCovered_self: "h \<in> set ms \<Longrightarrow> isCovered h ms"
  by (auto simp: isCovered_iff matchesEgressRule_def)

section \<open>Properties\<close>

text \<open>C40. A suggestion closes the drift it was made from. When the drift in the status is what the controller
  computed from the namespace's policies and the observation store, the rules of the suggested policy are
  exactly the drifted hostnames, the policy starts in Audit mode with the selector of the original, and once
  it is in the namespace the same computation reports no drift.\<close>

theorem suggestion_closes_drift:
  assumes "computeUnpoliciedDomains ord (Inr ps) store = Inr (st_unpolicied (fp_status fp))"
  shows "map fr_match (sp_egress (fp_spec (suggested_policy ns name fp))) = map od_hostname (st_unpolicied (fp_status fp)) \<and>
    sp_mode (fp_spec (suggested_policy ns name fp)) = PolicyModeAudit \<and>
    sp_pod_selector (fp_spec (suggested_policy ns name fp)) = sp_pod_selector (fp_spec fp) \<and>
    computeUnpoliciedDomains ord (Inr (ps @ [suggested_policy ns name fp])) store = Inr []"
proof -
  let ?hs = "sort_strings (ord (keys (AllDomains store)))" and ?p = "suggested_policy ns name fp"
  let ?fs = "filter (\<lambda>h. \<not> isCovered h (covered_matches ps)) ?hs"
  have "map (\<lambda>h. let seen = the (map_of (AllDomains store) h) in
      \<lparr>od_hostname = h, od_first_seen = ds_first seen, od_last_seen = ds_last seen,
       od_ports = [], od_query_count = 0\<rparr>) ?fs = st_unpolicied (fp_status fp)"
    using assms by (simp add: computeUnpoliciedDomains_def Let_def)
  from this [symmetric] have d: "map od_hostname (st_unpolicied (fp_status fp)) = ?fs"
    by (simp add: comp_def Let_def)
  have m: "map fr_match (sp_egress (fp_spec ?p)) = ?fs" using d by (simp add: suggested_policy_def comp_def)
  have c: "isCovered h (covered_matches (ps @ [?p])) \<longleftrightarrow> isCovered h (covered_matches ps) \<or> isCovered h ?fs" for h
    by (auto simp: isCovered_iff covered_matches_def m)
  have "isCovered h (covered_matches (ps @ [?p]))" if "h \<in> set ?hs" for h
  proof (cases "isCovered h (covered_matches ps)")
    case False
    with that have "h \<in> set ?fs" by (simp only: set_filter mem_Collect_eq not_False_eq_True simp_thms)
    then have "isCovered h ?fs" by (rule isCovered_self)
    then show ?thesis by (simp only: c simp_thms)
  qed (simp only: c simp_thms)
  then have "filter (\<lambda>h. \<not> isCovered h (covered_matches (ps @ [?p]))) ?hs = []" by (simp add: filter_empty_conv)
  then have "computeUnpoliciedDomains ord (Inr (ps @ [?p])) store = Inr []"
    by (simp only: computeUnpoliciedDomains_def Let_def sum.case list.map)
  moreover have "map fr_match (sp_egress (fp_spec ?p)) = map od_hostname (st_unpolicied (fp_status fp))"
    using m d by (simp only:)
  moreover have "sp_mode (fp_spec ?p) = PolicyModeAudit \<and> sp_pod_selector (fp_spec ?p) = sp_pod_selector (fp_spec fp)"
    by (simp add: suggested_policy_def)
  ultimately show ?thesis by (simp only: simp_thms)
qed

definition drifted_policy :: fqdn_policy where
  "drifted_policy = one_rule\<lparr>fp_status := (fp_status one_rule)\<lparr>st_unpolicied :=
     [\<lparr>od_hostname = ''b.io'', od_first_seen = 5, od_last_seen = 5, od_ports = [], od_query_count = 0\<rparr>]\<rparr>\<rparr>"

lemma drifted_policy_drift:
  "computeUnpoliciedDomains rev (Inr [drifted_policy]) (obs_Record 5 6 ''b.io'' NewObservationStore) =
     Inr (st_unpolicied (fp_status drifted_policy))"
proof -
  have d: "AllDomains (obs_Record 5 6 ''b.io'' NewObservationStore) =
      [(''b.io'', \<lparr>ds_first = 5, ds_last = 5, ds_count = 1\<rparr>)]"
    by code_simp
  have "covered_matches [drifted_policy] = [''a.io'']"
    by (simp add: covered_matches_def drifted_policy_def one_rule_def sample_policy_def)
  then show ?thesis
    by (simp add: computeUnpoliciedDomains_def d keys_def sort_strings_def drifted_policy_def
        matchesEgressRule_def cut_prefix_def has_prefix_def)
qed

lemma suggestion_closes_drift_witness:
  "computeUnpoliciedDomains rev (Inr [drifted_policy, suggested_policy ''prod'' ''web'' drifted_policy])
     (obs_Record 5 6 ''b.io'' NewObservationStore) = Inr []"
  using suggestion_closes_drift [OF drifted_policy_drift, of "''prod''" "''web''"] by simp

end
