(* ===== verification/PolicyWorld.thy ===== *)
theory PolicyWorld
  imports MainWiring
begin

text \<open>
  One FQDNNetworkPolicy in the cluster over time: the stored object, the NetworkPolicy generated for it and
  the state the controllers share in the process. A step is a reconcile (whatever the network, the clock
  and the API server answer), an edit of the object that keeps its security settings, a DNS query through
  the proxy, a restart of the controller, or the removal of the NetworkPolicy by someone else.
\<close>

section \<open>The world\<close>

record world =
  wo_policy :: fqdn_policy
  wo_np :: "network_policy option"
  wo_shared :: "wired_resolver controller"

text \<open>What a write leaves in the cluster; a refused one leaves nothing. A status write stores the status only.\<close>

fun apply_effect :: "'e reconcile_env \<Rightarrow> effect \<Rightarrow> world \<Rightarrow> world" where
  "apply_effect env (ApiCreate np) w = (if rv_create env = None then w\<lparr>wo_np := Some np\<rparr> else w)"
| "apply_effect env (ApiUpdate np) w = (if rv_update env = None then w\<lparr>wo_np := Some np\<rparr> else w)"
| "apply_effect env (ApiStatus fp) w = (if rv_status env = None
     then w\<lparr>wo_policy := (wo_policy w)\<lparr>fp_status := fp_status fp\<rparr>\<rparr> else w)"
| "apply_effect env e w = w"

definition apply_effects :: "'e reconcile_env \<Rightarrow> effect list \<Rightarrow> world \<Rightarrow> world" where
  "apply_effects env log w = fold (apply_effect env) log w"

definition np_answer :: "world \<Rightarrow> network_policy api_get" where
  "np_answer w = (case wo_np w of None \<Rightarrow> NotFound | Some np \<Rightarrow> Found np)"

definition np_key :: "fqdn_policy \<Rightarrow> string \<times> string" where
  "np_key fp = (om_namespace (fp_meta fp), OwnerName (om_name (fp_meta fp)))"

text \<open>An environment that answers from this world; reading the NetworkPolicy may fail.\<close>

definition sees :: "wired_env reconcile_env \<Rightarrow> world \<Rightarrow> bool" where
  "sees env w \<longleftrightarrow> rv_policy env = Found (wo_policy w) \<and>
     (case rv_np env (fst (np_key (wo_policy w))) (snd (np_key (wo_policy w))) of
        GetFailed e \<Rightarrow> True | a \<Rightarrow> a = np_answer w) \<and>
     (\<forall>i. wired_env_ok (rv_envs env i)) \<and> rv_store env = observations_of (ct_resolver (wo_shared w))"

definition reconciled :: "wired_env reconcile_env \<Rightarrow> world \<Rightarrow> world" where
  "reconciled env w =
     (let ((result, log), c) = Reconcile wired_Resolve env (wo_shared w)
      in (apply_effects env log w)\<lparr>wo_shared := c\<rparr>)"

inductive reachable :: "security_spec option \<Rightarrow> world \<Rightarrow> bool" for sec where
  start: "sp_security (fp_spec fp) = sec \<Longrightarrow> st_resolved_hosts (fp_status fp) = [] \<Longrightarrow>
    reachable sec \<lparr>wo_policy = fp, wo_np = None, wo_shared = pr_shared (wire system err flags)\<rparr>"
| reconcile: "reachable sec w \<Longrightarrow> sees env w \<Longrightarrow> reachable sec (reconciled env w)"
| edit: "reachable sec w \<Longrightarrow> sp_security (fp_spec fp) = sec \<Longrightarrow> fp_status fp = fp_status (wo_policy w) \<Longrightarrow>
    np_key fp = np_key (wo_policy w) \<Longrightarrow> reachable sec (w\<lparr>wo_policy := fp\<rparr>)"
| query: "reachable sec w \<Longrightarrow> range_order ord \<Longrightarrow> reachable sec
    (w\<lparr>wo_shared := (wo_shared w)\<lparr>ct_resolver := proxied net clk ord exchanged questions (ct_resolver (wo_shared w))\<rparr>\<rparr>)"
| restart: "reachable sec w \<Longrightarrow> reachable sec (w\<lparr>wo_shared := pr_shared (wire system err flags)\<rparr>)"
| removed: "reachable sec w \<Longrightarrow> reachable sec (w\<lparr>wo_np := None\<rparr>)"

section \<open>What is kept\<close>

definition blocked_addr :: "security_spec option \<Rightarrow> ip \<Rightarrow> bool" where
  "blocked_addr sec x \<longleftrightarrow> (doBlock sec ss_block_loopback \<and> loopback_range x) \<or>
     (doBlock sec ss_block_private \<and> private_range x) \<or> (doBlock sec ss_block_link_local \<and> link_local_range x)"

definition no_consensus :: "security_spec option \<Rightarrow> bool" where
  "no_consensus sec \<longleftrightarrow> (case sec of None \<Rightarrow> True | Some s \<Rightarrow> ss_min_agreement s = None)"

definition host_ok :: "security_spec option \<Rightarrow> resolved_host \<Rightarrow> bool" where
  "host_ok sec h \<longleftrightarrow> rh_ips h \<noteq> [] \<and> ips_ok (rh_ips h) \<and> list_all (\<lambda>s. block_field sec s = None) (rh_ips h)"

definition np_safe :: "security_spec option \<Rightarrow> network_policy \<Rightarrow> bool" where
  "np_safe sec np \<longleftrightarrow> (\<forall>x proto q. egress_allows np x proto q \<longrightarrow> is_dns proto q \<or> \<not> blocked_addr sec x)"

definition world_ok :: "security_spec option \<Rightarrow> world \<Rightarrow> bool" where
  "world_ok sec w \<longleftrightarrow> sp_security (fp_spec (wo_policy w)) = sec \<and> wired_inv (ct_resolver (wo_shared w)) \<and>
     list_all (host_ok sec) (st_resolved_hosts (fp_status (wo_policy w))) \<and>
     (case wo_np w of None \<Rightarrow> True | Some np \<Rightarrow> np_safe sec np)"

lemma block_field_addr: "parse_ip s = Some x \<Longrightarrow> block_field sec s = None \<longleftrightarrow> \<not> blocked_addr sec x"
  by (auto simp: block_field_def blocked_addr_def)

lemma admitted_host_ok:
  assumes "no_consensus sec" "resolution_ok h res" "\<not> host_dropped sec res" "rh_ips host = allowed_ips sec res"
  shows "host_ok sec host"
proof -
  have c: "fst (consensus_step sec res) = rs_ips res"
    using assms(1) by (auto simp: no_consensus_def consensus_step_def split: option.splits)
  have ne: "rs_ips res \<noteq> []" and ok: "ips_ok (rs_ips res)" using assms(2) by (simp_all add: resolution_ok_def)
  have al: "allowed_ips sec res = filter (\<lambda>s. block_field sec s = None) (rs_ips res)"
    by (simp add: allowed_ips_eq c)
  have "allowed_ips sec res \<noteq> []"
  proof
    assume e: "allowed_ips sec res = []"
    then have "\<forall>s \<in> set (rs_ips res). block_field sec s = None"
      using assms(3) filterBlocked_none_iff [of "rs_ips res" sec] by (simp add: host_dropped_def blocked_ips_def c)
    with e ne al show False by simp
  qed
  moreover have "ips_ok (allowed_ips sec res)" using ok allowed_ips_subset by (rule ips_ok_subset)
  ultimately show ?thesis using assms(4) al by (simp add: host_ok_def list_all_iff)
qed

context resolver begin

definition loop_hosts_ok :: "security_spec option \<Rightarrow> 's loop_state \<Rightarrow> bool" where
  "loop_hosts_ok sec st \<longleftrightarrow> inv (lp_resolver st) \<and> list_all (host_ok sec) (lp_resolved st)"

lemma admit_hosts_ok:
  assumes "no_consensus sec" "resolution_ok h r" "loop_hosts_ok sec st"
  shows "loop_hosts_ok sec (admit_resolution clk sec pol h r st)"
  using admit_resolved [of sec r clk pol h st] assms(3) admitted_host_ok [OF assms(1,2)]
  by (auto simp: loop_hosts_ok_def admit_simps(1) split: if_splits)

lemma timed_hosts_ok:
  assumes "env_ok e" "loop_hosts_ok sec st" "timed_resolve resolve clk e h st = (res, st')"
  shows "loop_hosts_ok sec st'" "res = Inr r \<Longrightarrow> resolution_ok h r"
proof -
  note ts = timed_resolve_simps [OF assms(3)]
  have i: "inv (lp_resolver st)" using assms(2) by (simp add: loop_hosts_ok_def)
  show "loop_hosts_ok sec st'" using keeps [OF assms(1) i] assms(2) ts(2,4) by (simp add: loop_hosts_ok_def)
  show "res = Inr r \<Longrightarrow> resolution_ok h r" using answers [OF assms(1) i] ts(1) by simp
qed

lemma rule_hosts_ok:
  assumes "env_ok e" "no_consensus (sp_security (fp_spec fp))"
    and "list_all (host_ok (sp_security (fp_spec fp))) (st_resolved_hosts (fp_status fp))"
    and "loop_hosts_ok (sp_security (fp_spec fp)) st"
  shows "loop_hosts_ok (sp_security (fp_spec fp)) (policy_rule resolve clk e fp rule st)"
proof (cases "contains_str (fr_match rule) ''*''")
  case True
  with assms(4) show ?thesis by (simp add: policy_rule_def loop_hosts_ok_def)
next
  case False
  let ?h = "fr_match rule" and ?sec = "sp_security (fp_spec fp)"
  obtain res st' where t: "timed_resolve resolve clk e ?h st = (res, st')"
    by (cases "timed_resolve resolve clk e ?h st")
  have st': "loop_hosts_ok ?sec st'" by (rule timed_hosts_ok(1) [OF assms(1,4) t])
  show ?thesis
  proof (cases res)
    case (Inl err)
    have "list_all (host_ok ?sec)
        (case findPrevious (st_resolved_hosts (fp_status fp)) ?h of None \<Rightarrow> [] | Some x \<Rightarrow> [x])"
      using assms(3) findPrevious_Some by (auto simp: list_all_iff split: option.split)
    with st' False t Inl show ?thesis by (simp add: policy_rule_def loop_hosts_ok_def retain_simps(1,5))
  next
    case (Inr r)
    have "loop_hosts_ok ?sec (admit_resolution clk ?sec (om_name (fp_meta fp)) ?h r st')"
      by (rule admit_hosts_ok [OF assms(2) timed_hosts_ok(2) [OF assms(1,4) t Inr] st'])
    with False t Inr show ?thesis by (simp add: policy_rule_def)
  qed
qed

lemma loop_of_hosts_ok:
  assumes "\<forall>i. env_ok (rv_envs env i)" "no_consensus (sp_security (fp_spec fp))"
    and "list_all (host_ok (sp_security (fp_spec fp))) (st_resolved_hosts (fp_status fp))" "inv (ct_resolver c)"
  shows "loop_hosts_ok (sp_security (fp_spec fp)) (loop_of resolve env c fp)"
  unfolding loop_of_def
  using assms by (intro policy_rules_keep [where P = "loop_hosts_ok (sp_security (fp_spec fp))"] rule_hosts_ok)
    (simp_all add: loop_hosts_ok_def start_loop_def)

end

section \<open>One reconcile of the world\<close>

lemma apply_effects_writes: "apply_effects env (writes log) w = apply_effects env log w"
proof (induction log arbitrary: w)
  case (Cons e log)
  then show ?case by (cases e) (simp_all add: apply_effects_def)
qed (simp add: apply_effects_def)

lemma apply_effects_append:
  "apply_effects env (a @ b) w = apply_effects env b (apply_effects env a w)"
  by (simp add: apply_effects_def)

text \<open>Every reconcile writes at most one NetworkPolicy, the built one, then at most one status.\<close>

lemma reconcile_writes:
  assumes "rv_policy env = Found fp"
  obtains fp' desired nps sts where
    "writes (snd (fst (Reconcile resolve env c))) = nps @ sts"
    "Build (with_resolved (lp_resolved (loop_of resolve env c fp)) fp) = Inr desired"
    "nps = [] \<or> nps = snd (np_write env desired)" "sts = [] \<or> sts = [ApiStatus fp']"
    "st_resolved_hosts (fp_status fp') = lp_resolved (loop_of resolve env c fp)"
    "fp_meta fp' = fp_meta fp" "fp_spec fp' = fp_spec fp"
    "sp_mode (fp_spec fp) \<noteq> PolicyModeAudit \<Longrightarrow> \<not> frozen resolve env c fp \<Longrightarrow>
      nps = snd (np_write env desired) \<and> (fst (np_write env desired) = None \<longrightarrow> sts = [ApiStatus fp'] \<and>
        (rv_status env = None \<longrightarrow> (\<exists>d. fst (fst (Reconcile resolve env c)) = Inr d)))"
proof -
  let ?st = "loop_of resolve env c fp"
  obtain fp3 log where f: "fp_meta fp3 = fp_meta fp" "fp_spec fp3 = fp_spec fp"
    "st_resolved_hosts (fp_status fp3) = lp_resolved ?st" and nw: "no_writes log"
    and R: "fst (Reconcile resolve env c) =
      (if sp_mode (fp_spec fp) = PolicyModeAudit
       then reconcile_audit env (lp_tick ?st + 1) fp3 (lp_queue ?st) log
       else if frozen resolve env c fp
       then reconcile_frozen env (lp_tick ?st + 1) fp3 (lp_queue ?st) log
       else reconcile_enforce env (lp_tick ?st + 1) fp3 (lp_queue ?st) (lp_errors ?st) log)"
    by (rule Reconcile_found [OF assms])
  obtain desired where d: "Build fp3 = Inr desired" using Build_Inr by blast
  then have b: "Build (with_resolved (lp_resolved ?st) fp) = Inr desired"
    using Build_cong [of fp3 "with_resolved (lp_resolved ?st) fp"] f by simp
  consider "sp_mode (fp_spec fp) = PolicyModeAudit"
    | "sp_mode (fp_spec fp) \<noteq> PolicyModeAudit" "frozen resolve env c fp"
    | "sp_mode (fp_spec fp) \<noteq> PolicyModeAudit" "\<not> frozen resolve env c fp" by blast
  then show thesis
  proof cases
    case 1
    define fp1 where "fp1 = setCondition (rv_clk env (lp_tick ?st + 1)) ''Ready'' condition_true ''AuditMode''
      ''Audit mode active; no NetworkPolicy generated'' (with_generated [] fp3)"
    show thesis
      by (rule that [OF _ b, of "[]" "[ApiStatus fp1]" fp1])
        (use 1 R f writes_none [OF nw] in \<open>simp_all add: reconcile_audit_def fp1_def\<close>)
  next
    case 2
    define fp1 where "fp1 = setCondition (rv_clk env (lp_tick ?st + 2)) ''Degraded'' condition_true
      ''DivergenceBlocked'' ''resolver disagreement detected; NetworkPolicy update skipped''
      (setCondition (rv_clk env (lp_tick ?st + 1)) ''Ready'' condition_false ''DivergenceBlocked''
        ''resolver disagreement detected; NetworkPolicy update skipped'' (with_observed_generation fp3))"
    show thesis
      by (rule that [OF _ b, of "[]" "[ApiStatus fp1]" fp1])
        (use 2 R f writes_none [OF nw] in \<open>simp_all add: reconcile_frozen_def fp1_def\<close>)
  next
    case 3
    then have e: "fst (Reconcile resolve env c) =
        reconcile_enforce env (lp_tick ?st + 1) fp3 (lp_queue ?st) (lp_errors ?st) log" using R by simp
    define fp' where "fp' = setReadyCondition (rv_clk env (lp_tick ?st + 1)) (rv_clk env (lp_tick ?st + 1 + 1))
      (lp_errors ?st) (with_generated (np_name desired) fp3)"
    obtain err ws where w: "np_write env desired = (err, ws)" by (cases "np_write env desired")
    note en = enforce_cases [OF d nw, of env "lp_tick ?st + 1" "lp_queue ?st" "lp_errors ?st", unfolded w, simplified]
    have fr: "st_resolved_hosts (fp_status fp') = lp_resolved ?st" "fp_meta fp' = fp_meta fp" "fp_spec fp' = fp_spec fp"
      using f by (simp_all add: fp'_def)
    show thesis
    proof (cases err)
      case None
      show thesis
        by (rule that [OF _ b, of ws "[ApiStatus fp']" fp']) (use None en e w fr in \<open>auto simp: fp'_def\<close>)
    next
      case (Some x)
      show thesis
        by (rule that [OF _ b, of ws "[]" fp']) (use Some en e w fr in auto)
    qed
  qed
qed

definition enforced ::
  "('e \<Rightarrow> 's \<Rightarrow> string \<Rightarrow> (string + resolution) \<times> 's) \<Rightarrow> 'e reconcile_env \<Rightarrow> 's controller \<Rightarrow> fqdn_policy \<Rightarrow>
   fqdn_policy \<Rightarrow> network_policy \<Rightarrow> bool" where
  "enforced resolve env c fp fp' desired \<longleftrightarrow>
     Build (with_resolved (lp_resolved (loop_of resolve env c fp)) fp) = Inr desired \<and>
     st_resolved_hosts (fp_status fp') = lp_resolved (loop_of resolve env c fp) \<and>
     (fst (np_write env desired) = None \<longrightarrow>
       writes (snd (fst (Reconcile resolve env c))) = snd (np_write env desired) @ [ApiStatus fp'] \<and>
       (rv_status env = None \<longrightarrow> (\<exists>d. fst (fst (Reconcile resolve env c)) = Inr d)))"

lemma reconcile_enforced:
  assumes found: "rv_policy env = Found fp" and m: "sp_mode (fp_spec fp) \<noteq> PolicyModeAudit"
    and fz: "\<not> frozen resolve env c fp"
  shows "\<exists>fp' desired. enforced resolve env c fp fp' desired"
proof (rule reconcile_writes [OF found, where resolve = resolve and c = c])
  fix fp' desired nps sts
  assume a: "writes (snd (fst (Reconcile resolve env c))) = nps @ sts"
    "Build (with_resolved (lp_resolved (loop_of resolve env c fp)) fp) = Inr desired"
    "st_resolved_hosts (fp_status fp') = lp_resolved (loop_of resolve env c fp)"
    and e: "sp_mode (fp_spec fp) \<noteq> PolicyModeAudit \<Longrightarrow> \<not> frozen resolve env c fp \<Longrightarrow>
      nps = snd (np_write env desired) \<and> (fst (np_write env desired) = None \<longrightarrow> sts = [ApiStatus fp'] \<and>
        (rv_status env = None \<longrightarrow> (\<exists>d. fst (fst (Reconcile resolve env c)) = Inr d)))"
  have "enforced resolve env c fp fp' desired" unfolding enforced_def using e [OF m fz] a by simp
  then show ?thesis by blast
qed

lemma Reconcile_state:
  "rv_policy env = Found fp \<Longrightarrow> snd (Reconcile resolve env c) = controller_of (loop_of resolve env c fp)"
  by (simp add: Reconcile_def loop_of_def Let_def split: prod.split)

section \<open>The invariant\<close>

lemma built_np_safe:
  assumes "list_all (host_ok sec) (st_resolved_hosts (fp_status fp))" "Build fp = Inr np"
  shows "np_safe sec np"
proof (cases "st_resolved_hosts (fp_status fp) = []")
  case True
  then show ?thesis by (simp add: np_safe_def Build_allows [OF assms(2)])
next
  case False
  let ?hs = "st_resolved_hosts (fp_status fp)"
  have t: "host_texts ?hs" using assms(1) by (auto simp: host_texts_iff host_ok_def list_all_iff)
  have n: "\<exists>h \<in> set ?hs. rh_ips h \<noteq> []"
    using assms(1) False by (cases ?hs) (auto simp: host_ok_def)
  have b: "\<not> blocked_addr sec x" if "x \<in> resolved_addresses fp" for x
    using that assms(1) block_field_addr [of _ x sec]
    by (auto simp: resolved_addresses_def host_ok_def list_all_iff)
  show ?thesis using b by (simp add: np_safe_def Build_allows_addresses [OF assms(2) t n])
qed

lemma respecced_safe: "np_safe sec (respecced existing desired) \<longleftrightarrow> np_safe sec desired"
  by (simp add: np_safe_def egress_allows_def respecced_def)

lemma np_write_effect:
  assumes "np_safe sec desired" "case wo_np w of None \<Rightarrow> True | Some np \<Rightarrow> np_safe sec np"
  shows "case wo_np (apply_effects env (snd (np_write env desired)) w) of None \<Rightarrow> True | Some np \<Rightarrow> np_safe sec np"
    and "wo_policy (apply_effects env (snd (np_write env desired)) w) = wo_policy w"
  using assms
  by (auto simp: np_write_def apply_effects_def respecced_safe split: api_get.split)

lemma status_effect:
  assumes "sts = [] \<or> sts = [ApiStatus fp']"
  shows "wo_np (apply_effects env sts w) = wo_np w"
    "wo_policy (apply_effects env sts w) = wo_policy w \<or>
     wo_policy (apply_effects env sts w) = (wo_policy w)\<lparr>fp_status := fp_status fp'\<rparr>"
  using assms by (auto simp: apply_effects_def)

lemma reconciled_eq:
  "reconciled env w = (apply_effects env (writes (snd (fst (Reconcile wired_Resolve env (wo_shared w))))) w)
     \<lparr>wo_shared := snd (Reconcile wired_Resolve env (wo_shared w))\<rparr>"
  by (simp add: reconciled_def apply_effects_writes split: prod.split)

lemma reconciled_ok:
  assumes "world_ok sec w" "no_consensus sec" "sees env w"
  shows "world_ok sec (reconciled env w)"
proof -
  let ?fp = "wo_policy w" and ?c = "wo_shared w"
  let ?st = "loop_of wired_Resolve env ?c ?fp"
  have sec: "sp_security (fp_spec ?fp) = sec" using assms(1) by (simp add: world_ok_def)
  have found: "rv_policy env = Found ?fp" and envs: "\<forall>i. wired_env_ok (rv_envs env i)"
    using assms(3) by (simp_all add: sees_def)
  have st: "wired_inv (lp_resolver ?st)" "list_all (host_ok sec) (lp_resolved ?st)"
    using wired.loop_of_hosts_ok [of env ?fp ?c] envs assms(1,2)
    by (simp_all add: sec world_ok_def wired.loop_hosts_ok_def)
  obtain fp' desired nps sts where
    W: "writes (snd (fst (Reconcile wired_Resolve env ?c))) = nps @ sts" and
    B: "Build (with_resolved (lp_resolved ?st) ?fp) = Inr desired" and
    N: "nps = [] \<or> nps = snd (np_write env desired)" and S: "sts = [] \<or> sts = [ApiStatus fp']" and
    H: "st_resolved_hosts (fp_status fp') = lp_resolved ?st"
    by (rule reconcile_writes [OF found, where resolve = wired_Resolve and c = ?c]) blast
  let ?w1 = "apply_effects env nps w"
  have safe: "np_safe sec desired" using st(2) by (intro built_np_safe [OF _ B]) simp
  have old: "case wo_np w of None \<Rightarrow> True | Some np \<Rightarrow> np_safe sec np" using assms(1) by (simp add: world_ok_def)
  have w1: "case wo_np ?w1 of None \<Rightarrow> True | Some np \<Rightarrow> np_safe sec np" "wo_policy ?w1 = ?fp"
    using N np_write_effect [OF safe old, of env] old by (auto simp: apply_effects_def)
  have hosts: "list_all (host_ok sec) (st_resolved_hosts (fp_status ?fp))" using assms(1) by (simp add: world_ok_def)
  have p: "list_all (host_ok sec) (st_resolved_hosts (fp_status (wo_policy (apply_effects env sts ?w1))))"
    "sp_security (fp_spec (wo_policy (apply_effects env sts ?w1))) = sec"
    using status_effect(2) [OF S, of env ?w1] w1(2) hosts st(2) H sec by auto
  have "wired_inv (ct_resolver (snd (Reconcile wired_Resolve env ?c)))"
    using st(1) by (simp add: Reconcile_state [OF found] controller_of_def)
  with p w1(1) status_effect(1) [OF S, of env ?w1] show ?thesis
    by (simp add: reconciled_eq W apply_effects_append world_ok_def)
qed

lemma proxied_inv: "wired_inv w \<Longrightarrow> range_order ord \<Longrightarrow> wired_inv (proxied net clk ord exchanged questions w)"
  using handleQuery_inv by (cases w) (simp_all add: wired_inv_def proxied_def)

lemma reachable_ok: "reachable sec w \<Longrightarrow> no_consensus sec \<Longrightarrow> world_ok sec w"
proof (induction rule: reachable.induct)
  case (start fp system err flags)
  then show ?case by (simp add: world_ok_def wire_def wired_start)
next
  case (reconcile w env)
  then show ?case using reconciled_ok by blast
next
  case (query w ord net clk exchanged questions)
  then show ?case using proxied_inv by (simp add: world_ok_def)
qed (simp_all add: world_ok_def wire_def wired_start)

section \<open>Convergence\<close>

text \<open>The NetworkPolicy in the cluster admits the addresses of the status, as ipSetsEqual compares them.\<close>

definition np_converged :: "world \<Rightarrow> bool" where
  "np_converged w \<longleftrightarrow> (\<exists>np desired. wo_np w = Some np \<and> Build (wo_policy w) = Inr desired \<and>
     mset (rule_cidrs (np_egress np)) = mset (rule_cidrs (np_egress desired)))"

definition host_addresses :: "resolved_host list \<Rightarrow> string list" where
  "host_addresses hosts = concat (map rh_ips hosts)"

text \<open>The API server answers the read of the NetworkPolicy from this world and accepts every write.\<close>

definition api_up :: "wired_env reconcile_env \<Rightarrow> world \<Rightarrow> bool" where
  "api_up env w \<longleftrightarrow> sees env w \<and>
     rv_np env (fst (np_key (wo_policy w))) (snd (np_key (wo_policy w))) = np_answer w \<and>
     rv_create env = None \<and> rv_update env = None \<and> rv_status env = None"

abbreviation world_loop :: "wired_env reconcile_env \<Rightarrow> world \<Rightarrow> wired_resolver loop_state" where
  "world_loop env w \<equiv> loop_of wired_Resolve env (wo_shared w) (wo_policy w)"

definition enforces :: "wired_env reconcile_env \<Rightarrow> world \<Rightarrow> bool" where
  "enforces env w \<longleftrightarrow> sp_mode (fp_spec (wo_policy w)) \<noteq> PolicyModeAudit \<and>
     \<not> frozen wired_Resolve env (wo_shared w) (wo_policy w)"

lemma peers_cidrs:
  "concat (map (\<lambda>p. case peer_ip_block p of None \<Rightarrow> [] | Some c \<Rightarrow> [c]) (collect_peers hosts)) =
     map hostCIDR (host_addresses hosts)"
proof (induction hosts)
  case (Cons h hosts)
  have "concat (map (\<lambda>p. case peer_ip_block p of None \<Rightarrow> [] | Some c \<Rightarrow> [c])
      (map (\<lambda>ip. \<lparr>peer_ip_block = Some (hostCIDR ip)\<rparr>) ips)) = map hostCIDR ips" for ips
    by (induction ips) simp_all
  with Cons show ?case by (simp add: host_addresses_def collect_peers_def)
qed (simp add: host_addresses_def collect_peers_def)

lemma Build_cidrs:
  assumes "Build fp = Inr np"
  shows "rule_cidrs (np_egress np) = map hostCIDR (host_addresses (st_resolved_hosts (fp_status fp)))"
  using assms
  by (auto simp: Build_def denyAllEgress_def rule_cidrs_def allowDNSRule_def peers_cidrs host_addresses_def [of "[]"]
      split: if_splits)

lemma np_write_keyed:
  assumes "api_up env w" "fp_meta fp = fp_meta (wo_policy w)" "Build fp = Inr desired"
  shows "np_write env desired = (case wo_np w of
      None \<Rightarrow> (None, [ApiCreate desired])
    | Some np \<Rightarrow> if mset (rule_cidrs (np_egress np)) = mset (rule_cidrs (np_egress desired)) then (None, [])
        else (None, [ApiUpdate (respecced np desired)]))"
  using assms(1,2) Build_fields(1,2) [OF assms(3)]
  by (simp add: np_write_def api_up_def np_key_def np_answer_def split: option.split)

lemma respecced_egress: "np_egress (respecced np desired) = np_egress desired"
  by (simp add: respecced_def)

text \<open>What a successful reconcile leaves in the cluster: the desired NetworkPolicy where there was none, and
  over another one unless ipSetsEqual sees no difference.\<close>

definition applied_np :: "network_policy option \<Rightarrow> network_policy \<Rightarrow> network_policy" where
  "applied_np old desired = (case old of
     None \<Rightarrow> desired
   | Some np \<Rightarrow> if mset (rule_cidrs (np_egress np)) = mset (rule_cidrs (np_egress desired)) then np else respecced np desired)"

lemma reconciled_converged:
  assumes "api_up env w" "enforces env w"
  shows "np_converged (reconciled env w) \<and> fp_meta (wo_policy (reconciled env w)) = fp_meta (wo_policy w) \<and>
    fp_spec (wo_policy (reconciled env w)) = fp_spec (wo_policy w) \<and>
    st_resolved_hosts (fp_status (wo_policy (reconciled env w))) = lp_resolved (world_loop env w) \<and>
    (\<exists>d. fst (fst (Reconcile wired_Resolve env (wo_shared w))) = Inr d) \<and>
    (\<exists>desired. Build (wo_policy (reconciled env w)) = Inr desired \<and>
       wo_np (reconciled env w) = Some (applied_np (wo_np w) desired))"
proof -
  let ?fp = "wo_policy w" and ?c = "wo_shared w" and ?hs = "lp_resolved (world_loop env w)"
  have found: "rv_policy env = Found ?fp" and up: "rv_create env = None" "rv_update env = None" "rv_status env = None"
    using assms(1) by (simp_all add: api_up_def sees_def)
  have m: "sp_mode (fp_spec ?fp) \<noteq> PolicyModeAudit" and fz: "\<not> frozen wired_Resolve env ?c ?fp"
    using assms(2) by (simp_all add: enforces_def)
  obtain fp' desired where "enforced wired_Resolve env ?c ?fp fp' desired"
    using reconcile_enforced [OF found m fz] by blast
  note en = this [unfolded enforced_def]
  note B = en [THEN conjunct1] and H = en [THEN conjunct2, THEN conjunct1]
    and W = en [THEN conjunct2, THEN conjunct2, THEN mp]
  have K: "np_write env desired = (case wo_np w of
      None \<Rightarrow> (None, [ApiCreate desired])
    | Some np \<Rightarrow> if mset (rule_cidrs (np_egress np)) = mset (rule_cidrs (np_egress desired)) then (None, [])
        else (None, [ApiUpdate (respecced np desired)]))"
    by (rule np_write_keyed [OF assms(1) _ B]) simp
  have ok: "fst (np_write env desired) = None" unfolding K by (cases "wo_np w") simp_all
  note W1 = W [OF ok, THEN conjunct1] and D1 = W [OF ok, THEN conjunct2, THEN mp, OF up(3)]
  let ?w1 = "apply_effects env (snd (np_write env desired)) w"
  have a: "wo_np ?w1 = Some (applied_np (wo_np w) desired)"
    unfolding K by (cases "wo_np w") (simp_all add: apply_effects_def up applied_np_def)
  have n: "mset (rule_cidrs (np_egress (applied_np (wo_np w) desired))) = mset (rule_cidrs (np_egress desired))"
    by (simp add: applied_np_def respecced_egress split: option.split)
  have p: "wo_policy ?w1 = ?fp" unfolding K by (cases "wo_np w") (simp_all add: apply_effects_def up)
  have r: "wo_policy (reconciled env w) = ?fp\<lparr>fp_status := fp_status fp'\<rparr>" "wo_np (reconciled env w) = wo_np ?w1"
    using p by (simp_all add: reconciled_eq W1 apply_effects_append apply_effects_def [of env "[ApiStatus fp']"] up)
  have b: "Build (wo_policy (reconciled env w)) = Inr desired"
    using Build_cong [of "wo_policy (reconciled env w)" "with_resolved ?hs ?fp"] B H by (simp add: r(1))
  have c: "np_converged (reconciled env w)" unfolding np_converged_def r(2) a using b n by blast
  have d: "\<exists>desired. Build (wo_policy (reconciled env w)) = Inr desired \<and>
      wo_np (reconciled env w) = Some (applied_np (wo_np w) desired)"
    unfolding r(2) a using b by blast
  show ?thesis using c d D1 H by (simp add: r(1))
qed

section \<open>Properties\<close>

text \<open>C1. No reachable NetworkPolicy opens a blocked address. Start the controller on a policy without
  resolved hosts and let reconciles (with any DNS answers, clocks and API failures), edits that keep the
  security settings, proxied queries, restarts and removals of the NetworkPolicy follow in any order: every
  address in the status passes the block filter, and the NetworkPolicy in the cluster admits no loopback,
  private or link-local address that the settings block, except on the DNS port. (The settings must not ask
  for resolver agreement: with it a host can be left with no address, and then egress opens to everyone.)\<close>

theorem reachable_no_blocked_egress:
  assumes "reachable sec w" and "no_consensus sec"
  shows "{s. \<exists>h \<in> set (st_resolved_hosts (fp_status (wo_policy w))). s \<in> set (rh_ips h) \<and> block_field sec s \<noteq> None} = {} \<and>
    {(np, x, proto, q). wo_np w = Some np \<and> egress_allows np x proto q \<and> blocked_addr sec x \<and> \<not> is_dns proto q} = {}"
proof -
  have ok: "world_ok sec w" by (rule reachable_ok [OF assms])
  have np: "is_dns proto q \<or> \<not> blocked_addr sec x" if "wo_np w = Some np" "egress_allows np x proto q" for np x proto q
    using ok that by (simp add: world_ok_def np_safe_def)
  have "block_field sec s = None" if "h \<in> set (st_resolved_hosts (fp_status (wo_policy w)))" "s \<in> set (rh_ips h)" for h s
    using ok that by (simp add: world_ok_def host_ok_def list_all_iff)
  with np show ?thesis by fastforce
qed

definition sample_wired_env :: "network_policy api_get \<Rightarrow> fqdn_policy \<Rightarrow> wired_env reconcile_env" where
  "sample_wired_env np fp = \<lparr>rv_clk = int, rv_envs = (\<lambda>i. \<lparr>wd_net = sample_net [RR_A 0x01020304 20, RR_A 0x0a000001 20],
       wd_aaaa_first = False, wd_now = 0, wd_multi = sample_env (sample_net []) 0\<rparr>),
     rv_policy = Found fp, rv_policies = Inr [], rv_store = None, rv_ord = id, rv_np = (\<lambda>ns n. np),
     rv_create = None, rv_update = None, rv_status = None\<rparr>"

definition sample_flags :: main_flags where
  "sample_flags = (default_flags (\<lambda>v. []))\<lparr>mf_multi := False\<rparr>"

definition sample_world :: world where
  "sample_world = \<lparr>wo_policy = one_rule, wo_np = None, wo_shared = pr_shared (wire ''10.0.0.10:53'' None sample_flags)\<rparr>"

lemma sample_world_reachable: "reachable None sample_world"
  unfolding sample_world_def by (rule reachable.start) simp_all

lemma sample_sees: "api_up (sample_wired_env NotFound one_rule) sample_world"
  by (simp add: api_up_def sees_def sample_wired_env_def sample_world_def np_answer_def wired_env_ok_def sample_env_ok
      wire_def select_resolver_def sample_flags_def default_flags_def observations_of_def snoop_of_def)

lemma sample_enforces: "enforces (sample_wired_env NotFound one_rule) sample_world"
  by (simp add: enforces_def sample_world_def frozen_def blockOnDivergence_def)

lemma reachable_no_blocked_egress_witness:
  "\<exists>np. wo_np (reconciled (sample_wired_env NotFound one_rule) sample_world) = Some np \<and>
     \<not> egress_allows np (ip_of_v4 0x0a000001) ''TCP'' 443"
proof -
  let ?w = "reconciled (sample_wired_env NotFound one_rule) sample_world"
  have "reachable None ?w"
    using sample_sees by (intro reachable.reconcile sample_world_reachable) (simp add: api_up_def)
  moreover obtain np where np: "wo_np ?w = Some np"
    using reconciled_converged [OF sample_sees sample_enforces] by (auto simp: np_converged_def)
  moreover have "blocked_addr None (ip_of_v4 0x0a000001)" by code_simp
  ultimately show ?thesis
    using reachable_no_blocked_egress [of None ?w] by (fastforce simp: no_consensus_def is_dns_def)
qed

text \<open>C3. A reconcile applies the policy and a second one leaves it there. When the API server answers and
  accepts, the policy enforces and is not frozen, one reconcile succeeds with a requeue time and the status
  holds this cycle's hosts. The cluster then has the NetworkPolicy built from the policy and that status, when
  there was none; one whose CIDRs are not exactly these addresses gets its pod selector, rules, types and labels,
  and keeps its identity and owners; one with exactly these CIDRs is left as it was, whatever its ports and
  selector. Its CIDRs are exactly the addresses in each case. A later reconcile that resolves the same
  addresses, in any order, writes only the status.\<close>

theorem reconcile_converges:
  assumes "api_up env w" and "enforces env w"
    and "api_up env2 (reconciled env w)" and "enforces env2 (reconciled env w)"
    and "mset (host_addresses (lp_resolved (world_loop env2 (reconciled env w)))) =
      mset (host_addresses (lp_resolved (world_loop env w)))"
  shows "(\<exists>desired np. Build (wo_policy (reconciled env w)) = Inr desired \<and>
      np_pod_selector desired = pss_selector (sp_pod_selector (fp_spec (wo_policy w))) \<and>
      np_policy_types desired = [''Egress''] \<and> np_owners desired = [controller_ref (wo_policy w)] \<and>
      np_labels desired = policy_labels (om_name (fp_meta (wo_policy w))) \<and>
      wo_np (reconciled env w) = Some np \<and>
      mset (rule_cidrs (np_egress np)) = mset (map hostCIDR (host_addresses (lp_resolved (world_loop env w)))) \<and>
      np = (case wo_np w of
          None \<Rightarrow> desired
        | Some old \<Rightarrow> if mset (rule_cidrs (np_egress old)) = mset (map hostCIDR (host_addresses (lp_resolved (world_loop env w))))
            then old
            else \<lparr>np_name = np_name old, np_namespace = np_namespace old, np_labels = np_labels desired,
              np_owners = np_owners old, np_pod_selector = np_pod_selector desired,
              np_policy_types = np_policy_types desired, np_egress = np_egress desired\<rparr>)) \<and>
    st_resolved_hosts (fp_status (wo_policy (reconciled env w))) = lp_resolved (world_loop env w) \<and>
    (\<exists>d. fst (fst (Reconcile wired_Resolve env (wo_shared w))) = Inr d) \<and>
    (\<exists>fp'. writes (snd (fst (Reconcile wired_Resolve env2 (wo_shared (reconciled env w))))) = [ApiStatus fp'])"
proof -
  let ?w = "reconciled env w"
  note c1 = reconciled_converged [OF assms(1,2)]
  have found: "rv_policy env2 = Found (wo_policy ?w)" using assms(3) by (simp add: api_up_def sees_def)
  have m: "sp_mode (fp_spec (wo_policy ?w)) \<noteq> PolicyModeAudit"
    and fz: "\<not> frozen wired_Resolve env2 (wo_shared ?w) (wo_policy ?w)"
    using assms(4) by (simp_all add: enforces_def)
  obtain fp' desired where "enforced wired_Resolve env2 (wo_shared ?w) (wo_policy ?w) fp' desired"
    using reconcile_enforced [OF found m fz] by blast
  note en = this [unfolded enforced_def]
  note B = en [THEN conjunct1] and W = en [THEN conjunct2, THEN conjunct2, THEN mp, THEN conjunct1]
  from c1 obtain np d1 where np: "wo_np ?w = Some np" "Build (wo_policy ?w) = Inr d1"
    "mset (rule_cidrs (np_egress np)) = mset (rule_cidrs (np_egress d1))" by (auto simp: np_converged_def)
  have "mset (rule_cidrs (np_egress np)) = mset (rule_cidrs (np_egress desired))"
    using np(3) Build_cidrs [OF np(2)] Build_cidrs [OF B] c1 assms(5) by simp
  then have "np_write env2 desired = (None, [])"
    using np_write_keyed [OF assms(3) _ B] np(1) by simp
  with W have "writes (snd (fst (Reconcile wired_Resolve env2 (wo_shared ?w)))) = [ApiStatus fp']" by simp
  then have second: "\<exists>fp'. writes (snd (fst (Reconcile wired_Resolve env2 (wo_shared ?w)))) = [ApiStatus fp']" by blast
  obtain built where built: "Build (wo_policy ?w) = Inr built" "wo_np ?w = Some (applied_np (wo_np w) built)"
    using c1 by blast
  have cidrs: "rule_cidrs (np_egress built) = map hostCIDR (host_addresses (lp_resolved (world_loop env w)))"
    using Build_cidrs [OF built(1)] c1 by simp
  have meta: "controller_ref (wo_policy ?w) = controller_ref (wo_policy w)" using c1 by (simp add: controller_ref_def)
  have "mset (rule_cidrs (np_egress (applied_np (wo_np w) built))) =
      mset (map hostCIDR (host_addresses (lp_resolved (world_loop env w))))"
    by (simp add: applied_np_def respecced_egress cidrs split: option.split)
  note cidrs' = this
  have np_is: "applied_np (wo_np w) built = (case wo_np w of
        None \<Rightarrow> built
      | Some old \<Rightarrow> if mset (rule_cidrs (np_egress old)) = mset (map hostCIDR (host_addresses (lp_resolved (world_loop env w))))
          then old
          else \<lparr>np_name = np_name old, np_namespace = np_namespace old, np_labels = np_labels built,
            np_owners = np_owners old, np_pod_selector = np_pod_selector built,
            np_policy_types = np_policy_types built, np_egress = np_egress built\<rparr>)"
    by (cases "wo_np w") (simp_all only: applied_np_def respecced_def cidrs option.case)
  have spec: "fp_spec (wo_policy ?w) = fp_spec (wo_policy w)" "fp_meta (wo_policy ?w) = fp_meta (wo_policy w)"
    using c1 by simp_all
  have fields: "np_pod_selector built = pss_selector (sp_pod_selector (fp_spec (wo_policy w)))"
    "np_policy_types built = [''Egress'']" "np_owners built = [controller_ref (wo_policy w)]"
    "np_labels built = policy_labels (om_name (fp_meta (wo_policy w)))"
    using Build_fields [OF built(1)] by (simp_all add: spec meta)
  have status: "st_resolved_hosts (fp_status (wo_policy ?w)) = lp_resolved (world_loop env w)"
    "\<exists>d. fst (fst (Reconcile wired_Resolve env (wo_shared w))) = Inr d" using c1 by simp_all
  show ?thesis
    using built(1) fields built(2) cidrs' np_is status second
    by (intro conjI exI [of _ built] exI [of _ "applied_np (wo_np w) built"])
qed

subsection \<open>The sample world again\<close>

abbreviation sample_call :: wired_env where
  "sample_call \<equiv> \<lparr>wd_net = sample_net [RR_A 0x01020304 20, RR_A 0x0a000001 20], wd_aaaa_first = False, wd_now = 0,
     wd_multi = sample_env (sample_net []) 0\<rparr>"

abbreviation sample_ns :: wired_resolver where "sample_ns \<equiv> WActive ''10.0.0.10:53''"

lemma sample_call_answers: "\<not> isl (fst (wired_Resolve sample_call sample_ns ''a.io''))"
  by code_simp

abbreviation sample_addresses :: "string list" where
  "sample_addresses \<equiv> (let r = projr (fst (wired_Resolve sample_call sample_ns ''a.io''))
     in if host_dropped None r then [] else allowed_ips None r)"

lemma sample_step:
  assumes "timed_resolve wired_Resolve clk sample_call ''a.io'' st = (res, st')"
    and "lp_resolver st = sample_ns" "lp_resolved st = []"
  shows "\<exists>r. res = Inr r \<and>
    host_addresses (lp_resolved (admit_resolution clk None pol ''a.io'' r st')) = sample_addresses \<and>
    lp_resolver (admit_resolution clk None pol ''a.io'' r st') = sample_ns"
proof -
  note ts = timed_resolve_simps [OF assms(1)]
  have "\<not> isl res" using sample_call_answers ts(1) by (simp add: assms(2))
  then obtain r where r: "res = Inr r" by (cases res) simp_all
  have p: "projr (fst (wired_Resolve sample_call sample_ns ''a.io'')) = r"
    using ts(1) r unfolding assms(2) by (metis sum.sel(2))
  have "lp_resolver st' = sample_ns" using ts(2) by (simp add: assms(2) wired_Resolve_def)
  then show ?thesis
    using admit_resolved [of None r clk pol "''a.io''" st'] ts(4)
    by (auto simp: r p assms(3) Let_def host_addresses_def admit_simps(1) split: if_splits)
qed

lemma sample_loop:
  assumes "sp_egress (fp_spec fp) = [\<lparr>fr_match = ''a.io'', fr_ports = []\<rparr>]" "sp_security (fp_spec fp) = None"
    and "ct_resolver c = sample_ns" "rv_envs env = (\<lambda>i. sample_call)"
  shows "host_addresses (lp_resolved (loop_of wired_Resolve env c fp)) = sample_addresses"
    "lp_resolver (loop_of wired_Resolve env c fp) = sample_ns"
proof -
  let ?st = "start_loop c [MetInc ''fqdn_managed_policies_total'' []]"
  obtain res st' where t: "timed_resolve wired_Resolve (rv_clk env) sample_call ''a.io'' ?st = (res, st')"
    by (cases "timed_resolve wired_Resolve (rv_clk env) sample_call ''a.io'' ?st")
  obtain r where r: "res = Inr r"
    "host_addresses (lp_resolved (admit_resolution (rv_clk env) None (om_name (fp_meta fp)) ''a.io'' r st')) = sample_addresses"
    "lp_resolver (admit_resolution (rv_clk env) None (om_name (fp_meta fp)) ''a.io'' r st') = sample_ns"
    using sample_step [OF t, of "om_name (fp_meta fp)"] assms(3) by (auto simp: start_loop_def)
  have "loop_of wired_Resolve env c fp =
      admit_resolution (rv_clk env) None (om_name (fp_meta fp)) ''a.io'' r st'"
    using t r(1) by (simp add: loop_of_def assms policy_rule_def has_prefix_def)
  with r show "host_addresses (lp_resolved (loop_of wired_Resolve env c fp)) = sample_addresses"
    "lp_resolver (loop_of wired_Resolve env c fp) = sample_ns" by simp_all
qed

lemma reconcile_converges_witness:
  "\<exists>w env. np_converged w \<and> (\<exists>fp'. writes (snd (fst (Reconcile wired_Resolve env (wo_shared w)))) = [ApiStatus fp'])"
proof -
  let ?env = "sample_wired_env NotFound one_rule"
  let ?w = "reconciled ?env sample_world"
  let ?env2 = "(sample_wired_env (np_answer ?w) (wo_policy ?w))\<lparr>rv_store := observations_of (ct_resolver (wo_shared ?w))\<rparr>"
  note c = reconciled_converged [OF sample_sees sample_enforces]
  have spec: "fp_spec (wo_policy ?w) = fp_spec one_rule" using c by (simp add: sample_world_def)
  have rule: "sp_egress (fp_spec one_rule) = [\<lparr>fr_match = ''a.io'', fr_ports = []\<rparr>]"
    by (simp add: one_rule_def sample_policy_def)
  have e: "rv_envs (sample_wired_env np fp) = (\<lambda>i. sample_call)" for np fp by (simp add: sample_wired_env_def)
  have c0: "ct_resolver (wo_shared sample_world) = sample_ns"
    by (simp add: sample_world_def wire_def select_resolver_def sample_flags_def default_flags_def NewActiveResolver_def)
  have l1: "host_addresses (lp_resolved (world_loop ?env sample_world)) = sample_addresses"
    and r1: "lp_resolver (world_loop ?env sample_world) = sample_ns"
    using sample_loop [of "wo_policy sample_world" "wo_shared sample_world" ?env] c0 e rule
    by (simp_all add: sample_world_def)
  have "rv_policy ?env = Found (wo_policy sample_world)" using sample_sees by (simp add: api_up_def sees_def)
  then have c1: "ct_resolver (wo_shared ?w) = sample_ns"
    using r1 by (simp add: reconciled_eq Reconcile_state controller_of_def)
  have l2: "host_addresses (lp_resolved (world_loop ?env2 ?w)) = sample_addresses"
    by (rule sample_loop(1)) (simp_all add: spec rule c1 e)
  have u: "api_up ?env2 ?w"
    by (simp add: api_up_def sees_def sample_wired_env_def wired_env_ok_def sample_env_ok split: api_get.split)
  have n: "enforces ?env2 ?w" by (simp add: enforces_def spec frozen_def blockOnDivergence_def)
  have m: "mset (host_addresses (lp_resolved (world_loop ?env2 ?w))) = mset (host_addresses (lp_resolved (world_loop ?env sample_world)))"
    by (simp only: l1 l2)
  note T = reconcile_converges [OF sample_sees sample_enforces u n m]
  show ?thesis
    using c [THEN conjunct1] T [THEN conjunct2, THEN conjunct2, THEN conjunct2] by (intro exI [of _ ?w] exI [of _ ?env2] conjI)
qed

text \<open>Two edits that the invariant leaves out. When the settings are tightened, a host whose resolution fails is
  retained with the addresses the old settings allowed; and switching to Audit mode keeps the NetworkPolicy
  that Enforce mode wrote, while the status then names none.\<close>

lemma retained_not_screened:
  assumes "findPrevious (st_resolved_hosts (fp_status fp)) h = Some host"
  shows "host \<in> set (lp_resolved (retain_previous clk (st_resolved_hosts (fp_status fp)) h e st))"
  using assms by (simp add: retain_simps(5))

lemma audit_keeps_np:
  assumes "sees env w" "sp_mode (fp_spec (wo_policy w)) = PolicyModeAudit"
  shows "wo_np (reconciled env w) = wo_np w"
proof -
  have found: "rv_policy env = Found (wo_policy w)" using assms(1) by (simp add: sees_def)
  obtain fp3 log where nw: "no_writes log"
    and R: "fst (Reconcile wired_Resolve env (wo_shared w)) =
      (if sp_mode (fp_spec (wo_policy w)) = PolicyModeAudit
       then reconcile_audit env (lp_tick (world_loop env w) + 1) fp3 (lp_queue (world_loop env w)) log
       else if frozen wired_Resolve env (wo_shared w) (wo_policy w)
       then reconcile_frozen env (lp_tick (world_loop env w) + 1) fp3 (lp_queue (world_loop env w)) log
       else reconcile_enforce env (lp_tick (world_loop env w) + 1) fp3 (lp_queue (world_loop env w))
         (lp_errors (world_loop env w)) log)"
    by (rule Reconcile_found [OF found, where resolve = wired_Resolve and c = "wo_shared w"])
  show ?thesis
    using assms(2) writes_none [OF nw]
    by (simp add: reconciled_eq R reconcile_audit_def apply_effects_def)
qed

end
