(* ===== verification/SnoopWorld.thy ===== *)
theory SnoopWorld
  imports PolicyWorld
begin

text \<open>
  The path of an address from the DNS proxy to the NetworkPolicy: a pod's query goes through the proxy
  (handleQuery), the next reconcile resolves the same hostname through the snoop resolver, and the address
  the pod received is admitted. This composes SnoopResolver, HostLoop, Reconcile, NetPol and PolicyWorld.
\<close>

section \<open>The rules of one reconcile\<close>

text \<open>The wired resolver is the snoop resolver, with this cache.\<close>

definition snooping :: "ip_cache \<Rightarrow> wired_resolver \<Rightarrow> bool" where
  "snooping c w = (case w of WSnoop s \<Rightarrow> sn_cache s = c | _ \<Rightarrow> False)"

text \<open>A host of that name with that address.\<close>

definition holds :: "string \<Rightarrow> string \<Rightarrow> resolved_host list \<Rightarrow> bool" where
  "holds h a hosts \<longleftrightarrow> (\<exists>host \<in> set hosts. rh_hostname host = h \<and> a \<in> set (rh_ips host))"

lemma wired_snooping: "snooping c w \<Longrightarrow> snooping c (snd (wired_Resolve e w h))"
  by (cases w) (auto simp: snooping_def wired_Resolve_def case_prod_beta snoop_Resolve_cache)

lemma wired_remembered:
  assumes "snooping c w" "a \<in> set (cache_Get (wd_now e) h c)"
  shows "\<exists>r. fst (wired_Resolve e w h) = Inr r \<and> a \<in> set (rs_ips r)"
proof -
  obtain s where s: "w = WSnoop s" "sn_cache s = c" using assms(1) by (cases w) (simp_all add: snooping_def)
  then have "cache_Get (fst (wd_now e, wd_multi e)) h (sn_cache s) \<noteq> []" using assms(2) by auto
  from observed_resolved [OF this] s assms(2) show ?thesis
    by (auto simp: wired_Resolve_def split: prod.split)
qed

lemma rule_snooping:
  assumes "snooping c (lp_resolver st)"
  shows "snooping c (lp_resolver (policy_rule wired_Resolve clk e fp rule st))"
proof -
  obtain res st' where t: "timed_resolve wired_Resolve clk e (fr_match rule) st = (res, st')"
    by (cases "timed_resolve wired_Resolve clk e (fr_match rule) st")
  have "snooping c (lp_resolver st')" using wired_snooping [OF assms] timed_resolve_simps(2) [OF t] by simp
  then show ?thesis
    using assms t by (cases res) (simp_all add: policy_rule_def retain_simps(1) admit_simps(1))
qed

lemma rule_appends: "holds h a (lp_resolved st) \<Longrightarrow> holds h a (lp_resolved (policy_rule resolve clk e fp rule st))"
proof -
  assume H: "holds h a (lp_resolved st)"
  obtain res st' where t: "timed_resolve resolve clk e (fr_match rule) st = (res, st')"
    by (cases "timed_resolve resolve clk e (fr_match rule) st")
  have s: "lp_resolved st' = lp_resolved st" by (rule timed_resolve_simps(4) [OF t])
  have "holds h a (lp_resolved (retain_previous clk prev (fr_match rule) err st'))" for prev err
    using H by (auto simp: holds_def retain_simps(5) s)
  moreover have "holds h a (lp_resolved (admit_resolution clk sec pol (fr_match rule) r st'))" for sec pol r
    using H admit_resolved [of sec r clk pol "fr_match rule" st'] by (auto simp: holds_def s split: if_splits)
  ultimately show ?thesis using H t by (cases res) (simp_all add: policy_rule_def)
qed

lemma admitted_address:
  assumes "no_consensus sec" "a \<in> set (rs_ips r)" "block_field sec a = None"
  shows "holds h a (lp_resolved (admit_resolution clk sec pol h r st))"
proof -
  have c: "fst (consensus_step sec r) = rs_ips r"
    using assms(1) by (auto simp: no_consensus_def consensus_step_def split: option.splits)
  then have al: "a \<in> set (allowed_ips sec r)" using assms(2,3) by (simp add: allowed_ips_eq)
  then have "\<not> host_dropped sec r" by (auto simp: host_dropped_def)
  with admit_resolved [of sec r clk pol h st] al show ?thesis by (auto simp: holds_def)
qed

lemma rule_admits:
  assumes "snooping c (lp_resolver st)" "a \<in> set (cache_Get (wd_now e) (fr_match rule) c)"
    and "no_consensus (sp_security (fp_spec fp))" "block_field (sp_security (fp_spec fp)) a = None"
    and "\<not> contains_str (fr_match rule) ''*''"
  shows "holds (fr_match rule) a (lp_resolved (policy_rule wired_Resolve clk e fp rule st))"
proof -
  obtain res st' where t: "timed_resolve wired_Resolve clk e (fr_match rule) st = (res, st')"
    by (cases "timed_resolve wired_Resolve clk e (fr_match rule) st")
  obtain r where "res = Inr r" "a \<in> set (rs_ips r)"
    using wired_remembered [OF assms(1,2)] timed_resolve_simps(1) [OF t] by auto
  with admitted_address [OF assms(3) _ assms(4)] t assms(5) show ?thesis by (simp add: policy_rule_def)
qed

lemma loop_admits:
  assumes "snooping cache (ct_resolver c)" "rule \<in> set (sp_egress (fp_spec fp))"
    and "\<And>i. a \<in> set (cache_Get (wd_now (rv_envs env i)) (fr_match rule) cache)"
    and "no_consensus (sp_security (fp_spec fp))" "block_field (sp_security (fp_spec fp)) a = None"
    and "\<not> contains_str (fr_match rule) ''*''"
  shows "holds (fr_match rule) a (lp_resolved (loop_of wired_Resolve env c fp))"
  unfolding loop_of_def
  by (rule policy_rules_reach [where P = "\<lambda>st. snooping cache (lp_resolver st)", OF _ _ _ assms(2)])
    (simp_all add: rule_snooping rule_appends rule_admits assms start_loop_def)

section \<open>The NetworkPolicy\<close>

text \<open>What is in the status of a converged world is admitted by its NetworkPolicy.\<close>

lemma converged_admits:
  assumes "np_converged w" "holds h a (st_resolved_hosts (fp_status (wo_policy w)))"
  shows "\<exists>np. wo_np w = Some np \<and> hostCIDR a \<in> set (rule_cidrs (np_egress np))"
proof -
  obtain np d where np: "wo_np w = Some np" "Build (wo_policy w) = Inr d"
    "mset (rule_cidrs (np_egress np)) = mset (rule_cidrs (np_egress d))"
    using assms(1) by (auto simp: np_converged_def)
  have "hostCIDR a \<in> set (rule_cidrs (np_egress d))"
    using assms(2) by (auto simp: Build_cidrs [OF np(2)] holds_def host_addresses_def)
  with mset_eq_setD [OF np(3)] np(1) show ?thesis by simp
qed

section \<open>Properties\<close>

definition queried :: "dns_net \<Rightarrow> (nat \<Rightarrow> gotime) \<Rightarrow> ((string \<times> observed_ip) list \<Rightarrow> (string \<times> observed_ip) list) \<Rightarrow>
    dns_msg \<Rightarrow> string \<times> int \<Rightarrow> world \<Rightarrow> world" where
  "queried net clk ord resp q w = w\<lparr>wo_shared := (wo_shared w)\<lparr>ct_resolver :=
     proxied net clk ord (Inr resp) [q] (ct_resolver (wo_shared w))\<rparr>\<rparr>"

text \<open>C4. What a pod was told it may reach. In a reachable world whose resolver is the DNS proxy, let a pod's A or
  AAAA query be forwarded with an answer that has an address the settings do not block, and let a rule
  name that hostname. When the next enforcing reconcile runs before the answer's TTL has passed and the API
  server answers, then, whatever the upstream servers answer to it or fail to, the status has the
  address under the hostname and the NetworkPolicy in the cluster has the address's CIDR. (The settings must not ask for
  resolver agreement.)\<close>

theorem snooped_address_admitted:
  assumes "reachable sec w" and "no_consensus sec" and "ct_resolver (wo_shared w) = WSnoop s"
    and "range_order ord" and "qt = TypeA \<or> qt = TypeAAAA"
    and "a \<in> set (answer_ips resp)" and "block_field sec a = None"
    and "rule \<in> set (sp_egress (fp_spec (wo_policy w)))" and "fr_match rule = question_host net name"
    and "\<not> contains_str (fr_match rule) ''*''"
    and "api_up env (queried net clk ord resp (name, qt) w)" and "enforces env (queried net clk ord resp (name, qt) w)"
    and "\<And>i j. j \<le> 2 + length (cache_entries (sn_cache s) (question_host net name)) \<Longrightarrow> clk j \<le> wd_now (rv_envs env i)"
    and "\<And>i. wd_now (rv_envs env i) < clk 2 + answer_ttl resp"
  shows "holds (question_host net name) a
      (st_resolved_hosts (fp_status (wo_policy (reconciled env (queried net clk ord resp (name, qt) w))))) \<and>
    (\<exists>np. wo_np (reconciled env (queried net clk ord resp (name, qt) w)) = Some np \<and>
      hostCIDR a \<in> set (rule_cidrs (np_egress np)))"
proof -
  let ?w = "queried net clk ord resp (name, qt) w" and ?h = "question_host net name"
  let ?s = "snd (handleQuery net clk ord (Inr resp) [(name, qt)] s)"
  have sec: "sp_security (fp_spec (wo_policy w)) = sec" and inv: "snoop_inv s"
    using reachable_ok [OF assms(1,2)] assms(3) by (simp_all add: world_ok_def wired_inv_def)
  have ne: "answer_ips resp \<noteq> []" using assms(6) by auto
  have "set (answer_ips resp) \<subseteq> set (cache_Get (wd_now (rv_envs env i)) ?h (sn_cache ?s))" for i
    by (intro handled_cached inv assms(4,5,13,14) ne)
  then have mem: "\<And>i. a \<in> set (cache_Get (wd_now (rv_envs env i)) (fr_match rule) (sn_cache ?s))"
    using assms(6,9) by auto
  have sn: "snooping (sn_cache ?s) (ct_resolver (wo_shared ?w))"
    by (simp add: queried_def proxied_def assms(3) snooping_def)
  have p: "wo_policy ?w = wo_policy w" by (simp add: queried_def)
  have "holds (fr_match rule) a (lp_resolved (world_loop env ?w))"
    by (rule loop_admits [OF sn _ mem]) (use assms(10) in \<open>simp_all add: p sec assms(2,7,8)\<close>)
  with reconciled_converged [OF assms(11,12)]
  have "np_converged (reconciled env ?w) \<and> holds ?h a (st_resolved_hosts (fp_status (wo_policy (reconciled env ?w))))"
    by (simp add: assms(9))
  with converged_admits show ?thesis by blast
qed

definition snoop_start :: world where
  "snoop_start = \<lparr>wo_policy = one_rule, wo_np = None,
     wo_shared = pr_shared (wire ''10.0.0.10:53'' None (sample_flags\<lparr>mf_snoop := True\<rparr>))\<rparr>"

lemma snooped_address_admitted_witness:
  "\<exists>w env np. wo_np (reconciled env w) = Some np \<and> ''1.2.3.4/32'' \<in> set (rule_cidrs (np_egress np))"
proof -
  let ?resp = "\<lparr>dm_rcode = 0, dm_ad = False, dm_answer = [RR_A 0x01020304 30]\<rparr>"
  let ?u = "queried (sample_net []) int rev ?resp (''a.io'', TypeA) snoop_start"
  let ?env = "(sample_wired_env NotFound one_rule)
    \<lparr>rv_envs := (\<lambda>i. sample_call\<lparr>wd_now := 10\<rparr>), rv_store := observations_of (ct_resolver (wo_shared ?u))\<rparr>"
  let ?s = "NewSnoopResolver ''10.0.0.10:53'' []"
  have r: "reachable None snoop_start" unfolding snoop_start_def by (rule reachable.start) simp_all
  have c: "ct_resolver (wo_shared snoop_start) = WSnoop ?s"
    by (simp add: snoop_start_def wire_def select_resolver_def sample_flags_def default_flags_def)
  have h: "question_host (sample_net []) ''a.io'' = ''a.io''" by (simp add: question_host_def sample_net_def)
  have ip: "answer_ips ?resp = [''1.2.3.4'']" by code_simp
  have ttl: "answer_ttl ?resp = 30 * second" by (simp add: answer_ttl_def record_ttl_def second_def min_def)
  have e: "cache_entries (sn_cache ?s) ''a.io'' = []"
    by (simp add: NewSnoopResolver_def NewIPCache_def cache_entries_def Let_def)
  have p: "wo_policy ?u = one_rule" "wo_np ?u = None" by (simp_all add: queried_def snoop_start_def)
  have up: "api_up ?env ?u"
    by (simp add: api_up_def sees_def sample_wired_env_def p np_answer_def wired_env_ok_def sample_env_ok)
  have en: "enforces ?env ?u" by (simp add: enforces_def p frozen_def blockOnDivergence_def)
  have b: "block_field None ''1.2.3.4'' = None" and cidr: "hostCIDR ''1.2.3.4'' = ''1.2.3.4/32''" by code_simp+
  have rule: "\<lparr>fr_match = ''a.io'', fr_ports = []\<rparr> \<in> set (sp_egress (fp_spec (wo_policy snoop_start)))"
    by (simp add: snoop_start_def one_rule_def sample_policy_def)
  have "\<exists>np. wo_np (reconciled ?env ?u) = Some np \<and> hostCIDR ''1.2.3.4'' \<in> set (rule_cidrs (np_egress np))"
    by (rule snooped_address_admitted [OF r _ c range_order_rev _ _ b rule _ _ up en, THEN conjunct2])
      (simp_all add: no_consensus_def ip h ttl e has_prefix_def second_def)
  then show ?thesis unfolding cidr by blast
qed

end
