(* ===== verification/ClusterWorld.thy ===== *)
theory ClusterWorld
  imports PolicyWorld
begin

text \<open>
  One ClusterFQDNNetworkPolicy in the cluster: the stored object, the NetworkPolicies of all namespaces
  (those of other owners too) and the state the controllers share in the process. A reconcile turns its
  log of writes into the next cluster; which namespaces match may change from one to the next.
\<close>

section \<open>The cluster\<close>

record cluster_world =
  cw_policy :: cluster_policy
  cw_nps :: "string \<Rightarrow> string \<Rightarrow> network_policy option"
  cw_shared :: "wired_resolver controller"

definition put_np :: "string \<Rightarrow> string \<Rightarrow> network_policy option \<Rightarrow> cluster_world \<Rightarrow> cluster_world" where
  "put_np ns n v w = w\<lparr>cw_nps := (\<lambda>a b. if a = ns \<and> b = n then v else cw_nps w a b)\<rparr>"

text \<open>What a write leaves; a refused one leaves nothing. A status write stores the status only.\<close>

fun apply_cluster_effect :: "'e cluster_env \<Rightarrow> effect \<Rightarrow> cluster_world \<Rightarrow> cluster_world" where
  "apply_cluster_effect env (ApiCreate np) w =
     (if cv_create env (np_namespace np) = None then put_np (np_namespace np) (np_name np) (Some np) w else w)"
| "apply_cluster_effect env (ApiUpdate np) w =
     (if cv_update env (np_namespace np) = None then put_np (np_namespace np) (np_name np) (Some np) w else w)"
| "apply_cluster_effect env (ApiDelete ns n) w =
     (case cv_delete env ns n of GetFailed e \<Rightarrow> w | _ \<Rightarrow> put_np ns n None w)"
| "apply_cluster_effect env (ApiClusterStatus cp) w = (if cv_status env = None
     then w\<lparr>cw_policy := (cw_policy w)\<lparr>cp_status := cp_status cp\<rparr>\<rparr> else w)"
| "apply_cluster_effect env e w = w"

definition apply_cluster :: "'e cluster_env \<Rightarrow> effect list \<Rightarrow> cluster_world \<Rightarrow> cluster_world" where
  "apply_cluster env log w = fold (apply_cluster_effect env) log w"

definition cluster_reconciled :: "wired_env cluster_env \<Rightarrow> cluster_world \<Rightarrow> cluster_world" where
  "cluster_reconciled env w =
     (let ((result, log), c) = cluster_Reconcile wired_Resolve env (cw_shared w)
      in (apply_cluster env log w)\<lparr>cw_shared := c\<rparr>)"

text \<open>The policies that carry the label of the cluster policy, and the name of those it writes.\<close>

definition carries :: "string \<Rightarrow> network_policy \<Rightarrow> bool" where
  "carries name np \<longleftrightarrow> map_of (np_labels np) cluster_label = Some name"

definition world_name :: "cluster_world \<Rightarrow> string" where
  "world_name w = om_name (cp_meta (cw_policy w))"

definition fan_name :: "string \<Rightarrow> string" where
  "fan_name name = OwnerName (''cfqdnnp-'' @ name)"

definition listed_from :: "cluster_world \<Rightarrow> network_policy set" where
  "listed_from w = {np. cw_nps w (np_namespace np) (np_name np) = Some np \<and> carries (world_name w) np}"

text \<open>An environment that answers from this cluster; every call may fail.\<close>

definition cluster_sees :: "wired_env cluster_env \<Rightarrow> cluster_world \<Rightarrow> bool" where
  "cluster_sees env w \<longleftrightarrow> cv_policy env = Found (cw_policy w) \<and>
     (\<forall>ns n. case cv_np env ns n of GetFailed e \<Rightarrow> True
       | a \<Rightarrow> a = (case cw_nps w ns n of None \<Rightarrow> NotFound | Some np \<Rightarrow> Found np)) \<and>
     (case cv_list_np env cluster_label (world_name w) of Inl e \<Rightarrow> True | Inr items \<Rightarrow> set items = listed_from w)"

text \<open>No call fails.\<close>

definition cluster_up :: "wired_env cluster_env \<Rightarrow> cluster_world \<Rightarrow> bool" where
  "cluster_up env w \<longleftrightarrow> cluster_sees env w \<and>
     (\<forall>ns n. cv_np env ns n = (case cw_nps w ns n of None \<Rightarrow> NotFound | Some np \<Rightarrow> Found np)) \<and>
     (\<exists>items. cv_list_np env cluster_label (world_name w) = Inr items) \<and>
     cv_create env = (\<lambda>ns. None) \<and> cv_update env = (\<lambda>ns. None) \<and> cv_status env = None \<and>
     (\<forall>ns n e. cv_delete env ns n \<noteq> GetFailed e)"

definition nps_keyed :: "cluster_world \<Rightarrow> bool" where
  "nps_keyed w \<longleftrightarrow> (\<forall>ns n np. cw_nps w ns n = Some np \<longrightarrow> np_namespace np = ns \<and> np_name np = n)"

abbreviation cw_loop :: "wired_env cluster_env \<Rightarrow> cluster_world \<Rightarrow> wired_resolver loop_state" where
  "cw_loop env w \<equiv> cluster_loop_of wired_Resolve env (cw_shared w) (cw_policy w)"

definition cluster_enforces :: "wired_env cluster_env \<Rightarrow> cluster_world \<Rightarrow> bool" where
  "cluster_enforces env w \<longleftrightarrow> cs_mode (cp_spec (cw_policy w)) \<noteq> PolicyModeAudit \<and>
     \<not> cluster_frozen wired_Resolve env (cw_shared w) (cw_policy w)"

section \<open>Writes on the cluster\<close>

lemma put_np_simps [simp]:
  "cw_nps (put_np ns n v w) a b = (if a = ns \<and> b = n then v else cw_nps w a b)"
  "cw_policy (put_np ns n v w) = cw_policy w" "cw_shared (put_np ns n v w) = cw_shared w"
  by (simp_all add: put_np_def)

lemma apply_cluster_simps [simp]:
  "apply_cluster env [] w = w"
  "apply_cluster env (e # log) w = apply_cluster env log (apply_cluster_effect env e w)"
  "apply_cluster env (a @ b) w = apply_cluster env b (apply_cluster env a w)"
  by (simp_all add: apply_cluster_def)

lemma apply_cluster_writes: "apply_cluster env (writes log) w = apply_cluster env log w"
proof (induction log arbitrary: w)
  case (Cons e log)
  then show ?case by (cases e) simp_all
qed simp

lemma cluster_reconciled_eq:
  "cluster_reconciled env w = (apply_cluster env (writes (snd (fst (cluster_Reconcile wired_Resolve env (cw_shared w))))) w)
     \<lparr>cw_shared := snd (cluster_Reconcile wired_Resolve env (cw_shared w))\<rparr>"
  by (simp add: cluster_reconciled_def apply_cluster_writes split: prod.split)

lemma cluster_status_effect:
  "cw_nps (apply_cluster_effect env (ApiClusterStatus cp) w) = cw_nps w" by simp

text \<open>What the fan-out leaves: under its own name, in the namespaces it goes to; it removes nothing.\<close>

lemma fan_target:
  assumes "nps_keyed w" "cluster_sees env w" "Build (syntheticPolicy (cw_policy w) ns hosts) = Inr np"
    and "e \<in> set (writes (sync_namespace env (cw_policy w) hosts ns))"
  shows "\<exists>p. (e = ApiCreate p \<or> e = ApiUpdate p) \<and> np_namespace p = ns \<and> np_name p = fan_name (world_name w)"
proof -
  let ?n = "fan_name (world_name w)"
  have k: "np_namespace np = ns" "np_name np = ?n"
    using Build_fields(1,2) [OF assms(3)] by (simp_all add: fan_name_def world_name_def)
  have ex: "np_namespace existing = ns \<and> np_name existing = ?n" if "cv_np env ns ?n = Found existing" for existing
  proof -
    from assms(2) have "case cv_np env ns ?n of GetFailed e \<Rightarrow> True
       | a \<Rightarrow> a = (case cw_nps w ns ?n of None \<Rightarrow> NotFound | Some np \<Rightarrow> Found np)"
      by (simp add: cluster_sees_def)
    with that have "cw_nps w ns ?n = Some existing" by (simp split: option.splits)
    with assms(1) show ?thesis by (simp add: nps_keyed_def)
  qed
  show ?thesis using assms(4) k ex
    by (auto simp: sync_namespace_writes [OF assms(3)] cluster_np_write_def respecced_def split: api_get.splits if_splits)
qed

lemma write_effect:
  assumes "e = ApiCreate p \<or> e = ApiUpdate p"
  shows "cw_nps (apply_cluster_effect env e v) a b = cw_nps v a b \<or>
    (a = np_namespace p \<and> b = np_name p \<and> cw_nps (apply_cluster_effect env e v) a b = Some p)"
    "cw_policy (apply_cluster_effect env e v) = cw_policy v" "cw_shared (apply_cluster_effect env e v) = cw_shared v"
  using assms by (auto split: if_splits)

definition writes_at :: "string list \<Rightarrow> string \<Rightarrow> effect list \<Rightarrow> bool" where
  "writes_at nss n log \<longleftrightarrow>
     list_all (\<lambda>e. \<exists>p. (e = ApiCreate p \<or> e = ApiUpdate p) \<and> np_namespace p \<in> set nss \<and> np_name p = n) log"

lemma fan_out_writes_at:
  assumes "nps_keyed w" "cluster_sees env w"
  shows "writes_at nss (fan_name (world_name w)) (writes (fan_out env (cw_policy w) hosts nss))"
proof -
  have "writes (fan_out env (cw_policy w) hosts nss) = concat (map (\<lambda>ns. writes (sync_namespace env (cw_policy w) hosts ns)) nss)"
    by (induction nss) (simp_all add: fan_out_def)
  moreover have "\<exists>np. Build (syntheticPolicy (cw_policy w) ns hosts) = Inr np" for ns using Build_Inr by blast
  ultimately show ?thesis using fan_target [OF assms] by (fastforce simp: writes_at_def list_all_iff)
qed

lemma writes_at_effect:
  assumes "writes_at nss n log"
  shows "(a \<notin> set nss \<or> b \<noteq> n \<longrightarrow> cw_nps (apply_cluster env log v) a b = cw_nps v a b) \<and>
     (cw_nps v a b \<noteq> None \<longrightarrow> cw_nps (apply_cluster env log v) a b \<noteq> None) \<and>
     (nps_keyed v \<longrightarrow> nps_keyed (apply_cluster env log v)) \<and>
     cw_policy (apply_cluster env log v) = cw_policy v"
  using assms
proof (induction log arbitrary: v)
  case (Cons e log)
  from Cons.prems obtain p where p: "e = ApiCreate p \<or> e = ApiUpdate p" "np_namespace p \<in> set nss" "np_name p = n"
    and l: "writes_at nss n log" by (auto simp: writes_at_def)
  let ?v = "apply_cluster_effect env e v"
  have k: "nps_keyed v \<longrightarrow> nps_keyed ?v" using p(1) by (auto simp: nps_keyed_def split: if_splits)
  note E = write_effect(1) [OF p(1), of env v a b] write_effect(2) [OF p(1), of env v]
  note I = Cons.IH [OF l, of ?v]
  have "a \<notin> set nss \<or> b \<noteq> n \<longrightarrow> cw_nps ?v a b = cw_nps v a b" using E(1) p(2,3) by auto
  moreover have "cw_nps v a b \<noteq> None \<longrightarrow> cw_nps ?v a b \<noteq> None" using E(1) by auto
  ultimately show ?case using I E(2) k unfolding apply_cluster_simps(2) by simp
qed simp

lemma deletes_effect:
  "cw_nps (apply_cluster env (map delete_of ds) v) a b =
     (if (a, b) \<in> (\<lambda>np. (np_namespace np, np_name np)) ` set ds \<and> (\<forall>e. cv_delete env a b \<noteq> GetFailed e) then None
      else cw_nps v a b) \<and>
   cw_policy (apply_cluster env (map delete_of ds) v) = cw_policy v \<and>
   (nps_keyed v \<longrightarrow> nps_keyed (apply_cluster env (map delete_of ds) v))"
proof (induction ds arbitrary: v)
  case (Cons d ds)
  have "nps_keyed v \<longrightarrow> nps_keyed (apply_cluster_effect env (delete_of d) v)"
    by (auto simp: delete_of_def nps_keyed_def split: api_get.splits if_splits)
  with Cons.IH [of "apply_cluster_effect env (delete_of d) v"] show ?case
    by (cases "cv_delete env (np_namespace d) (np_name d)") (auto simp: delete_of_def)
qed simp

section \<open>One reconcile of the cluster\<close>

definition changed :: "cluster_world \<Rightarrow> cluster_world \<Rightarrow> (string \<times> string) set" where
  "changed w w' = {(a, b). cw_nps w' a b \<noteq> cw_nps w a b}"

text \<open>The writes of a reconcile that only touch the status.\<close>

lemma status_only:
  assumes "log = [] \<or> log = [ApiClusterStatus cp']"
  shows "cw_nps (apply_cluster env log v) = cw_nps v"
    "om_name (cp_meta (cw_policy (apply_cluster env log v))) = om_name (cp_meta (cw_policy v))"
  using assms by auto

lemma keyed_nps: "cw_nps v = cw_nps w \<Longrightarrow> nps_keyed v = nps_keyed w"
  by (simp add: nps_keyed_def)

lemma idle_nps:
  assumes "cluster_sees env w"
    and "\<not> cluster_enforces env w \<or> isl (matchedNamespaces env (cw_policy w))"
  shows "cw_nps (cluster_reconciled env w) = cw_nps w" "world_name (cluster_reconciled env w) = world_name w"
proof -
  have found: "cv_policy env = Found (cw_policy w)" using assms(1) by (simp add: cluster_sees_def)
  let ?log = "writes (snd (fst (cluster_Reconcile wired_Resolve env (cw_shared w))))"
  have "\<exists>cp'. ?log = [] \<or> ?log = [ApiClusterStatus cp']"
  proof (cases "matchedNamespaces env (cw_policy w)")
    case (Inl e)
    then show ?thesis using cluster_unlisted_writes [OF found] by blast
  next
    case (Inr nss)
    with assms(2) have "cs_mode (cp_spec (cw_policy w)) = PolicyModeAudit \<or>
        cluster_frozen wired_Resolve env (cw_shared w) (cw_policy w)" by (auto simp: cluster_enforces_def)
    then show ?thesis using cluster_idle_writes [OF found] by blast
  qed
  then obtain cp' where "?log = [] \<or> ?log = [ApiClusterStatus cp']" by blast
  note S = status_only [OF this, of env w]
  show "cw_nps (cluster_reconciled env w) = cw_nps w" using S(1) by (simp add: cluster_reconciled_eq)
  show "world_name (cluster_reconciled env w) = world_name w"
    using S(2) by (simp add: cluster_reconciled_eq world_name_def)
qed

text \<open>What the garbage collection deletes: listed policies of other namespaces.\<close>

lemma collected:
  assumes "cluster_sees env w"
  obtains ds where "writes (snd (garbageCollect env (cw_policy w) nss)) = map delete_of ds"
    and "set ds \<subseteq> listed_from w" and "\<forall>np \<in> set ds. np_namespace np \<notin> set nss"
proof (rule that)
  show "writes (snd (garbageCollect env (cw_policy w) nss)) = map delete_of (cluster_deletes env (cw_policy w) nss)"
    by (rule garbageCollect_writes)
  have d: "set (cluster_deletes env (cw_policy w) nss) \<subseteq> {np \<in> listed_from w. np_namespace np \<notin> set nss}"
  proof (cases "cv_list_np env cluster_label (world_name w)")
    case (Inr items)
    then have "set items = listed_from w" using assms by (simp add: cluster_sees_def)
    with Inr [unfolded world_name_def] gc_attempted_subset [of env "stale_policies nss items"] show ?thesis
      by (auto simp: cluster_deletes_def stale_policies_def)
  qed (simp add: cluster_deletes_def world_name_def)
  then show "set (cluster_deletes env (cw_policy w) nss) \<subseteq> listed_from w" by blast
  show "\<forall>np \<in> set (cluster_deletes env (cw_policy w) nss). np_namespace np \<notin> set nss" using d by blast
qed

lemma enforce_nps:
  assumes "nps_keyed w" "cluster_sees env w" "cluster_enforces env w" "matchedNamespaces env (cw_policy w) = Inr nss"
  defines "w' \<equiv> cluster_reconciled env w"
  shows "nps_keyed w' \<and> world_name w' = world_name w \<and>
    changed w w' \<subseteq> {(a, b). a \<in> set nss \<and> b = fan_name (world_name w) \<and> cw_nps w' a b \<noteq> None} \<union>
      {(a, b). a \<notin> set nss \<and> cw_nps w' a b = None \<and> (\<exists>np. cw_nps w a b = Some np \<and> carries (world_name w) np)}"
proof -
  let ?n = "fan_name (world_name w)" and ?cp = "cw_policy w"
  let ?hs = "lp_resolved (cw_loop env w)"
  have found: "cv_policy env = Found ?cp" using assms(2) by (simp add: cluster_sees_def)
  have m: "cs_mode (cp_spec ?cp) \<noteq> PolicyModeAudit" and fz: "\<not> cluster_frozen wired_Resolve env (cw_shared w) ?cp"
    using assms(3) by (simp_all add: cluster_enforces_def)
  obtain cp' where W: "writes (snd (fst (cluster_Reconcile wired_Resolve env (cw_shared w)))) =
      writes (fan_out env ?cp ?hs nss) @ writes (snd (garbageCollect env ?cp nss)) @ [ApiClusterStatus cp']"
    using cluster_enforce_writes [OF found m fz assms(4)] by blast
  obtain ds where ds: "writes (snd (garbageCollect env ?cp nss)) = map delete_of ds"
    "set ds \<subseteq> listed_from w" "\<forall>np \<in> set ds. np_namespace np \<notin> set nss"
    using collected [OF assms(2)] by blast
  let ?v1 = "apply_cluster env (writes (fan_out env ?cp ?hs nss)) w"
  let ?v2 = "apply_cluster env (map delete_of ds) ?v1"
  note A = writes_at_effect [OF fan_out_writes_at [OF assms(1,2), of nss ?hs], of _ _ env w]
  note D = deletes_effect [of env ds ?v1]
  have n: "cw_nps w' = cw_nps ?v2"
    unfolding w'_def cluster_reconciled_eq W ds(1) by simp
  have p: "cw_policy ?v2 = ?cp" using A D by simp
  have nm: "world_name w' = world_name w"
    unfolding w'_def cluster_reconciled_eq W ds(1) world_name_def by (simp add: p)
  have k: "nps_keyed w'" using A D assms(1) keyed_nps [OF n] by simp
  have key: "(a, b) \<in> (\<lambda>np. (np_namespace np, np_name np)) ` set ds \<Longrightarrow>
      a \<notin> set nss \<and> (\<exists>np. cw_nps w a b = Some np \<and> carries (world_name w) np)" for a b
    using ds(2,3) by (auto simp: listed_from_def)
  have ch: "a \<in> set nss \<and> b = ?n \<and> cw_nps w' a b \<noteq> None \<or>
      a \<notin> set nss \<and> cw_nps w' a b = None \<and> (\<exists>np. cw_nps w a b = Some np \<and> carries (world_name w) np)"
    if c: "cw_nps w' a b \<noteq> cw_nps w a b" for a b
  proof (cases "(a, b) \<in> (\<lambda>np. (np_namespace np, np_name np)) ` set ds \<and> (\<forall>e. cv_delete env a b \<noteq> GetFailed e)")
    case True
    then have "cw_nps w' a b = None" using D [of a b] by (simp add: n)
    with key True show ?thesis by blast
  next
    case False
    then have e: "cw_nps w' a b = cw_nps ?v1 a b" using D [of a b] unfolding n by (simp only: if_False)
    with c A [of a b] have ab: "a \<in> set nss" "b = ?n" by auto
    have "cw_nps w' a b \<noteq> None"
    proof (cases "cw_nps w a b")
      case None
      with c show ?thesis by simp
    next
      case Some
      with A [of a b] e show ?thesis by simp
    qed
    with ab show ?thesis by blast
  qed
  show ?thesis
  proof (intro conjI k nm subrelI)
    fix a b
    assume "(a, b) \<in> changed w w'"
    then have "cw_nps w' a b \<noteq> cw_nps w a b" by (simp add: changed_def)
    from ch [OF this] show "(a, b) \<in> {(a, b). a \<in> set nss \<and> b = ?n \<and> cw_nps w' a b \<noteq> None} \<union>
      {(a, b). a \<notin> set nss \<and> cw_nps w' a b = None \<and> (\<exists>np. cw_nps w a b = Some np \<and> carries (world_name w) np)}"
      by simp
  qed
qed

lemma cluster_reconciled_key:
  assumes "nps_keyed w" "cluster_sees env w"
  shows "nps_keyed (cluster_reconciled env w) \<and> world_name (cluster_reconciled env w) = world_name w"
proof (cases "cluster_enforces env w \<and> \<not> isl (matchedNamespaces env (cw_policy w))")
  case True
  then obtain nss where "matchedNamespaces env (cw_policy w) = Inr nss"
    by (cases "matchedNamespaces env (cw_policy w)") simp_all
  with True enforce_nps [OF assms _ this] show ?thesis by simp
next
  case False
  then have i: "\<not> cluster_enforces env w \<or> isl (matchedNamespaces env (cw_policy w))" by blast
  note N = idle_nps [OF assms(2) i]
  show ?thesis using assms(1) keyed_nps [OF N(1)] N(2) by simp
qed

section \<open>The cluster a reconcile makes\<close>

text \<open>What the cluster policy wants in a namespace, and what the fan-out leaves there: what is there, when
  ipSetsEqual sees no difference, else the wanted one.\<close>

definition wanted_np :: "cluster_policy \<Rightarrow> resolved_host list \<Rightarrow> string \<Rightarrow> network_policy" where
  "wanted_np cp hosts ns = tagged (om_name (cp_meta cp)) (projr (Build (syntheticPolicy cp ns hosts)))"

definition settled_np :: "cluster_world \<Rightarrow> resolved_host list \<Rightarrow> string \<Rightarrow> network_policy" where
  "settled_np w hosts ns =
     (let np = wanted_np (cw_policy w) hosts ns in
      case cw_nps w ns (fan_name (world_name w)) of
        None \<Rightarrow> np
      | Some old \<Rightarrow> if mset (rule_cidrs (np_egress old)) = mset (rule_cidrs (np_egress np)) then old else respecced old np)"

definition settled :: "cluster_world \<Rightarrow> resolved_host list \<Rightarrow> string list \<Rightarrow> string \<Rightarrow> string \<Rightarrow> network_policy option" where
  "settled w hosts nss ns n =
     (if ns \<in> set nss \<and> n = fan_name (world_name w) then Some (settled_np w hosts ns)
      else case cw_nps w ns n of
        None \<Rightarrow> None
      | Some np \<Rightarrow> if ns \<notin> set nss \<and> carries (world_name w) np then None else Some np)"

lemma wanted_simps:
  "np_namespace (wanted_np cp hosts ns) = ns"
  "np_name (wanted_np cp hosts ns) = fan_name (om_name (cp_meta cp))"
  "rule_cidrs (np_egress (wanted_np cp hosts ns)) = map hostCIDR (host_addresses hosts)"
  "carries (om_name (cp_meta cp)) (wanted_np cp hosts ns)"
proof -
  obtain np where b: "Build (syntheticPolicy cp ns hosts) = Inr np" using Build_Inr by blast
  show "np_namespace (wanted_np cp hosts ns) = ns" "np_name (wanted_np cp hosts ns) = fan_name (om_name (cp_meta cp))"
    "rule_cidrs (np_egress (wanted_np cp hosts ns)) = map hostCIDR (host_addresses hosts)"
    "carries (om_name (cp_meta cp)) (wanted_np cp hosts ns)"
    using Build_fields(1,2) [OF b] Build_cidrs [OF b] by (simp_all add: wanted_np_def b fan_name_def carries_def)
qed

lemma settled_cidrs:
  "mset (rule_cidrs (np_egress (settled_np w hosts ns))) = mset (map hostCIDR (host_addresses hosts))"
  by (simp add: settled_np_def Let_def wanted_simps respecced_egress split: option.split)

lemma settled_key:
  assumes "nps_keyed w"
  shows "np_namespace (settled_np w hosts ns) = ns" "np_name (settled_np w hosts ns) = fan_name (world_name w)"
  using assms by (auto simp: settled_np_def Let_def wanted_simps world_name_def respecced_def nps_keyed_def split: option.split)

lemma sync_up:
  assumes "nps_keyed w" "cluster_up env w" "cw_nps v ns (fan_name (world_name w)) \<in>
      {cw_nps w ns (fan_name (world_name w)), Some (settled_np w hosts ns)}"
  shows "cw_nps (apply_cluster env (writes (sync_namespace env (cw_policy w) hosts ns)) v) a b =
      (if a = ns \<and> b = fan_name (world_name w) then Some (settled_np w hosts ns) else cw_nps v a b)"
proof -
  let ?n = "fan_name (world_name w)"
  obtain np where b: "Build (syntheticPolicy (cw_policy w) ns hosts) = Inr np" using Build_Inr by blast
  have wnp: "tagged (om_name (cp_meta (cw_policy w))) np = wanted_np (cw_policy w) hosts ns"
    by (simp add: wanted_np_def b)
  have up: "cv_np env ns ?n = (case cw_nps w ns ?n of None \<Rightarrow> NotFound | Some np \<Rightarrow> Found np)"
    "cv_create env = (\<lambda>ns. None)" "cv_update env = (\<lambda>ns. None)"
    using assms(2) by (simp_all add: cluster_up_def)
  note k = wanted_simps(1,2) [of "cw_policy w" hosts ns, folded world_name_def]
  have W: "writes (sync_namespace env (cw_policy w) hosts ns) = (case cw_nps w ns ?n of
      None \<Rightarrow> [ApiCreate (wanted_np (cw_policy w) hosts ns)]
    | Some old \<Rightarrow> if mset (rule_cidrs (np_egress old)) = mset (rule_cidrs (np_egress (wanted_np (cw_policy w) hosts ns)))
        then [] else [ApiUpdate (respecced old (wanted_np (cw_policy w) hosts ns))])"
    unfolding sync_namespace_writes [OF b] wnp cluster_np_write_def k up(1) by (simp split: option.split)
  show ?thesis
  proof (cases "cw_nps w ns ?n")
    case None
    then show ?thesis unfolding W by (simp add: up k settled_np_def)
  next
    case (Some old)
    then have o: "np_namespace old = ns" "np_name old = ?n" using assms(1) by (simp_all add: nps_keyed_def)
    show ?thesis
    proof (cases "mset (rule_cidrs (np_egress old)) = mset (rule_cidrs (np_egress (wanted_np (cw_policy w) hosts ns)))")
      case True
      then have "settled_np w hosts ns = old" using Some by (simp add: settled_np_def)
      with assms(3) Some True show ?thesis unfolding W by auto
    next
      case False
      then have s: "settled_np w hosts ns = respecced old (wanted_np (cw_policy w) hosts ns)"
        using Some by (simp add: settled_np_def)
      show ?thesis unfolding W s using Some False o by (simp add: up respecced_def)
    qed
  qed
qed

lemma fan_out_up:
  assumes "nps_keyed w" "cluster_up env w" "\<And>a. cw_nps v a (fan_name (world_name w)) \<in>
      {cw_nps w a (fan_name (world_name w)), Some (settled_np w hosts a)}"
  shows "cw_nps (apply_cluster env (writes (fan_out env (cw_policy w) hosts nss)) v) a b =
      (if a \<in> set nss \<and> b = fan_name (world_name w) then Some (settled_np w hosts a) else cw_nps v a b)"
  using assms(3)
proof (induction nss arbitrary: v)
  case Nil
  show ?case by (simp add: fan_out_def)
next
  case (Cons ns nss)
  let ?v = "apply_cluster env (writes (sync_namespace env (cw_policy w) hosts ns)) v"
  note S = sync_up [OF assms(1,2) Cons.prems]
  have "cw_nps ?v a (fan_name (world_name w)) \<in> {cw_nps w a (fan_name (world_name w)), Some (settled_np w hosts a)}" for a
    using Cons.prems [of a] by (simp add: S)
  from Cons.IH [of ?v, OF this] show ?case by (auto simp: fan_out_def S)
qed

lemma collected_up:
  assumes "cluster_up env w"
  shows "\<exists>ds. writes (snd (garbageCollect env (cw_policy w) nss)) = map delete_of ds \<and>
    set ds = {np \<in> listed_from w. np_namespace np \<notin> set nss}"
proof -
  obtain items where i: "cv_list_np env cluster_label (om_name (cp_meta (cw_policy w))) = Inr items"
    "set items = listed_from w"
    using assms by (auto simp: cluster_up_def cluster_sees_def world_name_def)
  have "delete_error env np = None" for np
    using assms by (cases "cv_delete env (np_namespace np) (np_name np)") (simp_all add: cluster_up_def delete_error_def)
  then have "cluster_deletes env (cw_policy w) nss = stale_policies nss items"
    by (simp add: cluster_deletes_def i(1) gc_attempted_all)
  then show ?thesis
    by (intro exI [of _ "stale_policies nss items"]) (use i(2) in \<open>auto simp: garbageCollect_writes stale_policies_def\<close>)
qed

lemma reconciled_settled:
  assumes "nps_keyed w" "cluster_up env w" "cluster_enforces env w" "matchedNamespaces env (cw_policy w) = Inr nss"
  defines "w' \<equiv> cluster_reconciled env w" and "hosts \<equiv> lp_resolved (cw_loop env w)"
  shows "cw_nps w' = settled w hosts nss \<and> world_name w' = world_name w \<and>
    cp_spec (cw_policy w') = cp_spec (cw_policy w) \<and>
    cst_resolved_hosts (cp_status (cw_policy w')) = hosts \<and> cst_namespaces (cp_status (cw_policy w')) = nss \<and>
    (\<exists>d. fst (fst (cluster_Reconcile wired_Resolve env (cw_shared w))) = Inr d)"
proof -
  let ?cp = "cw_policy w"
  have found: "cv_policy env = Found ?cp" and st: "cv_status env = None"
    and dl: "\<forall>a b e. cv_delete env a b \<noteq> GetFailed e"
    using assms(2) by (simp_all add: cluster_up_def cluster_sees_def)
  have m: "cs_mode (cp_spec ?cp) \<noteq> PolicyModeAudit" and fz: "\<not> cluster_frozen wired_Resolve env (cw_shared w) ?cp"
    using assms(3) by (simp_all add: cluster_enforces_def)
  obtain cp' where W: "writes (snd (fst (cluster_Reconcile wired_Resolve env (cw_shared w)))) =
      writes (fan_out env ?cp hosts nss) @ writes (snd (garbageCollect env ?cp nss)) @ [ApiClusterStatus cp']"
    and C: "cst_resolved_hosts (cp_status cp') = hosts" "cst_namespaces (cp_status cp') = nss"
    and R: "\<exists>d. fst (fst (cluster_Reconcile wired_Resolve env (cw_shared w))) = Inr d"
    using cluster_enforce_writes [OF found m fz assms(4)] st unfolding hosts_def by blast
  obtain ds where ds: "writes (snd (garbageCollect env ?cp nss)) = map delete_of ds"
    "set ds = {np \<in> listed_from w. np_namespace np \<notin> set nss}"
    using collected_up [OF assms(2)] by blast
  let ?v1 = "apply_cluster env (writes (fan_out env ?cp hosts nss)) w"
  let ?v2 = "apply_cluster env (map delete_of ds) ?v1"
  have see: "cluster_sees env w" using assms(2) by (simp add: cluster_up_def)
  note A = writes_at_effect [OF fan_out_writes_at [OF assms(1) see, of nss hosts], of _ _ env w]
  note F = fan_out_up [OF assms(1,2), of w hosts nss]
  note D = deletes_effect [of env ds ?v1]
  have p: "cw_policy ?v2 = ?cp" using A D by simp
  have P: "cw_policy w' = ?cp\<lparr>cp_status := cp_status cp'\<rparr>" and n: "cw_nps w' = cw_nps ?v2"
    unfolding w'_def cluster_reconciled_eq W ds(1) by (simp_all add: p st)
  have key: "(a, b) \<in> (\<lambda>np. (np_namespace np, np_name np)) ` set ds \<longleftrightarrow>
      a \<notin> set nss \<and> (\<exists>np. cw_nps w a b = Some np \<and> carries (world_name w) np)" for a b
  proof -
    have "cw_nps w a b = Some np \<Longrightarrow> np_namespace np = a \<and> np_name np = b" for np
      using assms(1) by (simp add: nps_keyed_def)
    then show ?thesis by (force simp: ds(2) listed_from_def)
  qed
  have "cw_nps w' a b = settled w hosts nss a b" for a b
    using D [of a b] F [of a b] dl unfolding n settled_def key by (auto split: option.split)
  then have "cw_nps w' = settled w hosts nss" by blast
  with C R show ?thesis by (simp add: P world_name_def)
qed

lemma settled_listed:
  assumes "cw_nps w' = settled w hosts nss" "world_name w' = world_name w"
  shows "np \<in> listed_from w' \<Longrightarrow> np_namespace np \<in> set nss"
  by (auto simp: listed_from_def assms settled_def split: option.splits if_splits)

text \<open>On a settled cluster the fan-out and the garbage collection find nothing to do.\<close>

lemma settled_quiet:
  assumes "cluster_up env w'" "world_name w' = world_name w" "cw_nps w' = settled w hosts nss"
    and "set nss' = set nss" "mset (host_addresses hosts') = mset (host_addresses hosts)"
  shows "writes (fan_out env (cw_policy w') hosts' nss') = []" "writes (snd (garbageCollect env (cw_policy w') nss')) = []"
proof -
  have "writes (sync_namespace env (cw_policy w') hosts' ns) = []" if "ns \<in> set nss" for ns
  proof -
    obtain np where b: "Build (syntheticPolicy (cw_policy w') ns hosts') = Inr np" using Build_Inr by blast
    have wnp: "tagged (om_name (cp_meta (cw_policy w'))) np = wanted_np (cw_policy w') hosts' ns"
      by (simp add: wanted_np_def b)
    note k = wanted_simps(1-3) [of "cw_policy w'" hosts' ns, folded world_name_def]
    have "cv_np env ns (fan_name (world_name w')) = Found (settled_np w hosts ns)"
      using assms(1) that by (simp add: cluster_up_def assms(2,3) settled_def)
    then show ?thesis
      using settled_cidrs [of w hosts ns] assms(5)
      unfolding sync_namespace_writes [OF b] wnp cluster_np_write_def k by simp
  qed
  then show "writes (fan_out env (cw_policy w') hosts' nss') = []"
    unfolding assms(4) [symmetric] by (induction nss') (simp_all add: fan_out_def)
  obtain ds where ds: "writes (snd (garbageCollect env (cw_policy w') nss')) = map delete_of ds"
    "set ds = {np \<in> listed_from w'. np_namespace np \<notin> set nss'}"
    using collected_up [OF assms(1)] by blast
  have "set ds = {}" using settled_listed [OF assms(3,2)] by (auto simp: ds(2) assms(4))
  with ds(1) show "writes (snd (garbageCollect env (cw_policy w') nss')) = []" by simp
qed

section \<open>Whose NetworkPolicy it is\<close>

text \<open>Names do not keep the two controllers apart: a namespaced policy called cfqdnnp-X builds a NetworkPolicy
  under the very name the cluster policy X uses in that namespace, so each reconcile of one overwrites the
  other's whenever their addresses differ.\<close>

lemma shared_name:
  assumes "Build fp = Inr np" "om_name (fp_meta fp) = ''cfqdnnp-'' @ om_name (cp_meta cp)"
  shows "np_namespace np = om_namespace (fp_meta fp)"
    "np_name np = np_name (wanted_np cp hosts (om_namespace (fp_meta fp)))"
    "np_namespace (wanted_np cp hosts (om_namespace (fp_meta fp))) = np_namespace np"
  using Build_fields(1,2) [OF assms(1)] by (simp_all add: wanted_simps fan_name_def assms(2))

text \<open>A NetworkPolicy under that name without the label is adopted as it is when its addresses already match:
  the fan-out leaves it without the label, and then no garbage collection ever removes it.\<close>

lemma adopted_unlabelled:
  assumes "cw_nps w ns (fan_name (world_name w)) = Some old" "\<not> carries (world_name w) old"
    and "mset (rule_cidrs (np_egress old)) = mset (map hostCIDR (host_addresses hosts))"
  shows "settled_np w hosts ns = old" "settled w hosts' [] ns (fan_name (world_name w)) = Some old"
proof -
  show "settled_np w hosts ns = old"
    using assms(1,3) by (simp add: settled_np_def wanted_simps)
  show "settled w hosts' [] ns (fan_name (world_name w)) = Some old"
    using assms(1,2) by (simp add: settled_def)
qed

text \<open>The synthetic policy has no UID, and the reference NewControllerRef makes of it names a FQDNNetworkPolicy that
  nobody created.\<close>

lemma fan_out_owner:
  "np_owners (wanted_np cp hosts ns) = [\<lparr>or_api_version = api_version, or_kind = ''FQDNNetworkPolicy'',
     or_name = ''cfqdnnp-'' @ om_name (cp_meta cp), or_uid = [], or_controller = True, or_block_deletion = True\<rparr>]"
proof -
  obtain np where b: "Build (syntheticPolicy cp ns hosts) = Inr np" using Build_Inr by blast
  show ?thesis using Build_fields(5) [OF b] by (simp add: wanted_np_def b controller_ref_def)
qed

text \<open>When the cluster policy itself is gone, its reconcile does nothing, so what it fanned out stays.\<close>

lemma gone_leaves:
  assumes "cv_policy env = NotFound"
  shows "cluster_reconciled env w = w"
  by (simp add: cluster_reconciled_def cluster_Reconcile_def assms)

subsection \<open>Watches\<close>

text \<open>SetupWithManager of the three controllers. An event on an object of an owned kind enqueues, as
  controller-runtime documents, its controller reference when that is of the kind the controller is for;
  the namespace watch enqueues what \<open>nsMapper\<close> lists.\<close>

datatype watch = For string | Owns string | Watches string

definition policy_watches :: "watch list" where
  "policy_watches = [For ''FQDNNetworkPolicy'', Owns ''NetworkPolicy'']"

definition cluster_watches :: "watch list" where
  "cluster_watches = [For ''ClusterFQDNNetworkPolicy'', Watches ''Namespace'']"

definition observation_watches :: "watch list" where
  "observation_watches = [For ''FQDNEgressObservation'']"

definition np_requests :: "watch list \<Rightarrow> network_policy \<Rightarrow> (string \<times> string) list" where
  "np_requests ws np = (if Owns ''NetworkPolicy'' \<in> set ws
     then [(np_namespace np, or_name r). r \<leftarrow> np_owners np, or_controller r \<and> For (or_kind r) \<in> set ws] else [])"

text \<open>A change of the NetworkPolicy of a FQDNNetworkPolicy brings its reconcile at once. A change of one of a
  cluster policy's does not: it brings a reconcile of the namespaced policy of the synthetic name.\<close>

lemma np_change_enqueues:
  "Build fp = Inr np \<Longrightarrow> np_requests policy_watches np = [(om_namespace (fp_meta fp), om_name (fp_meta fp))]"
  "np_requests cluster_watches np' = []"
  "np_requests policy_watches (wanted_np cp hosts ns) = [(ns, ''cfqdnnp-'' @ om_name (cp_meta cp))]"
  by (simp_all add: np_requests_def policy_watches_def cluster_watches_def Build_fields(2,5) controller_ref_def
      fan_out_owner wanted_simps)

section \<open>Properties\<close>

text \<open>C7. A cluster policy touches only its own NetworkPolicies. Whatever calls fail during a reconcile, the
  NetworkPolicies whose content changes or that disappear are of two kinds: in a namespace that matches,
  the one under the name of the policy's fan-out, which never disappears; in a namespace that does not match,
  ones that carried the policy's label, which are deleted and never rewritten. In Audit mode, in a
  freeze and when the namespaces cannot be listed, no NetworkPolicy changes at all. Every NetworkPolicy stays
  under its own namespace and name.\<close>

theorem cluster_foreign_untouched:
  assumes "nps_keyed w" and "cluster_sees env w"
  shows "nps_keyed (cluster_reconciled env w) \<and> world_name (cluster_reconciled env w) = world_name w \<and>
    changed w (cluster_reconciled env w) \<subseteq>
      (if cluster_enforces env w then
         (case matchedNamespaces env (cw_policy w) of
            Inl e \<Rightarrow> {}
          | Inr nss \<Rightarrow>
              {(a, b). a \<in> set nss \<and> b = fan_name (world_name w) \<and> cw_nps (cluster_reconciled env w) a b \<noteq> None} \<union>
              {(a, b). a \<notin> set nss \<and> cw_nps (cluster_reconciled env w) a b = None \<and>
                 (\<exists>np. cw_nps w a b = Some np \<and> carries (world_name w) np)})
       else {})"
proof (cases "cluster_enforces env w \<and> \<not> isl (matchedNamespaces env (cw_policy w))")
  case True
  then obtain nss where "matchedNamespaces env (cw_policy w) = Inr nss"
    by (cases "matchedNamespaces env (cw_policy w)") simp_all
  with True enforce_nps [OF assms _ this] show ?thesis by simp
next
  case False
  then have "\<not> cluster_enforces env w \<or> isl (matchedNamespaces env (cw_policy w))" by blast
  then have "changed w (cluster_reconciled env w) = {}" by (simp add: changed_def idle_nps(1) [OF assms(2)])
  with cluster_reconciled_key [OF assms] show ?thesis by (simp only: empty_subsetI simp_thms)
qed

definition sample_alien :: network_policy where
  "sample_alien = \<lparr>np_name = ''manual'', np_namespace = ''old'', np_labels = [], np_owners = [],
     np_pod_selector = pss_selector sample_selector, np_policy_types = [], np_egress = []\<rparr>"

text \<open>A labelled NetworkPolicy left in a namespace that no longer matches, and one of someone else there.\<close>

definition sample_cluster_world :: cluster_world where
  "sample_cluster_world = \<lparr>cw_policy = sample_cluster_policy PolicyModeEnforce,
     cw_nps = (\<lambda>ns n. if ns = ''old'' \<and> n = ''manual'' then Some sample_alien
       else if ns = ''old'' \<and> n = ''fqdnnp-cfqdnnp-web'' then Some (tagged ''web'' sample_stale) else None),
     cw_shared = pr_shared (wire ''10.0.0.10:53'' None sample_flags)\<rparr>"

text \<open>The API server over a cluster, for a listing of the labelled NetworkPolicies.\<close>

definition cluster_api :: "network_policy list \<Rightarrow> cluster_world \<Rightarrow> wired_env cluster_env" where
  "cluster_api items w = \<lparr>cv_clk = int, cv_envs = (\<lambda>i. sample_call), cv_policy = Found (cw_policy w),
     cv_as_selector = (\<lambda>ls. Inr \<lparr>sel_empty = True, sel_match = (\<lambda>m. True)\<rparr>),
     cv_list_ns = (\<lambda>sel. Inr [sample_namespace ''b'' ''Active'', sample_namespace ''a'' ''Active'']),
     cv_np = (\<lambda>ns n. case cw_nps w ns n of None \<Rightarrow> NotFound | Some np \<Rightarrow> Found np),
     cv_create = (\<lambda>ns. None), cv_update = (\<lambda>ns. None),
     cv_list_np = (\<lambda>k v. Inr items), cv_delete = (\<lambda>ns n. Found ()), cv_status = None\<rparr>"

lemma cluster_api_simps:
  "set items = listed_from w \<Longrightarrow> cluster_up (cluster_api items w) w"
  "matchedNamespaces (cluster_api items w) cp = Inr [''a'', ''b'']"
  by (auto simp: cluster_up_def cluster_sees_def cluster_api_def matchedNamespaces_def sample_namespace_def
      sort_strings_def split: option.split)

lemma sample_cluster_world_simps:
  "nps_keyed sample_cluster_world" "world_name sample_cluster_world = ''web''"
  "listed_from sample_cluster_world = {tagged ''web'' sample_stale}"
proof -
  show "nps_keyed sample_cluster_world"
    by (simp add: nps_keyed_def sample_cluster_world_def sample_alien_def sample_stale_def)
  show n: "world_name sample_cluster_world = ''web''"
    by (simp add: world_name_def sample_cluster_world_def sample_cluster_policy_def sample_meta_def)
  have "\<not> carries ''web'' sample_alien" by (simp add: carries_def sample_alien_def)
  moreover have "carries ''web'' (tagged ''web'' sample_stale)" by (simp add: carries_def)
  ultimately show "listed_from sample_cluster_world = {tagged ''web'' sample_stale}"
    unfolding listed_from_def n
    by (auto simp: sample_cluster_world_def sample_stale_def split: if_splits)
qed

lemma sample_cluster_enforces:
  "cp_spec (cw_policy w) = cp_spec (sample_cluster_policy PolicyModeEnforce) \<Longrightarrow> cluster_enforces env w"
  by (simp add: cluster_enforces_def cluster_frozen_def blockOnDivergence_def sample_cluster_simps)

abbreviation sample_cluster_api :: "wired_env cluster_env" where
  "sample_cluster_api \<equiv> cluster_api [tagged ''web'' sample_stale] sample_cluster_world"

lemma sample_cluster_up: "cluster_up sample_cluster_api sample_cluster_world"
  by (rule cluster_api_simps(1)) (simp add: sample_cluster_world_simps)

lemma cluster_foreign_untouched_witness:
  "cw_nps (cluster_reconciled sample_cluster_api sample_cluster_world) ''old'' ''manual'' = Some sample_alien"
proof -
  have "cluster_sees sample_cluster_api sample_cluster_world" using sample_cluster_up by (simp add: cluster_up_def)
  from cluster_foreign_untouched [OF sample_cluster_world_simps(1) this]
  have "(''old'', ''manual'') \<notin> changed sample_cluster_world (cluster_reconciled sample_cluster_api sample_cluster_world)"
    by (auto simp: cluster_api_simps sample_cluster_world_simps(2) sample_cluster_world_def carries_def
        sample_alien_def split: if_splits)
  then show ?thesis by (simp add: changed_def) (simp add: sample_cluster_world_def)
qed

text \<open>C6. A reconcile brings every namespace to the cluster policy, and a second one leaves it there. When
  no call fails, the policy enforces and is not frozen: every matching namespace has, under the fan-out's
  name, a NetworkPolicy whose CIDRs are exactly the resolved addresses of this cycle, the one that was there
  untouched if it already had them; no NetworkPolicy outside those namespaces carries the label; all the
  others are as they were; the status names the hosts and the namespaces. A later reconcile that finds
  the same namespaces and addresses, in any order, writes only the status.\<close>

theorem cluster_converges:
  assumes "nps_keyed w" and "cluster_up env w" and "cluster_enforces env w"
    and "matchedNamespaces env (cw_policy w) = Inr nss"
    and "cluster_up env2 (cluster_reconciled env w)" and "cluster_enforces env2 (cluster_reconciled env w)"
    and "matchedNamespaces env2 (cw_policy (cluster_reconciled env w)) = Inr nss2" and "set nss2 = set nss"
    and "mset (host_addresses (lp_resolved (cw_loop env2 (cluster_reconciled env w)))) =
      mset (host_addresses (lp_resolved (cw_loop env w)))"
  shows "cw_nps (cluster_reconciled env w) = settled w (lp_resolved (cw_loop env w)) nss \<and>
    {ns \<in> set nss. \<not> (\<exists>np. cw_nps (cluster_reconciled env w) ns (fan_name (world_name w)) = Some np \<and>
       mset (rule_cidrs (np_egress np)) = mset (map hostCIDR (host_addresses (lp_resolved (cw_loop env w)))))} = {} \<and>
    {np \<in> listed_from (cluster_reconciled env w). np_namespace np \<notin> set nss} = {} \<and>
    cst_resolved_hosts (cp_status (cw_policy (cluster_reconciled env w))) = lp_resolved (cw_loop env w) \<and>
    cst_namespaces (cp_status (cw_policy (cluster_reconciled env w))) = nss \<and>
    (\<exists>d. fst (fst (cluster_Reconcile wired_Resolve env (cw_shared w))) = Inr d) \<and>
    (\<exists>cp'. writes (snd (fst (cluster_Reconcile wired_Resolve env2 (cw_shared (cluster_reconciled env w))))) =
       [ApiClusterStatus cp'])"
proof -
  let ?w = "cluster_reconciled env w" and ?hs = "lp_resolved (cw_loop env w)"
  note R = reconciled_settled [OF assms(1-4)]
  have n: "cw_nps ?w = settled w ?hs nss" and nm: "world_name ?w = world_name w" using R by simp_all
  note Q = settled_quiet [OF assms(5) nm n assms(8,9)]
  have found: "cv_policy env2 = Found (cw_policy ?w)" using assms(5) by (simp add: cluster_up_def cluster_sees_def)
  have m: "cs_mode (cp_spec (cw_policy ?w)) \<noteq> PolicyModeAudit"
    and fz: "\<not> cluster_frozen wired_Resolve env2 (cw_shared ?w) (cw_policy ?w)"
    using assms(6) by (simp_all add: cluster_enforces_def)
  have W: "\<exists>cp'. writes (snd (fst (cluster_Reconcile wired_Resolve env2 (cw_shared ?w)))) = [ApiClusterStatus cp']"
    using cluster_enforce_writes [OF found m fz assms(7)] Q by auto
  have a: "\<not> (ns \<in> set nss \<and> \<not> (\<exists>np. cw_nps ?w ns (fan_name (world_name w)) = Some np \<and>
      mset (rule_cidrs (np_egress np)) = mset (map hostCIDR (host_addresses ?hs))))" for ns
    by (simp add: n settled_def settled_cidrs del: mset_map)
  have l: "\<not> (np \<in> listed_from ?w \<and> np_namespace np \<notin> set nss)" for np
    using settled_listed [OF n nm] by blast
  show ?thesis using R W a l by simp
qed

lemma sample_cluster_loop:
  assumes "cp_spec (cw_policy w) = cp_spec (sample_cluster_policy PolicyModeEnforce)"
    and "ct_resolver (cw_shared w) = sample_ns"
  shows "host_addresses (lp_resolved (cw_loop (cluster_api items w') w)) = sample_addresses"
    "lp_resolver (cw_loop (cluster_api items w') w) = sample_ns"
proof -
  let ?pol = "om_name (cp_meta (cw_policy w))"
  obtain res st' where t: "timed_resolve wired_Resolve int sample_call ''a.io'' (start_loop (cw_shared w) []) = (res, st')"
    by (cases "timed_resolve wired_Resolve int sample_call ''a.io'' (start_loop (cw_shared w) [])")
  obtain r where r: "res = Inr r" "host_addresses (lp_resolved (admit_resolution int None ?pol ''a.io'' r st')) = sample_addresses"
    "lp_resolver (admit_resolution int None ?pol ''a.io'' r st') = sample_ns"
    using sample_step [OF t, of ?pol] assms(2) by (auto simp: start_loop_def)
  have "cw_loop (cluster_api items w') w = admit_resolution int None ?pol ''a.io'' r st'"
    using t r(1) by (simp add: cluster_loop_of_def assms(1) sample_cluster_policy_def cluster_api_def cluster_rule_def)
  with r show "host_addresses (lp_resolved (cw_loop (cluster_api items w') w)) = sample_addresses"
    "lp_resolver (cw_loop (cluster_api items w') w) = sample_ns" by simp_all
qed

lemma cluster_reconciled_shared:
  "cv_policy env = Found (cw_policy w) \<Longrightarrow> cw_shared (cluster_reconciled env w) = controller_of (cw_loop env w)"
  by (simp add: cluster_reconciled_eq cluster_Reconcile_def cluster_loop_of_def Let_def)

lemma cluster_converges_witness:
  "\<exists>w env. listed_from w \<noteq> {} \<and> {np \<in> listed_from w. np_namespace np = ''old''} = {} \<and>
     (\<exists>cp'. writes (snd (fst (cluster_Reconcile wired_Resolve env (cw_shared w)))) = [ApiClusterStatus cp'])"
proof -
  let ?start = sample_cluster_world and ?env = sample_cluster_api and ?nss = "[''a'', ''b'']"
  let ?next = "cluster_reconciled ?env ?start" and ?hs = "lp_resolved (cw_loop sample_cluster_api sample_cluster_world)"
  have spec: "cp_spec (cw_policy ?start) = cp_spec (sample_cluster_policy PolicyModeEnforce)"
    by (simp add: sample_cluster_world_def)
  have c0: "ct_resolver (cw_shared ?start) = sample_ns"
    by (simp add: sample_cluster_world_def wire_def select_resolver_def sample_flags_def default_flags_def NewActiveResolver_def)
  have found: "cv_policy ?env = Found (cw_policy ?start)" by (simp add: cluster_api_def)
  note e = sample_cluster_enforces [OF spec] and mn = cluster_api_simps(2)
  note R = reconciled_settled [OF sample_cluster_world_simps(1) sample_cluster_up e mn]
  have spec': "cp_spec (cw_policy ?next) = cp_spec (sample_cluster_policy PolicyModeEnforce)" using R spec by simp
  have c1: "ct_resolver (cw_shared ?next) = sample_ns"
    using sample_cluster_loop(2) [OF spec c0] by (simp add: cluster_reconciled_shared [OF found] controller_of_def)
  have n: "cw_nps ?next = settled ?start ?hs ?nss" and nm: "world_name ?next = world_name ?start" using R by simp_all
  have none: "cw_nps ?start ns k = None" if "ns \<in> set ?nss" for ns k using that by (auto simp: sample_cluster_world_def)
  have T0: "np_namespace np \<in> set ?nss" if "np \<in> listed_from ?next" for np
    using settled_listed [OF n nm] that by blast
  have "np \<in> settled_np ?start ?hs ` set ?nss" if np: "np \<in> listed_from ?next" for np
  proof -
    have l: "np_namespace np \<in> set ?nss"
      using T0 np by blast
    have "settled ?start ?hs ?nss (np_namespace np) (np_name np) = Some np"
      using np by (simp only: listed_from_def n mem_Collect_eq)
    then have "np = settled_np ?start ?hs (np_namespace np)"
      using none [OF l] l unfolding settled_def by (simp split: if_splits)
    with l show ?thesis by blast
  qed
  then have sub: "listed_from ?next \<subseteq> settled_np ?start ?hs ` set ?nss" by (rule subsetI)
  obtain items where items: "set items = listed_from ?next"
    using finite_list [OF finite_subset [OF sub finite_imageI [OF finite_set]]] by (elim exE)
  have a: "host_addresses (lp_resolved (cw_loop (cluster_api items ?next) ?next)) = host_addresses ?hs"
    using sample_cluster_loop(1) [OF spec' c1] sample_cluster_loop(1) [OF spec c0] by simp
  note T = cluster_converges [OF sample_cluster_world_simps(1) sample_cluster_up e mn
    cluster_api_simps(1) [OF items] sample_cluster_enforces [OF spec'] mn refl arg_cong [OF a]]
  have s: "settled_np ?start ?hs ''a'' = wanted_np (cw_policy ?start) ?hs ''a''"
    using none [of "''a''"] by (simp add: settled_np_def)
  have "settled_np ?start ?hs ''a'' \<in> listed_from ?next"
    unfolding s using wanted_simps [of "cw_policy ?start" ?hs "''a''", folded world_name_def]
    by (simp add: listed_from_def nm n settled_def s)
  then have ne: "listed_from ?next \<noteq> {}" by (simp only: ex_in_conv [symmetric]) (rule exI)
  have old: "{np \<in> listed_from ?next. np_namespace np = ''old''} = {}" using T0 by fastforce
  from ne old T [THEN conjunct2, THEN conjunct2, THEN conjunct2, THEN conjunct2, THEN conjunct2, THEN conjunct2]
  show ?thesis by (intro exI [of _ ?next] exI [of _ "cluster_api items ?next"] conjI)
qed

end
