(* ===== verification/ClusterReach.thy ===== *)
theory ClusterReach
  imports ClusterWorld
begin

text \<open>
  The cluster of ClusterWorld over time. A step is a reconcile of the cluster policy (whatever fails, whichever
  namespaces match), an edit of it that keeps its security settings, a DNS query through the proxy, a restart of the
  controller, or whatever someone else does to NetworkPolicies that are not under the fan-out's name, and
  their removal of ones that are.
\<close>

section \<open>Reachable clusters\<close>

inductive cluster_reachable :: "security_spec option \<Rightarrow> cluster_world \<Rightarrow> bool" for sec where
  start: "cs_security (cp_spec cp) = sec \<Longrightarrow> cst_resolved_hosts (cp_status cp) = [] \<Longrightarrow>
    (\<And>ns. nps ns (fan_name (om_name (cp_meta cp))) = None) \<Longrightarrow>
    nps_keyed \<lparr>cw_policy = cp, cw_nps = nps, cw_shared = pr_shared (wire system err flags)\<rparr> \<Longrightarrow>
    cluster_reachable sec \<lparr>cw_policy = cp, cw_nps = nps, cw_shared = pr_shared (wire system err flags)\<rparr>"
| reconcile: "cluster_reachable sec w \<Longrightarrow> cluster_sees env w \<Longrightarrow> \<forall>i. wired_env_ok (cv_envs env i) \<Longrightarrow>
    cluster_reachable sec (cluster_reconciled env w)"
| edit: "cluster_reachable sec w \<Longrightarrow> cs_security (cp_spec cp) = sec \<Longrightarrow> cp_status cp = cp_status (cw_policy w) \<Longrightarrow>
    om_name (cp_meta cp) = world_name w \<Longrightarrow> cluster_reachable sec (w\<lparr>cw_policy := cp\<rparr>)"
| query: "cluster_reachable sec w \<Longrightarrow> range_order ord \<Longrightarrow> cluster_reachable sec
    (w\<lparr>cw_shared := (cw_shared w)\<lparr>ct_resolver := proxied net clk ord exchanged questions (ct_resolver (cw_shared w))\<rparr>\<rparr>)"
| restart: "cluster_reachable sec w \<Longrightarrow> cluster_reachable sec (w\<lparr>cw_shared := pr_shared (wire system err flags)\<rparr>)"
| foreign: "cluster_reachable sec w \<Longrightarrow> np_name np \<noteq> fan_name (world_name w) \<Longrightarrow>
    cluster_reachable sec (put_np (np_namespace np) (np_name np) (Some np) w)"
| removed: "cluster_reachable sec w \<Longrightarrow> cluster_reachable sec (put_np ns n None w)"

section \<open>What is kept\<close>

definition cluster_ok :: "security_spec option \<Rightarrow> cluster_world \<Rightarrow> bool" where
  "cluster_ok sec w \<longleftrightarrow> cs_security (cp_spec (cw_policy w)) = sec \<and> wired_inv (ct_resolver (cw_shared w)) \<and>
     nps_keyed w \<and> list_all (host_ok sec) (cst_resolved_hosts (cp_status (cw_policy w))) \<and>
     (\<forall>ns np. cw_nps w ns (fan_name (world_name w)) = Some np \<longrightarrow> np_safe sec np)"

context resolver begin

lemma cluster_rule_hosts_ok:
  assumes "env_ok e" "no_consensus (cs_security (cp_spec cp))"
    and "list_all (host_ok (cs_security (cp_spec cp))) (cst_resolved_hosts (cp_status cp))"
    and "loop_hosts_ok (cs_security (cp_spec cp)) st"
  shows "loop_hosts_ok (cs_security (cp_spec cp)) (cluster_rule resolve clk e cp rule st)"
proof -
  let ?h = "fr_match rule" and ?sec = "cs_security (cp_spec cp)"
  obtain res st' where t: "timed_resolve resolve clk e ?h st = (res, st')"
    by (cases "timed_resolve resolve clk e ?h st")
  have st': "loop_hosts_ok ?sec st'" by (rule timed_hosts_ok(1) [OF assms(1,4) t])
  show ?thesis
  proof (cases res)
    case (Inl err)
    have "list_all (host_ok ?sec)
        (case findPreviousCluster (cst_resolved_hosts (cp_status cp)) ?h of None \<Rightarrow> [] | Some x \<Rightarrow> [x])"
      using assms(3) findPreviousCluster_Some by (auto simp: list_all_iff split: option.split)
    with st' t Inl show ?thesis by (simp add: cluster_rule_def loop_hosts_ok_def retain_cluster_simps(1,5))
  next
    case (Inr r)
    have "loop_hosts_ok ?sec (admit_resolution clk ?sec (om_name (cp_meta cp)) ?h r st')"
      by (rule admit_hosts_ok [OF assms(2) timed_hosts_ok(2) [OF assms(1,4) t Inr] st'])
    with t Inr show ?thesis by (simp add: cluster_rule_def)
  qed
qed

lemma cluster_loop_hosts_ok:
  assumes "\<forall>i. env_ok (cv_envs env i)" "no_consensus (cs_security (cp_spec cp))"
    and "list_all (host_ok (cs_security (cp_spec cp))) (cst_resolved_hosts (cp_status cp))" "inv (ct_resolver c)"
  shows "loop_hosts_ok (cs_security (cp_spec cp)) (cluster_loop_of resolve env c cp)"
  unfolding cluster_loop_of_def
  using assms by (intro cluster_rules_keep [where P = "loop_hosts_ok (cs_security (cp_spec cp))"] cluster_rule_hosts_ok)
    (simp_all add: loop_hosts_ok_def start_loop_def)

end

subsection \<open>Writes\<close>

text \<open>No write of the log puts a NetworkPolicy that opens a blocked address, and none is a status.\<close>

definition log_safe :: "security_spec option \<Rightarrow> effect list \<Rightarrow> bool" where
  "log_safe sec log \<longleftrightarrow> list_all (\<lambda>e. case e of ApiCreate p \<Rightarrow> np_safe sec p | ApiUpdate p \<Rightarrow> np_safe sec p
     | ApiClusterStatus cp \<Rightarrow> False | _ \<Rightarrow> True) log"

lemma log_safe_simps:
  "log_safe sec []" "log_safe sec (a @ b) \<longleftrightarrow> log_safe sec a \<and> log_safe sec b" "log_safe sec (map delete_of ds)"
  by (simp_all add: log_safe_def) (induction ds; simp add: delete_of_def)

lemma log_safe_effect:
  assumes "log_safe sec log"
  shows "(cw_nps (apply_cluster env log v) a b = Some np \<longrightarrow> cw_nps v a b = Some np \<or> np_safe sec np) \<and>
    cw_policy (apply_cluster env log v) = cw_policy v"
  using assms
proof (induction log arbitrary: v)
  case (Cons e log)
  then have e: "(cw_nps (apply_cluster_effect env e v) a b = Some np \<longrightarrow> cw_nps v a b = Some np \<or> np_safe sec np) \<and>
      cw_policy (apply_cluster_effect env e v) = cw_policy v"
    by (cases e) (auto simp: log_safe_def split: api_get.splits if_splits)
  have "log_safe sec log" using Cons.prems by (simp add: log_safe_def)
  from Cons.IH [OF this, of "apply_cluster_effect env e v"] e show ?case
    unfolding apply_cluster_simps(2) by metis
qed simp

lemma tagged_safe: "np_safe sec (tagged n np) = np_safe sec np"
  by (simp add: np_safe_def egress_allows_def tagged_def)

lemma sync_safe:
  assumes "list_all (host_ok sec) hosts"
  shows "log_safe sec (writes (sync_namespace env cp hosts ns))"
proof -
  obtain np where b: "Build (syntheticPolicy cp ns hosts) = Inr np" using Build_Inr by blast
  have "np_safe sec np" by (rule built_np_safe [OF _ b]) (simp add: assms)
  then show ?thesis
    by (simp add: sync_namespace_writes [OF b] cluster_np_write_def log_safe_def respecced_safe tagged_safe split: api_get.split)
qed

lemma fan_out_safe:
  assumes "list_all (host_ok sec) hosts"
  shows "log_safe sec (writes (fan_out env cp hosts nss))"
  by (induction nss) (simp_all add: sync_safe [OF assms] fan_out_def log_safe_simps)

text \<open>Every reconcile writes safe NetworkPolicies and deletions, then at most one status.\<close>

lemma cluster_reconcile_writes:
  assumes "cluster_sees env w" "list_all (host_ok sec) (lp_resolved (cw_loop env w))"
  shows "\<exists>log sts cp'. writes (snd (fst (cluster_Reconcile wired_Resolve env (cw_shared w)))) = log @ sts \<and>
    log_safe sec log \<and> (sts = [] \<or> sts = [ApiClusterStatus cp']) \<and>
    cst_resolved_hosts (cp_status cp') = lp_resolved (cw_loop env w)"
proof -
  let ?cp = "cw_policy w" and ?W = "writes (snd (fst (cluster_Reconcile wired_Resolve env (cw_shared w))))"
  have found: "cv_policy env = Found ?cp" using assms(1) by (simp add: cluster_sees_def)
  note nil = log_safe_simps(1) [of sec]
  obtain d :: cluster_policy where d: "cst_resolved_hosts (cp_status d) = lp_resolved (cw_loop env w)"
    by (metis cluster_status_simps(3))
  show ?thesis
  proof (cases "cluster_enforces env w")
    case True
    then have m: "cs_mode (cp_spec ?cp) \<noteq> PolicyModeAudit" and fz: "\<not> cluster_frozen wired_Resolve env (cw_shared w) ?cp"
      by (simp_all add: cluster_enforces_def)
    show ?thesis
    proof (cases "matchedNamespaces env ?cp")
      case (Inl e)
      then have "?W = []" using cluster_unlisted_writes [OF found] by blast
      with nil d show ?thesis by (intro exI [of _ "[]"] exI [of _ d]) simp
    next
      case (Inr nss)
      obtain cp' where W: "?W = writes (fan_out env ?cp (lp_resolved (cw_loop env w)) nss) @
          writes (snd (garbageCollect env ?cp nss)) @ [ApiClusterStatus cp']"
        and H: "cst_resolved_hosts (cp_status cp') = lp_resolved (cw_loop env w)"
        using cluster_enforce_writes [OF found m fz Inr] by blast
      obtain ds where ds: "writes (snd (garbageCollect env ?cp nss)) = map delete_of ds"
        using collected [OF assms(1)] by blast
      have g: "log_safe sec (writes (fan_out env ?cp (lp_resolved (cw_loop env w)) nss) @ map delete_of ds)"
        using fan_out_safe [OF assms(2), of env ?cp nss] by (simp add: log_safe_simps)
      show ?thesis
        by (intro exI [of _ "writes (fan_out env ?cp (lp_resolved (cw_loop env w)) nss) @ map delete_of ds"]
            exI [of _ "[ApiClusterStatus cp']"] exI [of _ cp'] conjI g H) (simp_all add: W ds)
    qed
  next
    case False
    then have i: "cs_mode (cp_spec ?cp) = PolicyModeAudit \<or> cluster_frozen wired_Resolve env (cw_shared w) ?cp"
      by (auto simp: cluster_enforces_def)
    show ?thesis
    proof (cases "matchedNamespaces env ?cp")
      case (Inl e)
      then have "?W = []" using cluster_unlisted_writes [OF found] by blast
      with nil d show ?thesis by (intro exI [of _ "[]"] exI [of _ d]) simp
    next
      case (Inr nss)
      with cluster_no_fan_out [OF found i] obtain cp' where "?W = [ApiClusterStatus cp']"
        "cst_resolved_hosts (cp_status cp') = lp_resolved (cw_loop env w)" by auto
      with nil show ?thesis by (intro exI [of _ "[]"] exI [of _ "[ApiClusterStatus cp']"] exI [of _ cp']) simp
    qed
  qed
qed

lemma cluster_reconciled_ok:
  assumes "cluster_ok sec w" "no_consensus sec" "cluster_sees env w" "\<forall>i. wired_env_ok (cv_envs env i)"
  shows "cluster_ok sec (cluster_reconciled env w)"
proof -
  let ?cp = "cw_policy w" and ?next = "cluster_reconciled env w" and ?n = "fan_name (world_name w)"
  have sec: "cs_security (cp_spec ?cp) = sec" and inv: "wired_inv (ct_resolver (cw_shared w))" and key: "nps_keyed w"
    and hosts: "list_all (host_ok sec) (cst_resolved_hosts (cp_status ?cp))"
    and safe: "cw_nps w ns ?n = Some np \<Longrightarrow> np_safe sec np" for ns np
    using assms(1) by (simp_all add: cluster_ok_def)
  have found: "cv_policy env = Found ?cp" using assms(3) by (simp add: cluster_sees_def)
  have st: "wired_inv (lp_resolver (cw_loop env w))" "list_all (host_ok sec) (lp_resolved (cw_loop env w))"
    using wired.cluster_loop_hosts_ok [of env ?cp "cw_shared w"] assms(2,4) inv hosts
    by (simp_all add: sec wired.loop_hosts_ok_def)
  obtain log sts cp' where W: "writes (snd (fst (cluster_Reconcile wired_Resolve env (cw_shared w)))) = log @ sts"
    and L: "log_safe sec log" and S: "sts = [] \<or> sts = [ApiClusterStatus cp']"
    and H: "cst_resolved_hosts (cp_status cp') = lp_resolved (cw_loop env w)"
    using cluster_reconcile_writes [OF assms(3) st(2)] by blast
  let ?v = "apply_cluster env log w"
  note E = log_safe_effect [OF L, of env w]
  have n: "cw_nps ?next = cw_nps ?v"
    using status_only(1) [OF S, of env ?v] by (simp add: cluster_reconciled_eq W)
  have p: "cw_policy ?next = ?cp \<or> cw_policy ?next = ?cp\<lparr>cp_status := cp_status cp'\<rparr>"
    using S E by (auto simp: cluster_reconciled_eq W)
  have new: "np_safe sec np" if "cw_nps ?next ns ?n = Some np" for ns np
    using E [of ns ?n np] that safe [of ns np] unfolding n by blast
  have r: "wired_inv (ct_resolver (cw_shared ?next))"
    using st(1) by (simp add: cluster_reconciled_shared [OF found] controller_of_def)
  have h: "list_all (host_ok sec) (cst_resolved_hosts (cp_status (cw_policy ?next)))"
    "cs_security (cp_spec (cw_policy ?next)) = sec"
    using p hosts st(2) H sec by auto
  show ?thesis
    using cluster_reconciled_key [OF key assms(3)] new r h by (simp add: cluster_ok_def)
qed

lemma cluster_reachable_ok: "cluster_reachable sec w \<Longrightarrow> no_consensus sec \<Longrightarrow> cluster_ok sec w"
proof (induction rule: cluster_reachable.induct)
  case (start cp nps system err flags)
  then show ?case by (simp add: cluster_ok_def wire_def wired_start world_name_def)
next
  case (reconcile w env)
  then show ?case using cluster_reconciled_ok by blast
next
  case (edit w cp)
  then have "world_name (w\<lparr>cw_policy := cp\<rparr>) = world_name w" by (simp add: world_name_def)
  with edit show ?case by (simp add: cluster_ok_def nps_keyed_def)
next
  case (query w ord net clk exchanged questions)
  then show ?case using proxied_inv by (simp add: cluster_ok_def nps_keyed_def world_name_def)
next
  case (restart w system err flags)
  then show ?case by (simp add: cluster_ok_def wire_def wired_start nps_keyed_def world_name_def)
next
  case (foreign w np)
  then show ?case by (auto simp: cluster_ok_def nps_keyed_def world_name_def)
next
  case (removed w ns n)
  then show ?case by (auto simp: cluster_ok_def nps_keyed_def world_name_def)
qed

section \<open>Properties\<close>

text \<open>C5. No reachable fan-out opens a blocked address. Start the controller on a cluster policy without
  resolved hosts whose NetworkPolicies do not exist yet, and let reconciles (with any DNS answers, matching
  namespaces and API failures), edits that keep the security settings, proxied queries, restarts, removals of
  NetworkPolicies and anything that others do under other names follow in any order: every address in the status
  passes the block filter, and in no namespace does the policy's NetworkPolicy admit a loopback, private or
  link-local address that the settings block, except on the DNS port. (The settings must not ask for
  resolver agreement.)\<close>

theorem cluster_no_blocked_egress:
  assumes "cluster_reachable sec w" and "no_consensus sec"
  shows "{s. \<exists>h \<in> set (cst_resolved_hosts (cp_status (cw_policy w))). s \<in> set (rh_ips h) \<and> block_field sec s \<noteq> None} = {} \<and>
    {(ns, np, x, proto, q). cw_nps w ns (fan_name (world_name w)) = Some np \<and> egress_allows np x proto q \<and>
       blocked_addr sec x \<and> \<not> is_dns proto q} = {}"
proof -
  have ok: "cluster_ok sec w" by (rule cluster_reachable_ok [OF assms])
  have np: "is_dns proto q \<or> \<not> blocked_addr sec x"
    if "cw_nps w ns (fan_name (world_name w)) = Some np" "egress_allows np x proto q" for ns np x proto q
    using ok that unfolding cluster_ok_def np_safe_def by blast
  have "block_field sec s = None" if "h \<in> set (cst_resolved_hosts (cp_status (cw_policy w)))" "s \<in> set (rh_ips h)" for h s
    using ok that by (simp add: cluster_ok_def host_ok_def list_all_iff)
  with np show ?thesis by fastforce
qed

lemma cluster_no_blocked_egress_witness:
  "\<exists>np. cw_nps (cluster_reconciled (cluster_api [] (sample_cluster_world\<lparr>cw_nps := (\<lambda>ns n. None)\<rparr>))
      (sample_cluster_world\<lparr>cw_nps := (\<lambda>ns n. None)\<rparr>)) ''a'' (fan_name ''web'') = Some np \<and>
    \<not> egress_allows np (ip_of_v4 0x0a000001) ''TCP'' 443"
proof -
  let ?start = "sample_cluster_world\<lparr>cw_nps := (\<lambda>ns n. None)\<rparr>"
  let ?env = "cluster_api [] ?start"
  let ?next = "cluster_reconciled ?env ?start"
  have s: "?start = \<lparr>cw_policy = sample_cluster_policy PolicyModeEnforce, cw_nps = (\<lambda>ns n. None),
      cw_shared = pr_shared (wire ''10.0.0.10:53'' None sample_flags)\<rparr>"
    by (simp add: sample_cluster_world_def)
  have k: "nps_keyed ?start" and l: "set [] = listed_from ?start" by (simp_all add: nps_keyed_def listed_from_def)
  have nm: "world_name ?start = ''web''" using sample_cluster_world_simps(2) by (simp add: world_name_def)
  have r: "cluster_reachable None ?start" unfolding s
    by (rule cluster_reachable.start) (use k s in \<open>simp_all add: sample_cluster_policy_def\<close>)
  have up: "cluster_up ?env ?start" by (rule cluster_api_simps(1) [OF l])
  have env: "\<forall>i. wired_env_ok (cv_envs ?env i)" by (simp add: cluster_api_def wired_env_ok_def sample_env_ok)
  have "cluster_sees ?env ?start" using up by (simp add: cluster_up_def)
  then have next_reachable: "cluster_reachable None ?next" using r env by (intro cluster_reachable.reconcile)
  have e: "cluster_enforces ?env ?start" by (rule sample_cluster_enforces) (simp add: s)
  note R = reconciled_settled [OF k up e cluster_api_simps(2)]
  have n: "world_name ?next = ''web''" using R nm by simp
  obtain np where np: "cw_nps ?next ''a'' (fan_name ''web'') = Some np"
    using R by (simp add: settled_def nm)
  have "blocked_addr None (ip_of_v4 0x0a000001)" by code_simp
  with cluster_no_blocked_egress [OF next_reachable, unfolded n, THEN conjunct2] np show ?thesis
    by (fastforce simp: no_consensus_def is_dns_def)
qed

end
