(* ===== verification/Metrics.thy ===== *)
theory Metrics
  imports Reconcile ClusterReconcile
begin

text \<open>
  internal/metrics/metrics.go: the collectors, in the order of their declarations, and their registration.
  Bucket bounds are in milliseconds; prometheus.DefBuckets is a constant of the client library, so it is a
  constructor. Registering panics on a duplicate name, and using a collector panics on a wrong number of
  label values: the logs of both policy controllers are checked against the declarations.
\<close>

section \<open>Collectors\<close>

datatype metric_kind = Counter | Gauge | Histogram
datatype metric_buckets = NoBuckets | Buckets "int list" | DefBuckets

record collector =
  md_kind :: metric_kind
  md_name :: string
  md_help :: string
  md_buckets :: metric_buckets
  md_labels :: "string list"

definition DNSLookupDuration :: collector where
  "DNSLookupDuration = \<lparr>md_kind = Histogram, md_name = ''fqdn_dns_lookup_duration_seconds'',
     md_help = ''Latency of DNS lookups by resolver type and domain.'',
     md_buckets = Buckets [1, 5, 10, 25, 50, 100, 250, 500, 1000, 2500], md_labels = [''domain'', ''resolver'']\<rparr>"

definition DNSLookupFailures :: collector where
  "DNSLookupFailures = \<lparr>md_kind = Counter, md_name = ''fqdn_dns_lookup_failures_total'',
     md_help = (''Total DNS lookup failures partitioned by domain and error type '' @
     ''(nxdomain, timeout, servfail, other).''),
     md_buckets = NoBuckets, md_labels = [''domain'', ''error_type'']\<rparr>"

definition DNSCacheHits :: collector where
  "DNSCacheHits = \<lparr>md_kind = Counter, md_name = ''fqdn_dns_cache_hits_total'',
     md_help = (''Total DNS resolution requests served from the snoop IP cache without '' @
     ''a network round-trip.''),
     md_buckets = NoBuckets, md_labels = [''domain'']\<rparr>"

definition SnoopObservations :: collector where
  "SnoopObservations = \<lparr>md_kind = Counter, md_name = ''fqdn_dns_snoop_observations_total'',
     md_help = (''Total DNS responses intercepted by the SnoopResolver proxy, '' @
     ''partitioned by query type (A, AAAA).''),
     md_buckets = NoBuckets, md_labels = [''qtype'']\<rparr>"

definition TTLExpiryLag :: collector where
  "TTLExpiryLag = \<lparr>md_kind = Histogram, md_name = ''fqdn_ttl_expiry_lag_seconds'',
     md_help = (''How many seconds after TTL expiry the reconciler re-resolved a '' @
     ''domain. High values indicate scheduling latency.''),
     md_buckets = Buckets [0, 1000, 5000, 10000, 30000, 60000, 120000, 300000], md_labels = [''domain'']\<rparr>"

definition WildcardExpansions :: collector where
  "WildcardExpansions = \<lparr>md_kind = Counter, md_name = ''fqdn_wildcard_expansions_total'',
     md_help = (''Wildcard FQDN expansions attempted, partitioned by outcome (success, '' @
     ''partial, failed).''),
     md_buckets = NoBuckets, md_labels = [''outcome'']\<rparr>"

definition ResolvedIPsCount :: collector where
  "ResolvedIPsCount = \<lparr>md_kind = Gauge, md_name = ''fqdn_resolved_ips_count'',
     md_help = (''Current number of IPs resolved per domain (gauge; drops when IPs '' @
     ''expire).''),
     md_buckets = NoBuckets, md_labels = [''domain'']\<rparr>"

definition IPChangesTotal :: collector where
  "IPChangesTotal = \<lparr>md_kind = Counter, md_name = ''fqdn_ip_changes_total'',
     md_help = (''Number of times the resolved IP set for a domain changed, triggering '' @
     ''a NetworkPolicy update.''),
     md_buckets = NoBuckets, md_labels = [''domain'']\<rparr>"

definition NetworkPolicySyncDuration :: collector where
  "NetworkPolicySyncDuration = \<lparr>md_kind = Histogram, md_name = ''fqdn_networkpolicy_sync_duration_seconds'',
     md_help = (''Time taken to apply (create or update) a NetworkPolicy to the '' @
     ''Kubernetes API server.''),
     md_buckets = DefBuckets, md_labels = [''operation'']\<rparr>"

definition NetworkPolicySyncErrors :: collector where
  "NetworkPolicySyncErrors = \<lparr>md_kind = Counter, md_name = ''fqdn_networkpolicy_sync_errors_total'',
     md_help = ''Total NetworkPolicy sync failures partitioned by error type.'',
     md_buckets = NoBuckets, md_labels = [''error_type'']\<rparr>"

definition ManagedPolicies :: collector where
  "ManagedPolicies = \<lparr>md_kind = Gauge, md_name = ''fqdn_managed_policies_total'',
     md_help = ''Number of FQDNNetworkPolicy objects currently being reconciled.'',
     md_buckets = NoBuckets, md_labels = []\<rparr>"

definition ClusterManagedNamespaces :: collector where
  "ClusterManagedNamespaces = \<lparr>md_kind = Gauge, md_name = ''fqdn_cluster_managed_namespaces_total'',
     md_help = (''Number of namespaces currently receiving NetworkPolicies from '' @
     ''ClusterFQDNNetworkPolicies.''),
     md_buckets = NoBuckets, md_labels = []\<rparr>"

definition ReconcileDuration :: collector where
  "ReconcileDuration = \<lparr>md_kind = Histogram, md_name = ''fqdn_reconcile_duration_seconds'',
     md_help = ''End-to-end time for one reconcile loop (DNS + NetworkPolicy sync).'',
     md_buckets = DefBuckets, md_labels = [''controller'']\<rparr>"

definition LeaderTransitions :: collector where
  "LeaderTransitions = \<lparr>md_kind = Counter, md_name = ''fqdn_leader_transitions_total'',
     md_help = (''Number of leader election transitions this instance has observed '' @
     ''(both gained and lost).''),
     md_buckets = NoBuckets, md_labels = []\<rparr>"

definition SnoopCacheSize :: collector where
  "SnoopCacheSize = \<lparr>md_kind = Gauge, md_name = ''fqdn_snoop_cache_size'',
     md_help = ''Number of active hostname entries in the SnoopResolver IP cache.'',
     md_buckets = NoBuckets, md_labels = []\<rparr>"

definition ASNChangeTotal :: collector where
  "ASNChangeTotal = \<lparr>md_kind = Counter, md_name = ''fqdnnp_asn_change_total'',
     md_help = (''Number of times a resolved IP'' @ [CHR 0x27] @ ''s ASN/org changed between enrichment '' @
     ''cycles.''),
     md_buckets = NoBuckets, md_labels = [''hostname'', ''previous_asn'', ''current_asn'']\<rparr>"

definition ResolverDivergenceTotal :: collector where
  "ResolverDivergenceTotal = \<lparr>md_kind = Counter, md_name = ''fqdnnp_resolver_divergence_total'',
     md_help = (''Number of times a resolved hostname showed resolver disagreement '' @
     ''(ResolverDivergence > 0) during a reconcile.''),
     md_buckets = NoBuckets, md_labels = [''hostname'', ''policy'']\<rparr>"

definition UnpoliciedDomainTotal :: collector where
  "UnpoliciedDomainTotal = \<lparr>md_kind = Counter, md_name = ''fqdnnp_unpolicied_domain_total'',
     md_help = (''Number of times a newly-observed hostname was found uncovered by any '' @
     ''FQDNNetworkPolicy in its namespace.''),
     md_buckets = NoBuckets, md_labels = [''namespace'', ''domain'']\<rparr>"

section \<open>Registration\<close>

definition registered :: "collector list" where
  "registered = [DNSLookupDuration, DNSLookupFailures, DNSCacheHits, SnoopObservations,
     TTLExpiryLag, WildcardExpansions, ResolvedIPsCount, IPChangesTotal,
     NetworkPolicySyncDuration, NetworkPolicySyncErrors, ManagedPolicies, ClusterManagedNamespaces,
     ReconcileDuration, LeaderTransitions, SnoopCacheSize, ASNChangeTotal,
     ResolverDivergenceTotal, UnpoliciedDomainTotal]"

text \<open>What the client library asks of a collector: valid names, distinct labels, rising buckets.\<close>

definition name_char :: "char \<Rightarrow> bool" where
  "name_char c \<longleftrightarrow> (let n = (of_char c :: nat) in
     (97 \<le> n \<and> n \<le> 122) \<or> (65 \<le> n \<and> n \<le> 90) \<or> (48 \<le> n \<and> n \<le> 57) \<or> c = CHR ''_'')"

definition name_ok :: "string \<Rightarrow> bool" where
  "name_ok s \<longleftrightarrow> s \<noteq> [] \<and> list_all name_char s \<and> \<not> (let n = (of_char (hd s) :: nat) in 48 \<le> n \<and> n \<le> 57)"

definition buckets_ok :: "metric_buckets \<Rightarrow> bool" where
  "buckets_ok b = (case b of Buckets bs \<Rightarrow> sorted_wrt (<) bs | _ \<Rightarrow> True)"

definition collector_ok :: "collector \<Rightarrow> bool" where
  "collector_ok m \<longleftrightarrow> name_ok (md_name m) \<and> list_all name_ok (md_labels m) \<and> distinct (md_labels m) \<and>
     buckets_ok (md_buckets m) \<and> (md_kind m = Histogram \<longrightarrow> ''le'' \<notin> set (md_labels m))"

section \<open>Uses\<close>

text \<open>A collector of one of these kinds with this many labels is registered under the name.\<close>

definition declared :: "string \<Rightarrow> metric_kind list \<Rightarrow> nat \<Rightarrow> bool" where
  "declared n kinds k \<longleftrightarrow> (case find (\<lambda>m. md_name m = n) registered of
     None \<Rightarrow> False | Some m \<Rightarrow> md_kind m \<in> set kinds \<and> length (md_labels m) = k)"

fun metric_ok :: "effect \<Rightarrow> bool" where
  "metric_ok (MetInc n ls) \<longleftrightarrow> declared n [Counter, Gauge] (length ls)"
| "metric_ok (MetDec n) \<longleftrightarrow> declared n [Gauge] 0"
| "metric_ok (MetSet n ls v) \<longleftrightarrow> declared n [Gauge] (length ls)"
| "metric_ok (MetObserve n ls d) \<longleftrightarrow> declared n [Histogram] (length ls)"
| "metric_ok e \<longleftrightarrow> True"

fun metric_names :: "effect \<Rightarrow> string list" where
  "metric_names (MetInc n ls) = [n]"
| "metric_names (MetDec n) = [n]"
| "metric_names (MetSet n ls v) = [n]"
| "metric_names (MetObserve n ls d) = [n]"
| "metric_names e = []"

text \<open>The collectors the policy controllers touch.\<close>

definition touched :: "string list" where
  "touched = [''fqdn_dns_lookup_duration_seconds'', ''fqdn_dns_lookup_failures_total'', ''fqdn_resolved_ips_count'',
     ''fqdn_managed_policies_total'', ''fqdn_cluster_managed_namespaces_total'',
     ''fqdnnp_resolver_divergence_total'', ''fqdnnp_unpolicied_domain_total'']"

definition use_ok :: "effect \<Rightarrow> bool" where
  "use_ok e \<longleftrightarrow> metric_ok e \<and> list_all (\<lambda>n. n \<in> set touched) (metric_names e)"

lemma declared_uses:
  "declared ''fqdn_dns_lookup_duration_seconds'' [Histogram] 2"
  "declared ''fqdn_dns_lookup_failures_total'' [Counter, Gauge] 2"
  "declared ''fqdn_resolved_ips_count'' [Gauge] 1"
  "declared ''fqdn_managed_policies_total'' [Counter, Gauge] 0"
  "declared ''fqdn_managed_policies_total'' [Gauge] 0"
  "declared ''fqdn_cluster_managed_namespaces_total'' [Gauge] 0"
  "declared ''fqdnnp_resolver_divergence_total'' [Counter, Gauge] 2"
  "declared ''fqdnnp_unpolicied_domain_total'' [Counter, Gauge] 2"
  by code_simp+

lemma use_ok_events [simp]:
  "use_ok (Ev t r m)" "use_ok (ApiCreate np)" "use_ok (ApiUpdate np)" "use_ok (ApiDelete ns n)"
  "use_ok (ApiStatus fp)" "use_ok (ApiClusterStatus cp)"
  by (simp_all add: use_ok_def)

lemma use_ok_metrics [simp]:
  "use_ok (MetObserve ''fqdn_dns_lookup_duration_seconds'' [a, b] d)"
  "use_ok (MetInc ''fqdn_dns_lookup_failures_total'' [a, b])"
  "use_ok (MetSet ''fqdn_resolved_ips_count'' [a] v)"
  "use_ok (MetInc ''fqdn_managed_policies_total'' [])" "use_ok (MetDec ''fqdn_managed_policies_total'')"
  "use_ok (MetSet ''fqdn_cluster_managed_namespaces_total'' [] v)"
  "use_ok (MetInc ''fqdnnp_resolver_divergence_total'' [a, b])"
  "use_ok (MetInc ''fqdnnp_unpolicied_domain_total'' [a, b])"
  using declared_uses by (simp_all add: use_ok_def touched_def numeral_2_eq_2)

section \<open>The logs\<close>

abbreviation log_ok :: "effect list \<Rightarrow> bool" where
  "log_ok log \<equiv> list_all use_ok log"

lemma log_ok_events [simp]: "log_ok (map (Ev t r) ms)" "log_ok (map (Ev t r \<circ> f) xs)"
  by (simp_all add: list_all_iff)

lemma admit_log_ok: "log_ok (lp_log st) \<Longrightarrow> log_ok (lp_log (admit_resolution clk sec pol h res st))"
  by (auto simp: admit_resolution_def Let_def admit_host_simps split: prod.split)

lemma timed_log_ok:
  assumes "timed_resolve resolve clk env h st = (res, st')" "log_ok (lp_log st)"
  shows "log_ok (lp_log st')"
  using timed_resolve_simps(9) [OF assms(1)] assms(2) by auto

lemma policy_rule_log_ok:
  assumes "log_ok (lp_log st)"
  shows "log_ok (lp_log (policy_rule resolve clk env fp rule st))"
proof -
  obtain res st' where t: "timed_resolve resolve clk env (fr_match rule) st = (res, st')"
    by (cases "timed_resolve resolve clk env (fr_match rule) st")
  show ?thesis
    using assms t timed_log_ok [OF t assms]
    by (cases res) (simp_all add: policy_rule_def retain_simps admit_log_ok)
qed

lemma cluster_rule_log_ok:
  assumes "log_ok (lp_log st)"
  shows "log_ok (lp_log (cluster_rule resolve clk env cp rule st))"
proof -
  obtain res st' where t: "timed_resolve resolve clk env (fr_match rule) st = (res, st')"
    by (cases "timed_resolve resolve clk env (fr_match rule) st")
  show ?thesis
    using t timed_log_ok [OF t assms]
    by (cases res) (simp_all add: cluster_rule_def retain_cluster_simps admit_log_ok)
qed

lemma after_loop_log_ok:
  assumes "after_loop env fp st = (fp3, log)" "log_ok (lp_log st)"
  shows "log_ok log"
  using assms by (auto simp: after_loop_def Let_def list_all_iff split: prod.splits)

lemma apply_log_ok: "log_ok (snd (applyNetworkPolicy env desired))"
  by (simp add: applyNetworkPolicy_def split: api_get.split)

lemma enforce_log_ok:
  assumes "log_ok log"
  shows "log_ok (snd (reconcile_enforce env t fp q es log))"
proof (cases "Build fp")
  case (Inr desired)
  obtain err log2 where a: "applyNetworkPolicy env desired = (err, log2)" by fastforce
  then have "log_ok log2" using apply_log_ok [of env desired] by simp
  with assms Inr a show ?thesis
    by (cases err) (simp_all add: reconcile_enforce_def finish_status_def)
qed (simp add: reconcile_enforce_def assms)

lemma reconcile_log_ok: "log_ok (snd (fst (Reconcile resolve env c)))"
proof (cases "rv_policy env")
  case (Found fp)
  let ?st = "policy_rules resolve (rv_clk env) (rv_envs env) 0 fp (sp_egress (fp_spec fp))
    (start_loop c [MetInc ''fqdn_managed_policies_total'' []])"
  have l: "log_ok (lp_log ?st)"
    by (rule policy_rules_keep [where P = "\<lambda>st. log_ok (lp_log st)"]) (simp_all add: policy_rule_log_ok start_loop_def)
  obtain fp3 log where a: "after_loop env fp ?st = (fp3, log)" by (cases "after_loop env fp ?st")
  have "log_ok log" by (rule after_loop_log_ok [OF a l])
  then show ?thesis
    by (simp add: Reconcile_def Found a Let_def enforce_log_ok reconcile_audit_def reconcile_frozen_def finish_status_def)
qed (simp_all add: Reconcile_def)

lemma sync_log_ok: "log_ok (sync_namespace env cp resolved ns)"
  by (simp add: sync_namespace_def Let_def split: sum.split api_get.split option.split)

lemma gc_log_ok: "log_ok (snd (gc_loop env active nps))"
  by (induction nps) (auto simp: Let_def split: api_get.split prod.split)

lemma cluster_log_ok: "log_ok (snd (fst (cluster_Reconcile resolve env c)))"
proof (cases "cv_policy env")
  case (Found cp)
  let ?st = "cluster_rules resolve (cv_clk env) (cv_envs env) 0 cp (cs_egress (cp_spec cp)) (start_loop c [])"
  have l: "log_ok (lp_log ?st)"
    by (rule cluster_rules_keep [where P = "\<lambda>st. log_ok (lp_log st)"]) (simp_all add: cluster_rule_log_ok start_loop_def)
  have f: "log_ok (fan_out env cp resolved nss)" for resolved nss
    using sync_log_ok [of env cp resolved] by (auto simp: fan_out_def list_all_iff)
  have g: "log_ok (snd (garbageCollect env cp nss))" for nss
    using gc_log_ok [of env nss] by (simp add: garbageCollect_def split: sum.split)
  have u: "log_ok log \<Longrightarrow> log_ok (snd (updateClusterStatus env t cp1 resolved nss es q b log))" for t cp1 resolved nss es q b log
    by (simp add: updateClusterStatus_def Let_def split: option.split)
  show ?thesis
    using l f g
    by (cases "matchedNamespaces env cp") (simp_all add: cluster_Reconcile_def Found cluster_finish_def Let_def u)
qed (simp_all add: cluster_Reconcile_def)

section \<open>Properties\<close>

text \<open>C16. Metrics are used as they are declared. Registration cannot panic: every collector is registered
  once, under its own name, with valid names and labels and rising buckets. Whatever happens in a reconcile
  of either policy controller, each collector it touches is registered, is of the kind the call needs and
  gets as many label values as it has labels; and it touches only seven of the eighteen collectors.\<close>

theorem metrics_used_as_declared:
  "distinct (map md_name registered) \<and> list_all collector_ok registered \<and>
   filter (\<lambda>e. \<not> metric_ok e) (snd (fst (Reconcile resolve env c))) = [] \<and>
   filter (\<lambda>e. \<not> metric_ok e) (snd (fst (cluster_Reconcile resolve cenv cc))) = [] \<and>
   set (concat (map metric_names (snd (fst (Reconcile resolve env c)) @
     snd (fst (cluster_Reconcile resolve cenv cc))))) \<subseteq> set touched"
proof -
  have "distinct (map md_name registered)" "list_all collector_ok registered" by code_simp+
  moreover have "\<And>e. e \<in> set (snd (fst (Reconcile resolve env c))) \<Longrightarrow> use_ok e"
    using reconcile_log_ok [of resolve env c] by (simp add: list_all_iff)
  moreover have "\<And>e. e \<in> set (snd (fst (cluster_Reconcile resolve cenv cc))) \<Longrightarrow> use_ok e"
    using cluster_log_ok [of resolve cenv cc] by (simp add: list_all_iff)
  ultimately show ?thesis by (fastforce simp: filter_empty_conv use_ok_def list_all_iff)
qed

end
