(* ===== verification/WildcardResolver.thy ===== *)
theory WildcardResolver
  imports MultiResolver
begin

text \<open>
  internal/dns/wildcard\_resolver.go: the expansion of *.foo.com over a list of common prefixes and the
  prefixes learned for the domain, each resolved by the multi resolver. The goroutines of one expansion
  share only the multi resolver's cache, and each of them reads and writes the entry of its own hostname
  (the prefixes are distinct), so the model runs them one after another in the order their results
  arrive (\<open>we_arrival\<close>), each in its own environment.
\<close>

section \<open>State\<close>

definition commonPrefixes :: "string list" where
  "commonPrefixes =
     [''api'', ''www'', ''cdn'', ''assets'', ''static'', ''media'', ''app'', ''auth'',
      ''login'', ''account'', ''accounts'', ''admin'', ''dashboard'', ''portal'',
      ''ws'', ''socket'', ''wss'', ''upload'', ''download'', ''images'', ''img'',
      ''data'', ''stream'', ''live'', ''edge'', ''gateway'', ''proxy'',
      ''webhooks'', ''hooks'', ''events'', ''notify'', ''push'', ''feed'',
      ''search'', ''analytics'', ''telemetry'', ''metrics'', ''ops'',
      ''ingest'', ''collector'', ''sink'', ''export'',
      ''us'', ''eu'', ''ap'', ''us-east'', ''us-west'', ''eu-west'', ''ap-east'',
      ''us-east-1'', ''us-west-2'', ''eu-central-1'',
      ''prod'', ''production'', ''staging'', ''sandbox'',
      ''s3'', ''storage'', ''blob'', ''files'', ''content'',
      ''mail'', ''smtp'', ''imap'', ''mx'',
      ''customer'', ''customers'', ''partner'', ''partners'',
      ''developer'', ''dev'', ''developers'', ''docs'']"

record wildcard_resolver =
  wr_base :: multi_resolver
  wr_cache :: ip_cache
  wr_learned :: "(string, string list) gomap"

definition NewWildcardResolver :: "multi_resolver \<Rightarrow> ip_cache option \<Rightarrow> wildcard_resolver" where
  "NewWildcardResolver base snoop_cache = \<lparr>wr_base = base,
     wr_cache = (case snoop_cache of None \<Rightarrow> NewIPCache | Some c \<Rightarrow> c), wr_learned = []\<rparr>"

record wildcard_env =
  we_envs :: "string \<Rightarrow> multi_env"
  we_arrival :: "string list \<Rightarrow> string list"
  we_ord :: "string list \<Rightarrow> string list"

section \<open>Prefixes\<close>

definition learned_prefixes :: "wildcard_resolver \<Rightarrow> string \<Rightarrow> string list" where
  "learned_prefixes w baseDomain = (case map_of (wr_learned w) baseDomain of None \<Rightarrow> [] | Some ps \<Rightarrow> ps)"

definition LearnPrefix :: "string \<Rightarrow> string \<Rightarrow> wildcard_resolver \<Rightarrow> wildcard_resolver" where
  "LearnPrefix baseDomain prefix w =
     (if prefix \<in> set (learned_prefixes w baseDomain) then w
      else w\<lparr>wr_learned := put baseDomain (learned_prefixes w baseDomain @ [prefix]) (wr_learned w)\<rparr>)"

definition allPrefixes :: "wildcard_resolver \<Rightarrow> string \<Rightarrow> string list" where
  "allPrefixes w baseDomain = uniqueStrings (commonPrefixes @ learned_prefixes w baseDomain)"

section \<open>Resolve\<close>

fun resolve_prefixes ::
  "(string \<Rightarrow> multi_env) \<Rightarrow> string list \<Rightarrow> multi_resolver \<Rightarrow> (string + resolution) list \<times> multi_resolver" where
  "resolve_prefixes envs [] m = ([], m)"
| "resolve_prefixes envs (h # hs) m =
     (let (r, m') = multi_Resolve (envs h) m h; (rs, m'') = resolve_prefixes envs hs m' in (r # rs, m''))"

fun wildcard_collect ::
  "(string + resolution) list \<Rightarrow> string list \<times> duration \<Rightarrow> string list \<times> duration" where
  "wildcard_collect [] acc = acc"
| "wildcard_collect (Inl e # rs) acc = wildcard_collect rs acc"
| "wildcard_collect (Inr r # rs) (s, m) =
     wildcard_collect rs (fold add_key (rs_ips r) s, if 0 < rs_ttl r \<and> rs_ttl r < m then rs_ttl r else m)"

definition wildcard_Resolve ::
  "wildcard_env \<Rightarrow> wildcard_resolver \<Rightarrow> string \<Rightarrow> (string + resolution) \<times> wildcard_resolver" where
  "wildcard_Resolve env w hostname =
     (if \<not> has_prefix hostname ''*.'' then
        (let (r, m') = multi_Resolve (we_envs env hostname) (wr_base w) hostname in (r, w\<lparr>wr_base := m'\<rparr>))
      else
        let baseDomain = trim_prefix hostname ''*.'' in
        if baseDomain = [] then (Inl (''invalid wildcard pattern: '' @ quote_str hostname), w)
        else
          let prefixes = allPrefixes w baseDomain;
              (results, m') = resolve_prefixes (we_envs env)
                (map (\<lambda>p. p @ ''.'' @ baseDomain) (we_arrival env prefixes)) (wr_base w);
              (s, minTTL) = wildcard_collect results ([], ttlCeiling);
              w' = w\<lparr>wr_base := m'\<rparr>
          in if s = [] then
               (Inl (''wildcard expansion for '' @ hostname @ '' produced no IPs across '' @
                     itoa (length prefixes) @ '' prefixes''), w')
             else (Inr (empty_resolution\<lparr>rs_hostname := hostname, rs_ips := we_ord env s,
                          rs_ttl := clampTTL minTTL\<rparr>), w'))"

section \<open>The contract\<close>

definition wildcard_env_ok :: "wildcard_env \<Rightarrow> bool" where
  "wildcard_env_ok env \<longleftrightarrow> (\<forall>h. multi_env_ok (we_envs env h)) \<and> range_order (we_arrival env) \<and>
     range_order (we_ord env)"

definition wildcard_inv :: "wildcard_resolver \<Rightarrow> bool" where
  "wildcard_inv w \<longleftrightarrow> multi_inv (wr_base w)"

lemma set_fold_add_key: "set (fold add_key ips s) = set s \<union> set ips"
  by (induction ips arbitrary: s) auto

lemma distinct_fold_add_key: "distinct s \<Longrightarrow> distinct (fold add_key ips s)"
  by (induction ips arbitrary: s) simp_all

lemma wildcard_collect_ips:
  "wildcard_collect rs (s, m) = (s', m') \<Longrightarrow>
   set s' = set s \<union> (\<Union>r \<in> {r. Inr r \<in> set rs}. set (rs_ips r))"
  by (induction rs "(s, m)" arbitrary: s m rule: wildcard_collect.induct) (auto simp: set_fold_add_key)

lemma wildcard_collect_distinct:
  "wildcard_collect rs (s, m) = (s', m') \<Longrightarrow> distinct s \<Longrightarrow> distinct s'"
  by (induction rs "(s, m)" arbitrary: s m rule: wildcard_collect.induct) (auto simp: distinct_fold_add_key)

lemma resolve_prefixes_ok:
  assumes all: "\<forall>h. multi_env_ok (envs h)"
  shows "multi_inv m \<Longrightarrow> multi_inv (snd (resolve_prefixes envs hs m)) \<and>
    list_all2 (\<lambda>h r. case r of Inl x \<Rightarrow> True | Inr rs \<Rightarrow> resolution_ok h rs) hs (fst (resolve_prefixes envs hs m))"
proof (induction hs arbitrary: m)
  case (Cons h hs)
  have e: "multi_env_ok (envs h)" using all by simp
  obtain r m' where r: "multi_Resolve (envs h) m h = (r, m')" by (cases "multi_Resolve (envs h) m h")
  have "multi_inv m'" using multi.keeps [OF e Cons.prems, of h] r by simp
  moreover have "case r of Inl x \<Rightarrow> True | Inr rs \<Rightarrow> resolution_ok h rs"
    using multi.answers [OF e Cons.prems, of h] r by (cases r) auto
  ultimately show ?case
    using Cons.IH [of m'] r by (cases "resolve_prefixes envs hs m'") auto
qed simp

lemma resolve_prefixes_answers:
  assumes "\<forall>h. multi_env_ok (envs h)" "multi_inv m" "Inr r \<in> set (fst (resolve_prefixes envs hs m))"
  shows "\<exists>h \<in> set hs. resolution_ok h r"
proof -
  let ?P = "\<lambda>h r. case r of Inl x \<Rightarrow> True | Inr rs \<Rightarrow> resolution_ok h rs"
  have l: "list_all2 ?P hs (fst (resolve_prefixes envs hs m))"
    using resolve_prefixes_ok [OF assms(1,2)] by blast
  obtain i where i: "i < length (fst (resolve_prefixes envs hs m))" "fst (resolve_prefixes envs hs m) ! i = Inr r"
    using assms(3) by (auto simp: in_set_conv_nth)
  with l have "i < length hs" "?P (hs ! i) (Inr r)" by (auto simp: list_all2_conv_all_nth)
  then show ?thesis by (intro bexI [of _ "hs ! i"]) auto
qed

lemma allPrefixes_facts: "distinct (allPrefixes w b)" "set (allPrefixes w b) = set commonPrefixes \<union> set (learned_prefixes w b)"
  by (simp_all add: allPrefixes_def uniqueStrings_def distinct_unique_from set_unique_from)

text \<open>The results of the expansion of one pattern, in the order they arrive.\<close>

definition expansion :: "wildcard_env \<Rightarrow> wildcard_resolver \<Rightarrow> string \<Rightarrow> (string + resolution) list" where
  "expansion env w base = fst (resolve_prefixes (we_envs env)
     (map (\<lambda>p. p @ ''.'' @ base) (we_arrival env (allPrefixes w base))) (wr_base w))"

lemma wildcard_branches:
  assumes env: "wildcard_env_ok env" and inv: "wildcard_inv w" and b: "base \<noteq> []"
  shows "wildcard_inv (snd (wildcard_Resolve env w (''*.'' @ base)))"
    and "(\<exists>r. fst (wildcard_Resolve env w (''*.'' @ base)) = Inr r) \<longleftrightarrow>
      (\<exists>r. Inr r \<in> set (expansion env w base))"
    and "fst (wildcard_Resolve env w (''*.'' @ base)) = Inr r \<Longrightarrow>
      resolution_ok (''*.'' @ base) r \<and> distinct (rs_ips r) \<and>
      set (rs_ips r) = (\<Union>q \<in> {q. Inr q \<in> set (expansion env w base)}. set (rs_ips q))"
proof -
  let ?hs = "map (\<lambda>p. p @ ''.'' @ base) (we_arrival env (allPrefixes w base))"
  obtain rs m' where R: "resolve_prefixes (we_envs env) ?hs (wr_base w) = (rs, m')"
    by (cases "resolve_prefixes (we_envs env) ?hs (wr_base w)")
  have rs: "expansion env w base = rs" unfolding expansion_def R by simp
  obtain s t where S: "wildcard_collect rs ([], ttlCeiling) = (s, t)" by (cases "wildcard_collect rs ([], ttlCeiling)")
  have e: "\<forall>h. multi_env_ok (we_envs env h)" using env by (simp add: wildcard_env_ok_def)
  have i: "multi_inv (wr_base w)" using inv by (simp add: wildcard_inv_def)
  have ips: "set s = (\<Union>q \<in> {q. Inr q \<in> set rs}. set (rs_ips q))" using wildcard_collect_ips [OF S] by simp
  have each: "rs_ips q \<noteq> [] \<and> ips_ok (rs_ips q)" if "Inr q \<in> set rs" for q
    using resolve_prefixes_answers [OF e i, of q ?hs] that R by (auto simp: resolution_ok_def)
  have W: "wildcard_Resolve env w (''*.'' @ base) =
     (if s = [] then (Inl (''wildcard expansion for '' @ (''*.'' @ base) @ '' produced no IPs across '' @
          itoa (length (allPrefixes w base)) @ '' prefixes''), w\<lparr>wr_base := m'\<rparr>)
      else (Inr (empty_resolution\<lparr>rs_hostname := ''*.'' @ base, rs_ips := we_ord env s,
          rs_ttl := clampTTL t\<rparr>), w\<lparr>wr_base := m'\<rparr>))"
    unfolding wildcard_Resolve_def using b R S
    by (simp only: has_prefix_append trim_prefix_append Let_def) simp
  have "multi_inv m'" using resolve_prefixes_ok [OF e i, of ?hs] R by simp
  then show "wildcard_inv (snd (wildcard_Resolve env w (''*.'' @ base)))"
    unfolding W by (simp add: wildcard_inv_def)
  have ne: "s \<noteq> [] \<longleftrightarrow> (\<exists>r. Inr r \<in> set rs)"
  proof
    assume "s \<noteq> []"
    then obtain x where "x \<in> set s" by (cases s) auto
    then show "\<exists>r. Inr r \<in> set rs" by (auto simp: ips)
  next
    assume "\<exists>r. Inr r \<in> set rs"
    then obtain q where q: "Inr q \<in> set rs" by blast
    with each obtain x where "x \<in> set (rs_ips q)" by (meson last_in_set)
    with q have "x \<in> set s" by (auto simp: ips)
    then show "s \<noteq> []" by auto
  qed
  show "(\<exists>r. fst (wildcard_Resolve env w (''*.'' @ base)) = Inr r) \<longleftrightarrow>
      (\<exists>r. Inr r \<in> set (expansion env w base))"
    unfolding W rs ne [symmetric] by simp
  assume "fst (wildcard_Resolve env w (''*.'' @ base)) = Inr r"
  then have sn: "s \<noteq> []" and r: "r = empty_resolution\<lparr>rs_hostname := ''*.'' @ base, rs_ips := we_ord env s,
      rs_ttl := clampTTL t\<rparr>"
    unfolding W by (auto split: if_splits)
  have o: "range_order (we_ord env)" using env by (simp add: wildcard_env_ok_def)
  have d: "distinct s" using wildcard_collect_distinct [OF S] by simp
  have ok: "ips_ok s" using each by (auto simp: ips_ok_def ips)
  have so: "set (we_ord env s) = set s" by (rule range_order_set [OF o])
  have "ips_ok (we_ord env s)" by (rule ips_ok_subset [OF ok]) (simp add: so)
  moreover have "we_ord env s \<noteq> []" using so sn by auto
  ultimately have "resolution_ok (''*.'' @ base) r"
    using clamp_bounds by (simp add: r empty_resolution_def resolution_ok_def)
  moreover have "distinct (rs_ips r)" using range_order_distinct [OF o d] by (simp add: r empty_resolution_def)
  ultimately show "resolution_ok (''*.'' @ base) r \<and> distinct (rs_ips r) \<and>
      set (rs_ips r) = (\<Union>q \<in> {q. Inr q \<in> set (expansion env w base)}. set (rs_ips q))"
    using so ips by (simp add: r rs empty_resolution_def)
qed

lemma wildcard_law:
  assumes env: "wildcard_env_ok env" and inv: "wildcard_inv w"
  shows "wildcard_inv (snd (wildcard_Resolve env w h))"
    and "fst (wildcard_Resolve env w h) = Inr r \<Longrightarrow> resolution_ok h r"
proof -
  have e: "multi_env_ok (we_envs env h)" using env by (simp add: wildcard_env_ok_def)
  have i: "multi_inv (wr_base w)" using inv by (simp add: wildcard_inv_def)
  consider "\<not> has_prefix h ''*.''" | "h = ''*.''" | base where "h = ''*.'' @ base" "base \<noteq> []"
    by (metis append_Nil2 has_prefix_iff)
  then have "wildcard_inv (snd (wildcard_Resolve env w h)) \<and>
      (fst (wildcard_Resolve env w h) = Inr r \<longrightarrow> resolution_ok h r)"
  proof cases
    case 1
    then show ?thesis
      using multi.keeps [OF e i, of h] multi.answers [OF e i, of h r]
      by (cases "multi_Resolve (we_envs env h) (wr_base w) h") (auto simp: wildcard_Resolve_def wildcard_inv_def)
  next
    case 2
    then show ?thesis using inv by (simp add: wildcard_Resolve_def has_prefix_def trim_prefix_def)
  next
    case 3
    then show ?thesis using wildcard_branches [OF env inv 3(2)] by auto
  qed
  then show "wildcard_inv (snd (wildcard_Resolve env w h))"
    and "fst (wildcard_Resolve env w h) = Inr r \<Longrightarrow> resolution_ok h r" by auto
qed

interpretation wildcard: resolver wildcard_Resolve wildcard_env_ok wildcard_inv
  by unfold_locales (simp_all add: wildcard_law)

section \<open>Properties\<close>

text \<open>C26. Wildcard expansion. A pattern *.base succeeds exactly when one of its prefixes resolves; the
  prefixes asked are the common ones and the learned ones, each once; the answer holds every address of
  every prefix that resolved, once, and nothing else; and a prefix learned with LearnPrefix is asked
  from then on.\<close>

theorem wildcard_expansion_union:
  assumes "wildcard_env_ok env" and "wildcard_inv w" and "base \<noteq> []"
  shows "((\<exists>r. fst (wildcard_Resolve env w (''*.'' @ base)) = Inr r) \<longleftrightarrow>
      (\<exists>r. Inr r \<in> set (expansion env w base))) \<and>
    {r. fst (wildcard_Resolve env w (''*.'' @ base)) = Inr r \<and> \<not> (distinct (rs_ips r) \<and>
      set (rs_ips r) = (\<Union>q \<in> {q. Inr q \<in> set (expansion env w base)}. set (rs_ips q)))} = {} \<and>
    distinct (allPrefixes w base) \<and> set commonPrefixes \<subseteq> set (allPrefixes w base) \<and>
    set (allPrefixes (LearnPrefix base p w) base) = insert p (set (allPrefixes w base))"
  using wildcard_branches [OF assms]
  by (auto simp: allPrefixes_facts LearnPrefix_def learned_prefixes_def)

lemma wildcard_expansion_union_witness:
  "set (allPrefixes (LearnPrefix ''stripe.com'' ''q'' (NewWildcardResolver (NewMultiResolver [] []) None)) ''stripe.com'')
     = insert ''q'' (set (allPrefixes (NewWildcardResolver (NewMultiResolver [] []) None) ''stripe.com''))"
proof -
  have "wildcard_env_ok \<lparr>we_envs = (\<lambda>h. sample_env (sample_net []) 0), we_arrival = rev, we_ord = rev\<rparr>"
    by (simp add: wildcard_env_ok_def sample_env_ok)
  moreover have "wildcard_inv (NewWildcardResolver (NewMultiResolver [] []) None)"
    by (simp add: wildcard_inv_def NewWildcardResolver_def multi_inv_def cache_text_def NewMultiResolver_def
        NewIPCache_def cache_ok_def cache_entries_def ips_ok_def)
  ultimately show ?thesis
    using wildcard_expansion_union [of _ "NewWildcardResolver (NewMultiResolver [] []) None" "''stripe.com''" "''q''"]
    by blast
qed

end
