(* ===== verification/EnrichPool.thy ===== *)
theory EnrichPool
  imports Enrich
begin

text \<open>
  internal/enrich/manager.go: the worker goroutines of an enrichment manager, as a state machine. Each of the
  workers is idle, waits for ipinfo.io, is about to store an answer, or has returned. The events of a run are
  the requests of the controllers, the steps of the workers in any interleaving, and Close; an event that
  cannot happen (a second Close panics) has no next state. Left alone, a worker does what \<open>worker\<close> of the
  theory Enrich does in one step.
\<close>

section \<open>State\<close>

definition enrichWorkers :: nat where
  "enrichWorkers = 4"

type_synonym enrich_request = "string \<times> string"

datatype worker_state =
    Idle
  | Looking enrich_request
  | Storing enrich_request enrich_result "enrich_entry option"
  | Stopped

record enrich_pool =
  pl_manager :: enrich_manager
  pl_workers :: "worker_state list"
  pl_closed :: bool
  pl_changes :: "(string \<times> string \<times> string) list"

definition start_pool :: "ipinfo_client \<Rightarrow> enrich_pool" where
  "start_pool client =
     \<lparr>pl_manager = NewManager client, pl_workers = replicate enrichWorkers Idle, pl_closed = False, pl_changes = []\<rparr>"

section \<open>Events\<close>

datatype pool_event =
    Request gotime string string
  | Take nat
  | Answer nat ipinfo_net
  | Store nat gotime
  | CloseDone
  | Stop nat

definition worker_at :: "enrich_pool \<Rightarrow> nat \<Rightarrow> worker_state" where
  "worker_at p i = (if i < length (pl_workers p) then pl_workers p ! i else Stopped)"

definition set_worker :: "nat \<Rightarrow> worker_state \<Rightarrow> enrich_pool \<Rightarrow> enrich_pool" where
  "set_worker i w p = p\<lparr>pl_workers := (pl_workers p)[i := w]\<rparr>"

definition asn_changed :: "enrich_entry option \<Rightarrow> enrich_result \<Rightarrow> bool" where
  "asn_changed prev r = (case prev of
     None \<Rightarrow> False
   | Some e \<Rightarrow> er_asn (ee_result e) \<noteq> [] \<and> er_asn r \<noteq> [] \<and> er_asn (ee_result e) \<noteq> er_asn r)"

text \<open>The select of a worker: with the channel \<open>done\<close> closed and a request queued Go takes either branch.\<close>

definition pool_take :: "nat \<Rightarrow> enrich_pool \<Rightarrow> enrich_pool option" where
  "pool_take i p = (case (worker_at p i, em_queue (pl_manager p)) of
     (Idle, req # rest) \<Rightarrow> Some (set_worker i (Looking req) (p\<lparr>pl_manager := (pl_manager p)\<lparr>em_queue := rest\<rparr>\<rparr>))
   | _ \<Rightarrow> None)"

definition pool_stop :: "nat \<Rightarrow> enrich_pool \<Rightarrow> enrich_pool option" where
  "pool_stop i p = (if worker_at p i = Idle \<and> pl_closed p then Some (set_worker i Stopped p) else None)"

definition pool_answer :: "nat \<Rightarrow> ipinfo_net \<Rightarrow> enrich_pool \<Rightarrow> enrich_pool option" where
  "pool_answer i net p = (case worker_at p i of
     Looking req \<Rightarrow> Some (case ipinfo_Lookup net (em_client (pl_manager p)) (snd req) of
         Inl e \<Rightarrow> set_worker i Idle p
       | Inr r \<Rightarrow> set_worker i (Storing req r (enrich_cache_Get (snd req) (em_cache (pl_manager p)))) p)
   | _ \<Rightarrow> None)"

definition pool_store :: "nat \<Rightarrow> gotime \<Rightarrow> enrich_pool \<Rightarrow> enrich_pool option" where
  "pool_store i now p = (case worker_at p i of
     Storing req r prev \<Rightarrow> Some (set_worker i Idle (p
       \<lparr>pl_manager := (pl_manager p)\<lparr>em_cache := enrich_cache_Set now (snd req) r (em_cache (pl_manager p))\<rparr>,
        pl_changes := pl_changes p @
          (if asn_changed prev r then [(fst req, er_asn (ee_result (the prev)), er_asn r)] else [])\<rparr>))
   | _ \<Rightarrow> None)"

definition pool_close :: "enrich_pool \<Rightarrow> enrich_pool option" where
  "pool_close p = (if pl_closed p then None else Some (p\<lparr>pl_closed := True\<rparr>))"

definition pool_request :: "gotime \<Rightarrow> string \<Rightarrow> string \<Rightarrow> enrich_pool \<Rightarrow> enrich_pool" where
  "pool_request now hostname ip p = p\<lparr>pl_manager := RequestAsync now hostname ip (pl_manager p)\<rparr>"

fun pool_step :: "pool_event \<Rightarrow> enrich_pool \<Rightarrow> enrich_pool option" where
  "pool_step (Request now hostname ip) p = Some (pool_request now hostname ip p)"
| "pool_step (Take i) p = pool_take i p"
| "pool_step (Answer i net) p = pool_answer i net p"
| "pool_step (Store i now) p = pool_store i now p"
| "pool_step CloseDone p = pool_close p"
| "pool_step (Stop i) p = pool_stop i p"

fun pool_run :: "pool_event list \<Rightarrow> enrich_pool \<Rightarrow> enrich_pool option" where
  "pool_run [] p = Some p"
| "pool_run (ev # evs) p = (case pool_step ev p of None \<Rightarrow> None | Some p' \<Rightarrow> pool_run evs p')"

section \<open>A worker left alone\<close>

lemma process_asn_changed:
  "process net now req m = (case ipinfo_Lookup net (em_client m) (snd req) of
     Inl e \<Rightarrow> (False, m)
   | Inr r \<Rightarrow> (asn_changed (enrich_cache_Get (snd req) (em_cache m)) r,
       m\<lparr>em_cache := enrich_cache_Set now (snd req) r (em_cache m)\<rparr>))"
  by (simp add: process_def asn_changed_def cong: sum.case_cong)

lemma worker_at_set [simp]: "i < length (pl_workers p) \<Longrightarrow> worker_at (set_worker i w p) i = w"
  by (simp add: worker_at_def set_worker_def)

lemma set_worker_simps [simp]:
  "pl_manager (set_worker i w p) = pl_manager p" "pl_closed (set_worker i w p) = pl_closed p"
  "pl_changes (set_worker i w p) = pl_changes p" "length (pl_workers (set_worker i w p)) = length (pl_workers p)"
  "set_worker i w (set_worker i v p) = set_worker i w p"
  by (simp_all add: set_worker_def)

lemma worker_at_frame [simp]:
  "worker_at (p\<lparr>pl_manager := m\<rparr>) = worker_at p" "worker_at (p\<lparr>pl_changes := c\<rparr>) = worker_at p"
  "worker_at (p\<lparr>pl_closed := b\<rparr>) = worker_at p"
  by (simp_all add: worker_at_def fun_eq_iff)

lemma worker_alone:
  assumes "worker_at p i = Idle" and "em_queue (pl_manager p) \<noteq> []"
  shows "\<exists>evs p'. pool_run evs p = Some p' \<and> set evs \<subseteq> {Take i, Answer i net, Store i now} \<and>
    pl_manager p' = snd (worker net now (pl_manager p)) \<and> pl_workers p' = pl_workers p \<and>
    (pl_changes p' \<noteq> pl_changes p \<longleftrightarrow> fst (worker net now (pl_manager p)))"
proof -
  obtain req rest where q: "em_queue (pl_manager p) = req # rest" using assms(2) by (cases "em_queue (pl_manager p)") auto
  have i: "i < length (pl_workers p)" "pl_workers p ! i = Idle"
    using assms(1) by (simp_all add: worker_at_def split: if_splits)
  let ?m = "(pl_manager p)\<lparr>em_queue := rest\<rparr>"
  define p1 where "p1 = set_worker i (Looking req) (p\<lparr>pl_manager := ?m\<rparr>)"
  have T: "pool_step (Take i) p = Some p1" by (simp add: pool_take_def assms(1) q p1_def)
  have w1: "worker_at p1 i = Looking req" using i by (simp add: p1_def)
  have same: "(pl_workers p)[i := Idle] = pl_workers p" using i by (metis list_update_id)
  show ?thesis
  proof (cases "ipinfo_Lookup net (em_client ?m) (snd req)")
    case (Inl e)
    let ?p2 = "set_worker i Idle p1"
    have "pool_step (Answer i net) p1 = Some ?p2" using Inl by (simp add: pool_answer_def w1) (simp add: p1_def)
    with T have "pool_run [Take i, Answer i net] p = Some ?p2" by simp
    moreover have "worker net now (pl_manager p) = (False, ?m)" using Inl by (simp add: worker_def q process_def)
    ultimately show ?thesis using same
      by (intro exI [of _ "[Take i, Answer i net]"] exI [of _ ?p2]) (simp add: p1_def set_worker_def)
  next
    case (Inr r)
    let ?prev = "enrich_cache_Get (snd req) (em_cache ?m)"
    let ?p2 = "set_worker i (Storing req r ?prev) p1"
    let ?p3 = "set_worker i Idle (?p2\<lparr>pl_manager := ?m\<lparr>em_cache := enrich_cache_Set now (snd req) r (em_cache ?m)\<rparr>,
        pl_changes := pl_changes p @ (if asn_changed ?prev r then [(fst req, er_asn (ee_result (the ?prev)), er_asn r)] else [])\<rparr>)"
    have "pool_step (Answer i net) p1 = Some ?p2" using Inr by (simp add: pool_answer_def w1) (simp add: p1_def)
    moreover have "worker_at ?p2 i = Storing req r ?prev" using i by (simp add: p1_def)
    then have "pool_step (Store i now) ?p2 = Some ?p3" by (simp add: pool_store_def) (simp add: p1_def)
    ultimately have R: "pool_run [Take i, Answer i net, Store i now] p = Some ?p3" using T by simp
    have W: "worker net now (pl_manager p) =
        (asn_changed ?prev r, ?m\<lparr>em_cache := enrich_cache_Set now (snd req) r (em_cache ?m)\<rparr>)"
      using Inr by (simp add: worker_def q process_asn_changed)
    show ?thesis unfolding W using R same
      by (intro exI [of _ "[Take i, Answer i net, Store i now]"] exI [of _ ?p3]) (simp add: p1_def set_worker_def)
  qed
qed

section \<open>Closing\<close>

text \<open>The steps a closed pool can still make: three for a queued request, and what each worker has left.\<close>

fun worker_work :: "worker_state \<Rightarrow> nat" where
  "worker_work Idle = 1"
| "worker_work (Looking req) = 3"
| "worker_work (Storing req r prev) = 2"
| "worker_work Stopped = 0"

definition pool_work :: "enrich_pool \<Rightarrow> nat" where
  "pool_work p = 3 * length (em_queue (pl_manager p)) + sum_list (map worker_work (pl_workers p))"

fun is_request :: "pool_event \<Rightarrow> bool" where
  "is_request (Request now hostname ip) = True"
| "is_request ev = False"

lemma worker_at_index: "worker_at p i \<noteq> Stopped \<Longrightarrow> i < length (pl_workers p) \<and> pl_workers p ! i = worker_at p i"
  by (simp add: worker_at_def split: if_splits)

lemma set_worker_work:
  assumes "worker_at p i \<noteq> Stopped"
  shows "sum_list (map worker_work (pl_workers (set_worker i w p))) + worker_work (worker_at p i) =
    sum_list (map worker_work (pl_workers p)) + worker_work w"
proof -
  note i = worker_at_index [OF assms]
  have "worker_work (pl_workers p ! i) \<le> sum_list (map worker_work (pl_workers p))"
    using i [THEN conjunct1] by (auto intro!: member_le_sum_list)
  with i show ?thesis by (simp add: set_worker_def map_update sum_list_update)
qed

lemma set_worker_with [simp]:
  "pl_workers (set_worker i w (p\<lparr>pl_manager := m\<rparr>)) = pl_workers (set_worker i w p)"
  "pl_workers (set_worker i w (p\<lparr>pl_manager := m, pl_changes := c\<rparr>)) = pl_workers (set_worker i w p)"
  by (simp_all add: set_worker_def)

lemma pool_step_work:
  assumes "pl_closed p" and "\<not> is_request ev" and "pool_step ev p = Some p'"
  shows "pl_closed p' \<and> pool_work p' < pool_work p"
proof (cases ev)
  case (Take i)
  with assms(3) obtain req rest where w: "worker_at p i = Idle" and q: "em_queue (pl_manager p) = req # rest"
    and p': "p' = set_worker i (Looking req) (p\<lparr>pl_manager := (pl_manager p)\<lparr>em_queue := rest\<rparr>\<rparr>)"
    by (auto simp: pool_take_def split: worker_state.splits list.splits)
  show ?thesis using set_worker_work [of p i "Looking req"] assms(1) w q by (simp add: p' pool_work_def)
next
  case (Answer i net)
  with assms(3) obtain req where w: "worker_at p i = Looking req" by (auto simp: pool_answer_def split: worker_state.splits)
  with Answer assms(3) obtain s where p': "p' = set_worker i s p" and s: "worker_work s < 3"
    by (auto simp: pool_answer_def split: sum.splits)
  show ?thesis using set_worker_work [of p i s] assms(1) w s by (simp add: p' pool_work_def)
next
  case (Store i now)
  with assms(3) obtain req r prev where w: "worker_at p i = Storing req r prev"
    by (auto simp: pool_store_def split: worker_state.splits)
  show ?thesis using set_worker_work [of p i Idle] assms(1,3) w Store by (auto simp: pool_store_def pool_work_def)
next
  case (Stop i)
  then show ?thesis using set_worker_work [of p i Stopped] assms(1,3)
    by (auto simp: pool_stop_def pool_work_def split: if_splits)
qed (use assms in \<open>auto simp: pool_close_def\<close>)

text \<open>A closed pool whose workers have not all returned can step.\<close>

lemma closed_pool_steps:
  assumes "pl_closed p" and "w \<in> set (pl_workers p)" and "w \<noteq> Stopped"
  shows "\<exists>ev p'. \<not> is_request ev \<and> pool_step ev p = Some p'"
proof -
  obtain i where i: "i < length (pl_workers p)" "pl_workers p ! i = w" using assms(2) by (auto simp: in_set_conv_nth)
  then have w: "worker_at p i = w" by (simp add: worker_at_def)
  show ?thesis
  proof (cases w)
    case Idle
    then have "pool_step (Stop i) p \<noteq> None" using w assms(1) by (simp add: pool_stop_def)
    then show ?thesis by (intro exI [of _ "Stop i"]) auto
  next
    case (Looking req)
    then have "pool_step (Answer i net) p \<noteq> None" for net using w by (simp add: pool_answer_def)
    then show ?thesis by (intro exI [of _ "Answer i undefined"]) auto
  next
    case (Storing req r prev)
    then have "pool_step (Store i 0) p \<noteq> None" using w by (simp add: pool_store_def)
    then show ?thesis by (intro exI [of _ "Store i 0"]) auto
  qed (use assms(3) in simp)
qed

lemma pool_run_work:
  "pl_closed p \<Longrightarrow> filter is_request evs = [] \<Longrightarrow> pool_run evs p = Some p' \<Longrightarrow>
   pl_closed p' \<and> length evs + pool_work p' \<le> pool_work p"
proof (induction evs arbitrary: p)
  case (Cons ev evs)
  from Cons.prems obtain p1 where s: "pool_step ev p = Some p1" and r: "pool_run evs p1 = Some p'"
    and n: "\<not> is_request ev" by (auto split: option.splits if_splits)
  from pool_step_work [OF Cons.prems(1) n s] Cons.IH [OF _ _ r] Cons.prems(2) n show ?case by auto
qed simp

section \<open>What a run can reach\<close>

definition answered :: "ipinfo_client \<Rightarrow> pool_event list \<Rightarrow> string \<Rightarrow> enrich_result \<Rightarrow> bool" where
  "answered client evs ip r \<longleftrightarrow> (\<exists>i net. Answer i net \<in> set evs \<and> ipinfo_Lookup net client ip = Inr r)"

definition pool_ok :: "ipinfo_client \<Rightarrow> pool_event list \<Rightarrow> enrich_pool \<Rightarrow> bool" where
  "pool_ok client evs p \<longleftrightarrow> em_client (pl_manager p) = client \<and> length (pl_workers p) = enrichWorkers \<and>
     length (em_queue (pl_manager p)) \<le> enrichQueueLen \<and>
     (\<forall>req r prev. Storing req r prev \<in> set (pl_workers p) \<longrightarrow> answered client evs (snd req) r) \<and>
     (\<forall>ip e. enrich_cache_Get ip (em_cache (pl_manager p)) = Some e \<longrightarrow> answered client evs ip (ee_result e))"

lemma answered_more: "answered client evs ip r \<Longrightarrow> answered client (evs @ later) ip r"
  by (auto simp: answered_def)

lemma workers_set_worker: "set (pl_workers (set_worker i w p)) \<subseteq> insert w (set (pl_workers p))"
  by (simp add: set_worker_def set_update_subset_insert)

lemma pool_ok_step:
  assumes "pool_ok client evs p" and "pool_step ev p = Some p'"
  shows "pool_ok client (evs @ [ev]) p'"
proof -
  have storing: "answered client (evs @ [ev]) (snd req) r" if "Storing req r prev \<in> set (pl_workers p)" for req r prev
    using assms(1) that unfolding pool_ok_def by (blast intro: answered_more)
  have cached: "answered client (evs @ [ev]) ip (ee_result e)"
    if "enrich_cache_Get ip (em_cache (pl_manager p)) = Some e" for ip e
    using assms(1) that by (auto simp: pool_ok_def intro!: answered_more)
  have base: "em_client (pl_manager p) = client" "length (pl_workers p) = enrichWorkers"
    "length (em_queue (pl_manager p)) \<le> enrichQueueLen"
    using assms(1) by (simp_all add: pool_ok_def)
  show ?thesis
  proof (cases ev)
    case (Request now h ip)
    then show ?thesis using assms(2) base storing cached
      by (auto simp: pool_ok_def pool_request_def intro!: request_queue)
  next
    case (Take i)
    then show ?thesis using assms(2) base storing cached workers_set_worker
      by (fastforce simp: pool_ok_def pool_take_def split: worker_state.splits list.splits)
  next
    case (Stop i)
    then show ?thesis using assms(2) base storing cached workers_set_worker
      by (fastforce simp: pool_ok_def pool_stop_def split: if_splits)
  next
    case (Store i now)
    with assms(2) obtain req r prev where w: "worker_at p i = Storing req r prev"
      by (auto simp: pool_store_def split: worker_state.splits)
    then have "Storing req r prev \<in> set (pl_workers p)" using worker_at_index [of p i] by (metis nth_mem worker_state.distinct(11))
    from storing [OF this] show ?thesis using assms(2) base storing cached workers_set_worker w Store
      by (fastforce simp: pool_ok_def pool_store_def enrich_cache_Get_def enrich_cache_Set_def split: if_splits)
  next
    case (Answer i net)
    with assms(2) obtain req where w: "worker_at p i = Looking req"
      by (auto simp: pool_answer_def split: worker_state.splits)
    show ?thesis
    proof (cases "ipinfo_Lookup net client (snd req)")
      case (Inl e)
      then show ?thesis using assms(2) base storing cached workers_set_worker w Answer
        by (fastforce simp: pool_ok_def pool_answer_def)
    next
      case (Inr r)
      then have "answered client (evs @ [ev]) (snd req) r" using Answer by (auto simp: answered_def)
      with Inr show ?thesis using assms(2) base storing cached workers_set_worker w Answer
        by (fastforce simp: pool_ok_def pool_answer_def)
    qed
  qed (use assms(2) base storing cached in \<open>auto simp: pool_ok_def pool_close_def split: if_splits\<close>)
qed

lemma pool_ok_run: "pool_ok client evs p \<Longrightarrow> pool_run later p = Some p' \<Longrightarrow> pool_ok client (evs @ later) p'"
proof (induction later arbitrary: evs p)
  case (Cons ev later)
  from Cons.prems(2) obtain p1 where s: "pool_step ev p = Some p1" and r: "pool_run later p1 = Some p'"
    by (auto split: option.splits)
  from Cons.IH [OF pool_ok_step [OF Cons.prems(1) s] r] show ?case by simp
qed simp

lemma start_pool_ok: "pool_ok client [] (start_pool client)"
  by (simp add: pool_ok_def start_pool_def NewManager_def enrich_cache_Get_def enrichWorkers_def)

text \<open>What the cache of a running pool holds for an address was answered for that address in the run.\<close>

lemma pool_cache_answered:
  "pool_run evs (start_pool client) = Some p \<Longrightarrow> enrich_cache_Get ip (em_cache (pl_manager p)) = Some e \<Longrightarrow>
   answered client evs ip (ee_result e)"
  using pool_ok_run [OF start_pool_ok, of evs client p] by (simp add: pool_ok_def)

lemma pool_work_bound: "pool_ok client evs p \<Longrightarrow> pool_work p \<le> 780"
proof -
  assume ok: "pool_ok client evs p"
  have "sum_list (map worker_work ws) \<le> 3 * length ws" for ws
  proof (induction ws)
    case (Cons w ws)
    have "worker_work w \<le> 3" by (cases w) simp_all
    with Cons show ?case by simp
  qed simp
  from this [of "pl_workers p"] ok show ?thesis
    by (simp add: pool_ok_def pool_work_def enrichWorkers_def enrichQueueLen_def)
qed

text \<open>Nothing marks an address as being fetched: two requests before the first answer make two fetches.\<close>

lemma duplicate_fetch:
  "\<exists>p. pool_run [Request 0 h ip, Request 0 h ip, Take 0, Take 1] (start_pool client) = Some p \<and>
     pl_workers p = [Looking (h, ip), Looking (h, ip), Idle, Idle]"
  by (simp add: start_pool_def NewManager_def enrichWorkers_def pool_request_def RequestAsync_def enrich_cache_Fresh_def
      enrichQueueLen_def pool_take_def worker_at_def set_worker_def numeral_eq_Suc enrich_cache_Get_def)

section \<open>Properties\<close>

text \<open>C10. Close stops the pool. From any state a run of a new pool can reach, once Close was called and no
  controller asks for more, the workers make at most 780 further steps (a queued request is still taken or
  left, as the select falls), and as long as one worker has not returned some worker can step: however the
  steps interleave, all four workers return.\<close>

theorem closed_pool_stops:
  assumes "pool_run evs (start_pool client) = Some p" and "pl_closed p"
    and "pool_run later p = Some p'" and "filter is_request later = []"
  shows "length later \<le> 780 \<and>
    (set (pl_workers p') = {Stopped} \<or> (\<exists>ev p2. \<not> is_request ev \<and> pool_step ev p' = Some p2))"
proof -
  have ok: "pool_ok client ([] @ evs) p" by (rule pool_ok_run [OF start_pool_ok assms(1)])
  have "length (pl_workers p') = enrichWorkers" using pool_ok_run [OF ok assms(3)] by (simp only: pool_ok_def)
  then have n: "pl_workers p' \<noteq> []" by (auto simp: enrichWorkers_def)
  note R = pool_run_work [OF assms(2,4,3)]
  have c: "pl_closed p'" by (rule R [THEN conjunct1])
  have l: "length later \<le> 780" using R [THEN conjunct2] pool_work_bound [OF ok] by linarith
  show ?thesis
  proof (cases "\<exists>w \<in> set (pl_workers p'). w \<noteq> Stopped")
    case True
    with closed_pool_steps [OF c] l show ?thesis by blast
  next
    case False
    with n have "set (pl_workers p') = {Stopped}" by (cases "pl_workers p'") auto
    with l show ?thesis by simp
  qed
qed

definition silent_net :: ipinfo_net where
  "silent_net = \<lparr>in_get = (\<lambda>url. Inl ''timeout''), in_path_escape = id, in_query_escape = id\<rparr>"

definition busy_pool :: enrich_pool where
  "busy_pool = (start_pool (NewIPInfoClient []))\<lparr>pl_workers := [Looking (''a.io'', ''203.0.113.1''), Idle, Idle, Idle],
     pl_closed := True\<rparr>"

definition drained_pool :: enrich_pool where
  "drained_pool = busy_pool\<lparr>pl_workers := [Stopped, Stopped, Stopped, Stopped]\<rparr>"

lemma busy_pool_run:
  "pool_run [Request 0 ''a.io'' ''203.0.113.1'', Take 0, CloseDone] (start_pool (NewIPInfoClient [])) = Some busy_pool"
  by (simp add: start_pool_def NewManager_def enrichWorkers_def pool_request_def RequestAsync_def enrich_cache_Fresh_def
      enrichQueueLen_def pool_take_def worker_at_def set_worker_def numeral_eq_Suc enrich_cache_Get_def pool_close_def
      busy_pool_def)

lemma drained_pool_run:
  "pool_run [Stop 1, Answer 0 silent_net, Stop 0, Stop 2, Stop 3] busy_pool = Some drained_pool"
  by (simp add: busy_pool_def drained_pool_def start_pool_def NewManager_def pool_stop_def pool_answer_def worker_at_def
      set_worker_def numeral_eq_Suc silent_net_def ipinfo_Lookup_def Let_def)

lemma closed_pool_stops_witness:
  "length [Stop 1, Answer 0 silent_net, Stop 0, Stop 2, Stop 3] \<le> 780 \<and> set (pl_workers drained_pool) = {Stopped}"
  using closed_pool_stops [OF busy_pool_run _ drained_pool_run]
  by (simp add: busy_pool_def drained_pool_def)

end
