(* ===== verification/GoHeap.thy ===== *)
theory GoHeap
  imports GoLib
begin

text \<open>
  Go values in memory, for the code that is about sharing: a pointer, a slice or a map is a reference to a
  cell (its variable, its backing array, its entries), nil is no reference, a struct is the list of its
  fields. A Go type says which of these a value is (\<open>go_type\<close>); \<open>read\<close> gives the value without its
  addresses, \<open>foot\<close> the addresses it is spread over. A time is a scalar: its location is never written.
\<close>

section \<open>Values and cells\<close>

datatype scalar = Num int | Flag bool | Text string | Instant gotime

datatype go_value =
    Scalar scalar
  | Nil
  | Ref nat
  | Struct "(string \<times> go_value) list"

datatype go_cell = Var go_value | Arr "go_value list" | Entries "(string \<times> go_value) list"

record go_heap =
  hp_cells :: "nat \<Rightarrow> go_cell option"
  hp_next :: nat

definition heap_ok :: "go_heap \<Rightarrow> bool" where
  "heap_ok h \<longleftrightarrow> (\<forall>a. hp_next h \<le> a \<longrightarrow> hp_cells h a = None)"

text \<open>new and make: a fresh cell with this content.\<close>

definition alloc :: "go_cell \<Rightarrow> go_heap \<Rightarrow> go_value \<times> go_heap" where
  "alloc c h = (Ref (hp_next h), \<lparr>hp_cells = (hp_cells h)(hp_next h \<mapsto> c), hp_next = Suc (hp_next h)\<rparr>)"

section \<open>Types\<close>

datatype go_type =
    TScalar
  | TPtr go_type
  | TSlice go_type
  | TMap go_type
  | TStruct "(string \<times> go_type) list"

datatype go_tree =
    Leaf scalar
  | Absent
  | Boxed go_tree
  | Items "go_tree list"
  | Keyed "(string \<times> go_tree) list"
  | Fields "(string \<times> go_tree) list"

fun traverse :: "('a \<Rightarrow> 'b option) \<Rightarrow> 'a list \<Rightarrow> 'b list option" where
  "traverse f [] = Some []"
| "traverse f (x # xs) = (case (f x, traverse f xs) of (Some y, Some ys) \<Rightarrow> Some (y # ys) | _ \<Rightarrow> None)"

definition at_key :: "('a \<Rightarrow> 'b option) \<Rightarrow> string \<times> 'a \<Rightarrow> (string \<times> 'b) option" where
  "at_key f e = map_option (Pair (fst e)) (f (snd e))"

type_synonym go_memory = "nat \<Rightarrow> go_cell option"

fun read :: "go_type \<Rightarrow> go_memory \<Rightarrow> go_value \<Rightarrow> go_tree option"
  and read_fields :: "(string \<times> go_type) list \<Rightarrow> go_memory \<Rightarrow> (string \<times> go_value) list \<Rightarrow> (string \<times> go_tree) list option"
  where
  "read TScalar m v = (case v of Scalar s \<Rightarrow> Some (Leaf s) | _ \<Rightarrow> None)"
| "read (TPtr ty) m v = (case v of
     Nil \<Rightarrow> Some Absent
   | Ref a \<Rightarrow> (case m a of Some (Var x) \<Rightarrow> map_option Boxed (read ty m x) | _ \<Rightarrow> None)
   | _ \<Rightarrow> None)"
| "read (TSlice ty) m v = (case v of
     Nil \<Rightarrow> Some Absent
   | Ref a \<Rightarrow> (case m a of Some (Arr xs) \<Rightarrow> map_option Items (traverse (read ty m) xs) | _ \<Rightarrow> None)
   | _ \<Rightarrow> None)"
| "read (TMap ty) m v = (case v of
     Nil \<Rightarrow> Some Absent
   | Ref a \<Rightarrow> (case m a of Some (Entries es) \<Rightarrow> map_option Keyed (traverse (at_key (read ty m)) es) | _ \<Rightarrow> None)
   | _ \<Rightarrow> None)"
| "read (TStruct fts) m v = (case v of Struct fs \<Rightarrow> map_option Fields (read_fields fts m fs) | _ \<Rightarrow> None)"
| "read_fields [] m [] = Some []"
| "read_fields ((f, ty) # fts) m ((g, x) # fs) =
     (if f = g then (case (read ty m x, read_fields fts m fs) of (Some t, Some ts) \<Rightarrow> Some ((f, t) # ts) | _ \<Rightarrow> None)
      else None)"
| "read_fields _ m _ = None"

fun foot :: "go_type \<Rightarrow> go_memory \<Rightarrow> go_value \<Rightarrow> nat set"
  and foot_fields :: "(string \<times> go_type) list \<Rightarrow> go_memory \<Rightarrow> (string \<times> go_value) list \<Rightarrow> nat set"
  where
  "foot TScalar m v = {}"
| "foot (TPtr ty) m v = (case v of
     Ref a \<Rightarrow> insert a (case m a of Some (Var x) \<Rightarrow> foot ty m x | _ \<Rightarrow> {}) | _ \<Rightarrow> {})"
| "foot (TSlice ty) m v = (case v of
     Ref a \<Rightarrow> insert a (case m a of Some (Arr xs) \<Rightarrow> \<Union> (foot ty m ` set xs) | _ \<Rightarrow> {}) | _ \<Rightarrow> {})"
| "foot (TMap ty) m v = (case v of
     Ref a \<Rightarrow> insert a (case m a of Some (Entries es) \<Rightarrow> \<Union> (foot ty m ` snd ` set es) | _ \<Rightarrow> {}) | _ \<Rightarrow> {})"
| "foot (TStruct fts) m v = (case v of Struct fs \<Rightarrow> foot_fields fts m fs | _ \<Rightarrow> {})"
| "foot_fields ((f, ty) # fts) m ((g, x) # fs) = foot ty m x \<union> foot_fields fts m fs"
| "foot_fields _ m _ = {}"

text \<open>Types whose values have no references: assigning one copies all of it.\<close>

fun ref_free :: "go_type \<Rightarrow> bool" and ref_free_fields :: "(string \<times> go_type) list \<Rightarrow> bool" where
  "ref_free TScalar = True"
| "ref_free (TStruct fts) = ref_free_fields fts"
| "ref_free _ = False"
| "ref_free_fields [] = True"
| "ref_free_fields ((f, ty) # fts) = (ref_free ty \<and> ref_free_fields fts)"

section \<open>Copying\<close>

text \<open>
  The statements the copy functions are made of: an assignment; new, or make, and the copy of what is
  behind the reference unless it is nil; a struct assignment after which the named fields are copied.
\<close>

type_synonym copier = "go_value \<Rightarrow> go_heap \<Rightarrow> go_value \<times> go_heap"

definition assign :: copier where
  "assign v h = (v, h)"

fun copy_list :: "copier \<Rightarrow> go_value list \<Rightarrow> go_heap \<Rightarrow> go_value list \<times> go_heap" where
  "copy_list c [] h = ([], h)"
| "copy_list c (x # xs) h = (let (y, h1) = c x h; (ys, h2) = copy_list c xs h1 in (y # ys, h2))"

definition copy_ptr :: "copier \<Rightarrow> copier" where
  "copy_ptr c v h = (case v of
     Ref a \<Rightarrow> (case hp_cells h a of
         Some (Var x) \<Rightarrow> (let (y, h1) = c x h in alloc (Var y) h1)
       | _ \<Rightarrow> (v, h))
   | _ \<Rightarrow> (v, h))"

definition copy_slice :: "copier \<Rightarrow> copier" where
  "copy_slice c v h = (case v of
     Ref a \<Rightarrow> (case hp_cells h a of
         Some (Arr xs) \<Rightarrow> (let (ys, h1) = copy_list c xs h in alloc (Arr ys) h1)
       | _ \<Rightarrow> (v, h))
   | _ \<Rightarrow> (v, h))"

definition copy_map :: "copier \<Rightarrow> copier" where
  "copy_map c v h = (case v of
     Ref a \<Rightarrow> (case hp_cells h a of
         Some (Entries es) \<Rightarrow> (let (ys, h1) = copy_list c (map snd es) h in alloc (Entries (zip (map fst es) ys)) h1)
       | _ \<Rightarrow> (v, h))
   | _ \<Rightarrow> (v, h))"

fun copy_fields :: "(string \<times> copier) list \<Rightarrow> (string \<times> go_value) list \<Rightarrow> go_heap \<Rightarrow> (string \<times> go_value) list \<times> go_heap" where
  "copy_fields cs [] h = ([], h)"
| "copy_fields cs ((f, x) # fs) h =
     (let (y, h1) = (case map_of cs f of None \<Rightarrow> (x, h) | Some c \<Rightarrow> c x h); (ys, h2) = copy_fields cs fs h1
      in ((f, y) # ys, h2))"

definition copy_struct :: "(string \<times> copier) list \<Rightarrow> copier" where
  "copy_struct cs v h = (case v of
     Struct fs \<Rightarrow> (let (ys, h1) = copy_fields cs fs h in (Struct ys, h1))
   | _ \<Rightarrow> (v, h))"

section \<open>Reading and footprint\<close>

lemma traverse_cong_set: "(\<And>x. x \<in> set xs \<Longrightarrow> f x = g x) \<Longrightarrow> traverse f xs = traverse g xs"
  by (induction xs) auto

text \<open>Where the fields of one side run out, the memory does not matter.\<close>

lemma read_fields_end:
  "read_fields [] m' fs = read_fields [] m fs" "read_fields fts m' [] = read_fields fts m []"
proof -
  show "read_fields [] m' fs = read_fields [] m fs" by (cases fs) simp_all
  show "read_fields fts m' [] = read_fields fts m []" by (cases fts) auto
qed

lemma read_frame:
  "(\<forall>a \<in> foot ty m v. m' a = m a) \<Longrightarrow> read ty m' v = read ty m v \<and> foot ty m' v = foot ty m v"
  "(\<forall>a \<in> foot_fields fts m fs. m' a = m a) \<Longrightarrow>
   read_fields fts m' fs = read_fields fts m fs \<and> foot_fields fts m' fs = foot_fields fts m fs"
proof (induction ty m v and fts m fs rule: foot_foot_fields.induct)
  case (2 ty m v)
  then show ?case by (auto split: go_value.splits option.splits go_cell.splits)
next
  case (3 ty m v)
  show ?case
  proof (cases v)
    case (Ref a)
    show ?thesis
    proof (cases "m a")
      case (Some c)
      then show ?thesis
      proof (cases c)
        case (Arr xs)
        have "read ty m' x = read ty m x \<and> foot ty m' x = foot ty m x" if "x \<in> set xs" for x
          using "3.IH" [OF Ref Some Arr that] "3.prems" that Ref Some Arr by auto
        moreover have "m' a = Some (Arr xs)" using "3.prems" Ref Some Arr by simp
        ultimately show ?thesis using Ref Some Arr traverse_cong_set [of xs "read ty m'" "read ty m"] by simp
      qed (use "3.prems" Ref Some in auto)
    qed (use "3.prems" Ref in auto)
  qed simp_all
next
  case (4 ty m v)
  show ?case
  proof (cases v)
    case (Ref a)
    show ?thesis
    proof (cases "m a")
      case (Some c)
      then show ?thesis
      proof (cases c)
        case (Entries es)
        have "read ty m' x = read ty m x \<and> foot ty m' x = foot ty m x" if "x \<in> snd ` set es" for x
          using "4.IH" [OF Ref Some Entries that] "4.prems" that Ref Some Entries by auto
        moreover have "m' a = Some (Entries es)" using "4.prems" Ref Some Entries by simp
        ultimately show ?thesis
          using Ref Some Entries traverse_cong_set [of es "at_key (read ty m')" "at_key (read ty m)"]
          by (simp add: at_key_def)
      qed (use "4.prems" Ref Some in auto)
    qed (use "4.prems" Ref in auto)
  qed simp_all
next
  case (5 fts m v)
  then show ?case by (cases v) auto
next
  case (6 f ty fts m g x fs)
  then show ?case by auto
qed (simp_all add: read_fields_end)

lemma traverse_mem: "traverse f xs = Some ys \<Longrightarrow> x \<in> set xs \<Longrightarrow> \<exists>y. f x = Some y"
  by (induction xs arbitrary: ys) (auto split: option.splits)

lemma foot_bound:
  "(\<And>a. m a \<noteq> None \<Longrightarrow> a < n) \<Longrightarrow> read ty m v = Some t \<Longrightarrow> foot ty m v \<subseteq> {..<n}"
  "(\<And>a. m a \<noteq> None \<Longrightarrow> a < n) \<Longrightarrow> read_fields fts m fs = Some ts \<Longrightarrow> foot_fields fts m fs \<subseteq> {..<n}"
proof (induction ty m v and fts m fs arbitrary: t and ts rule: foot_foot_fields.induct)
  case (2 ty m v)
  then show ?case by (fastforce split: go_value.splits option.splits go_cell.splits)
next
  case (3 ty m v)
  from "3.prems"(2) show ?case
  proof (cases v)
    case (Ref a)
    from "3.prems"(2) Ref obtain xs ts where c: "m a = Some (Arr xs)" and r: "traverse (read ty m) xs = Some ts"
      by (auto split: option.splits go_cell.splits)
    have "foot ty m x \<subseteq> {..<n}" if "x \<in> set xs" for x
      using "3.IH" [OF Ref c refl that "3.prems"(1)] traverse_mem [OF r that] by blast
    with Ref c "3.prems"(1) [of a] show ?thesis by auto
  qed simp_all
next
  case (4 ty m v)
  from "4.prems"(2) show ?case
  proof (cases v)
    case (Ref a)
    from "4.prems"(2) Ref obtain es ts where c: "m a = Some (Entries es)"
      and r: "traverse (at_key (read ty m)) es = Some ts"
      by (auto split: option.splits go_cell.splits)
    have "foot ty m (snd e) \<subseteq> {..<n}" if "e \<in> set es" for e
      using "4.IH" [OF Ref c refl imageI [OF that] "4.prems"(1)] traverse_mem [OF r that] by (auto simp: at_key_def)
    with Ref c "4.prems"(1) [of a] show ?thesis by auto
  qed simp_all
next
  case (5 fts m v)
  then show ?case by (cases v) auto
next
  case (6 f ty fts m g x fs)
  then show ?case by (auto split: if_splits option.splits)
qed auto

lemma ref_free_foot:
  "ref_free ty \<Longrightarrow> foot ty m v = {}"
  "ref_free_fields fts \<Longrightarrow> foot_fields fts m fs = {}"
  by (induction ty m v and fts m fs rule: foot_foot_fields.induct) (auto split: go_value.splits)

section \<open>Deep copies\<close>

text \<open>
  A copy function is deep at a type when it leaves all existing cells alone and the copy reads as the same
  value, spread over new cells only.
\<close>

definition copied :: "go_heap \<Rightarrow> go_heap \<Rightarrow> bool" where
  "copied h h' \<longleftrightarrow> heap_ok h' \<and> hp_next h \<le> hp_next h' \<and> (\<forall>a < hp_next h. hp_cells h' a = hp_cells h a)"

definition deep :: "go_type \<Rightarrow> copier \<Rightarrow> bool" where
  "deep ty c \<longleftrightarrow> (\<forall>v h t. heap_ok h \<longrightarrow> read ty (hp_cells h) v = Some t \<longrightarrow>
     copied h (snd (c v h)) \<and> read ty (hp_cells (snd (c v h))) (fst (c v h)) = Some t \<and>
     foot ty (hp_cells (snd (c v h))) (fst (c v h)) \<subseteq> {hp_next h..<hp_next (snd (c v h))})"

lemma deepD:
  assumes "deep ty c" "heap_ok h" "read ty (hp_cells h) v = Some t" "c v h = (v', h')"
  shows "copied h h'" "read ty (hp_cells h') v' = Some t" "foot ty (hp_cells h') v' \<subseteq> {hp_next h..<hp_next h'}"
  using assms(1) [unfolded deep_def, THEN spec, THEN spec, THEN spec, THEN mp, OF assms(2), THEN mp, OF assms(3)]
    assms(4) by simp_all

lemma deepI:
  assumes "\<And>v h t v' h'. heap_ok h \<Longrightarrow> read ty (hp_cells h) v = Some t \<Longrightarrow> c v h = (v', h') \<Longrightarrow>
    copied h h' \<and> read ty (hp_cells h') v' = Some t \<and> foot ty (hp_cells h') v' \<subseteq> {hp_next h..<hp_next h'}"
  shows "deep ty c"
  unfolding deep_def
proof (intro allI impI)
  fix v h t
  assume "heap_ok h" "read ty (hp_cells h) v = Some t"
  from assms [OF this surjective_pairing] show "copied h (snd (c v h)) \<and>
     read ty (hp_cells (snd (c v h))) (fst (c v h)) = Some t \<and>
     foot ty (hp_cells (snd (c v h))) (fst (c v h)) \<subseteq> {hp_next h..<hp_next (snd (c v h))}" .
qed

lemma heap_ok_bound: "heap_ok h \<Longrightarrow> hp_cells h a \<noteq> None \<Longrightarrow> a < hp_next h"
  by (meson heap_ok_def not_le)

lemma copied_refl: "heap_ok h \<Longrightarrow> copied h h"
  by (simp add: copied_def)

lemma copied_trans: "copied h h1 \<Longrightarrow> copied h1 h2 \<Longrightarrow> copied h h2"
  by (auto simp: copied_def)

lemma copied_ok: "copied h h' \<Longrightarrow> heap_ok h'"
  by (simp add: copied_def)

lemma copied_read:
  assumes "copied h h'" "heap_ok h" "read ty (hp_cells h) v = Some t"
  shows "read ty (hp_cells h') v = Some t" "foot ty (hp_cells h') v = foot ty (hp_cells h) v"
proof -
  have "foot ty (hp_cells h) v \<subseteq> {..<hp_next h}"
    using foot_bound(1) [of "hp_cells h", OF heap_ok_bound [OF assms(2)] assms(3)] .
  then have "\<forall>a \<in> foot ty (hp_cells h) v. hp_cells h' a = hp_cells h a"
    using assms(1) by (auto simp: copied_def)
  from read_frame(1) [OF this] assms(3) show "read ty (hp_cells h') v = Some t"
    "foot ty (hp_cells h') v = foot ty (hp_cells h) v" by simp_all
qed

lemma alloc_copied: "heap_ok h \<Longrightarrow> copied h (snd (alloc c h))"
  by (auto simp: copied_def alloc_def heap_ok_def)

lemma deep_assign: "ref_free ty \<Longrightarrow> deep ty assign"
  by (rule deepI) (auto simp: assign_def copied_refl ref_free_foot)

text \<open>A reading copy of a list stays one while more is copied.\<close>

definition list_copied :: "go_type \<Rightarrow> nat \<Rightarrow> go_tree list \<Rightarrow> go_value list \<Rightarrow> go_heap \<Rightarrow> bool" where
  "list_copied ty n ts ys h \<longleftrightarrow> traverse (read ty (hp_cells h)) ys = Some ts \<and>
     \<Union> (foot ty (hp_cells h) ` set ys) \<subseteq> {n..<hp_next h}"

lemma list_copied_later:
  assumes "list_copied ty n ts ys h" "copied h h'" "heap_ok h"
  shows "list_copied ty n ts ys h'"
proof -
  have r: "read ty (hp_cells h') y = read ty (hp_cells h) y \<and> foot ty (hp_cells h') y = foot ty (hp_cells h) y"
    if "y \<in> set ys" for y
    using traverse_mem [of "read ty (hp_cells h)" ys ts y] assms that by (auto simp: list_copied_def copied_read)
  have "traverse (read ty (hp_cells h')) ys = traverse (read ty (hp_cells h)) ys" by (rule traverse_cong_set) (simp add: r)
  then show ?thesis using assms(1,2) r by (fastforce simp: list_copied_def copied_def)
qed

lemma deep_list:
  assumes "deep ty c"
  shows "heap_ok h \<Longrightarrow> traverse (read ty (hp_cells h)) xs = Some ts \<Longrightarrow> copy_list c xs h = (ys, h') \<Longrightarrow>
    copied h h' \<and> list_copied ty (hp_next h) ts ys h' \<and> length ys = length xs"
proof (induction xs arbitrary: h ts ys h')
  case Nil
  then show ?case by (auto simp: copied_refl list_copied_def)
next
  case (Cons x xs)
  from Cons.prems(2) obtain t ts1 where t: "read ty (hp_cells h) x = Some t" "ts = t # ts1"
    and ts1: "traverse (read ty (hp_cells h)) xs = Some ts1" by (auto split: option.splits)
  obtain y h1 where y: "c x h = (y, h1)" by fastforce
  obtain zs h2 where z: "copy_list c xs h1 = (zs, h2)" by fastforce
  have e: "ys = y # zs" "h' = h2" using Cons.prems(3) y z by simp_all
  note D = deepD [OF assms Cons.prems(1) t(1) y]
  have ok1: "heap_ok h1" using D(1) by (rule copied_ok)
  have "traverse (read ty (hp_cells h1)) xs = traverse (read ty (hp_cells h)) xs"
  proof (rule traverse_cong_set)
    fix x assume "x \<in> set xs"
    with traverse_mem [OF ts1] obtain t where "read ty (hp_cells h) x = Some t" by blast
    with copied_read(1) [OF D(1) Cons.prems(1) this] show "read ty (hp_cells h1) x = read ty (hp_cells h) x" by simp
  qed
  with ts1 have "traverse (read ty (hp_cells h1)) xs = Some ts1" by simp
  from Cons.IH [OF ok1 this z]
  have I: "copied h1 h2" "list_copied ty (hp_next h1) ts1 zs h2" "length zs = length xs" by simp_all
  have n: "hp_next h \<le> hp_next h1" "hp_next h1 \<le> hp_next h2" using D(1) I(1) by (simp_all add: copied_def)
  have "read ty (hp_cells h2) y = Some t" "foot ty (hp_cells h2) y \<subseteq> {hp_next h..<hp_next h2}"
    using copied_read [OF I(1) ok1 D(2)] D(3) n by auto
  with I(2) n have "list_copied ty (hp_next h) ts ys h2" by (auto simp: list_copied_def e t(2))
  with copied_trans [OF D(1) I(1)] I(3) show ?case by (simp add: e)
qed

text \<open>The new cell of a reference, once what is behind it has been copied.\<close>

lemma deep_cell:
  assumes "copied h h1" "list_copied ty (hp_next h) ts ys h1" "alloc cell h1 = (v', h2)"
  shows "copied h h2" "list_copied ty (hp_next h) ts ys h2" "v' = Ref (hp_next h1)"
    "hp_cells h2 (hp_next h1) = Some cell" "hp_next h1 \<in> {hp_next h..<hp_next h2}"
proof -
  have ok: "heap_ok h1" using assms(1) by (rule copied_ok)
  have c: "copied h1 h2" using alloc_copied [OF ok, of cell] assms(3) by simp
  show "copied h h2" using assms(1) c by (rule copied_trans)
  show "list_copied ty (hp_next h) ts ys h2" using assms(2) c ok by (rule list_copied_later)
  show "v' = Ref (hp_next h1)" "hp_cells h2 (hp_next h1) = Some cell" using assms(3) by (auto simp: alloc_def)
  show "hp_next h1 \<in> {hp_next h..<hp_next h2}" using assms(1,3) by (auto simp: alloc_def copied_def)
qed

lemma deep_ptr: assumes "deep ty c" shows "deep (TPtr ty) (copy_ptr c)"
proof (rule deepI)
  fix v h t v' h'
  assume h: "heap_ok h" and r: "read (TPtr ty) (hp_cells h) v = Some t" and c: "copy_ptr c v h = (v', h')"
  show "copied h h' \<and> read (TPtr ty) (hp_cells h') v' = Some t \<and> foot (TPtr ty) (hp_cells h') v' \<subseteq> {hp_next h..<hp_next h'}"
  proof (cases v)
    case (Ref a)
    with r obtain x t1 where x: "hp_cells h a = Some (Var x)" "read ty (hp_cells h) x = Some t1" "t = Boxed t1"
      by (auto split: option.splits go_cell.splits)
    obtain y h1 where y: "copy_list c [x] h = ([y], h1)" "c x h = (y, h1)" by (cases "c x h") simp
    have "copied h h1 \<and> list_copied ty (hp_next h) [t1] [y] h1 \<and> length [y] = length [x]"
      by (rule deep_list [OF assms h _ y(1)]) (simp add: x(2))
    then have a: "alloc (Var y) h1 = (v', h')" and "copied h h1" "list_copied ty (hp_next h) [t1] [y] h1"
      using c Ref x(1) y(2) by (simp_all add: copy_ptr_def)
    note C = deep_cell [OF this(2,3,1)]
    from C(2) have "read ty (hp_cells h') y = Some t1" by (auto simp: list_copied_def split: option.splits)
    with C show ?thesis by (auto simp: list_copied_def x(3))
  qed (use c r h in \<open>auto simp: copy_ptr_def copied_refl\<close>)
qed

lemma deep_slice: assumes "deep ty c" shows "deep (TSlice ty) (copy_slice c)"
proof (rule deepI)
  fix v h t v' h'
  assume h: "heap_ok h" and r: "read (TSlice ty) (hp_cells h) v = Some t" and c: "copy_slice c v h = (v', h')"
  show "copied h h' \<and> read (TSlice ty) (hp_cells h') v' = Some t \<and>
    foot (TSlice ty) (hp_cells h') v' \<subseteq> {hp_next h..<hp_next h'}"
  proof (cases v)
    case (Ref a)
    with r obtain xs ts where x: "hp_cells h a = Some (Arr xs)" "traverse (read ty (hp_cells h)) xs = Some ts" "t = Items ts"
      by (auto split: option.splits go_cell.splits)
    obtain ys h1 where y: "copy_list c xs h = (ys, h1)" by fastforce
    from deep_list [OF assms h x(2) y] have L: "copied h h1" "list_copied ty (hp_next h) ts ys h1" by simp_all
    have "alloc (Arr ys) h1 = (v', h')" using c Ref x(1) y by (simp add: copy_slice_def)
    from deep_cell [OF L this] show ?thesis by (auto simp: list_copied_def x(3))
  qed (use c r h in \<open>auto simp: copy_slice_def copied_refl\<close>)
qed

lemma traverse_at_key:
  "length xs = length ks \<Longrightarrow> traverse (at_key f) (zip ks xs) = map_option (zip ks) (traverse f xs)"
  by (induction xs ks rule: list_induct2) (auto simp: at_key_def split: option.splits)

lemma deep_map: assumes "deep ty c" shows "deep (TMap ty) (copy_map c)"
proof (rule deepI)
  fix v h t v' h'
  assume h: "heap_ok h" and r: "read (TMap ty) (hp_cells h) v = Some t" and c: "copy_map c v h = (v', h')"
  show "copied h h' \<and> read (TMap ty) (hp_cells h') v' = Some t \<and>
    foot (TMap ty) (hp_cells h') v' \<subseteq> {hp_next h..<hp_next h'}"
  proof (cases v)
    case (Ref a)
    with r obtain es kts where x: "hp_cells h a = Some (Entries es)" "traverse (at_key (read ty (hp_cells h))) es = Some kts"
      "t = Keyed kts"
      by (auto split: option.splits go_cell.splits)
    let ?ks = "map fst es" and ?xs = "map snd es"
    have "traverse (at_key (read ty (hp_cells h))) (zip ?ks ?xs) = Some kts" using x(2) by (simp add: zip_map_fst_snd)
    then obtain ts where ts: "traverse (read ty (hp_cells h)) ?xs = Some ts" "kts = zip ?ks ts"
      by (auto simp: traverse_at_key)
    obtain ys h1 where y: "copy_list c ?xs h = (ys, h1)" by fastforce
    from deep_list [OF assms h ts(1) y] have L: "copied h h1" "list_copied ty (hp_next h) ts ys h1"
      and n: "length ys = length ?ks" by simp_all
    have "alloc (Entries (zip ?ks ys)) h1 = (v', h')" using c Ref x(1) y by (simp add: copy_map_def)
    note C = deep_cell [OF L this]
    have "snd ` set (zip ?ks ys) = set ys" using n by (metis list.set_map map_snd_zip)
    with C n show ?thesis by (simp add: list_copied_def x(3) ts(2) traverse_at_key)
  qed (use c r h in \<open>auto simp: copy_map_def copied_refl\<close>)
qed

text \<open>A struct: every field that is not copied by name must be free of references.\<close>

definition field_copier :: "(string \<times> copier) list \<Rightarrow> string \<Rightarrow> copier" where
  "field_copier cs f = (case map_of cs f of None \<Rightarrow> assign | Some c \<Rightarrow> c)"

lemma copy_fields_Cons:
  "copy_fields cs ((f, x) # fs) h =
     (let (y, h1) = field_copier cs f x h; (ys, h2) = copy_fields cs fs h1 in ((f, y) # ys, h2))"
  by (simp add: field_copier_def assign_def split: option.split)

declare copy_fields.simps(2) [simp del]

lemma deep_fields:
  assumes "\<And>f ty. (f, ty) \<in> set fts \<Longrightarrow> deep ty (field_copier cs f)"
  shows "heap_ok h \<Longrightarrow> read_fields fts (hp_cells h) fs = Some ts \<Longrightarrow> copy_fields cs fs h = (ys, h') \<Longrightarrow>
    copied h h' \<and> read_fields fts (hp_cells h') ys = Some ts \<and>
    foot_fields fts (hp_cells h') ys \<subseteq> {hp_next h..<hp_next h'}"
  using assms
proof (induction fts arbitrary: fs h ts ys h')
  case Nil
  then show ?case by (cases fs) (auto simp: copied_refl)
next
  case (Cons ft fts)
  obtain f ty where ft: "ft = (f, ty)" by fastforce
  from Cons.prems(2) ft obtain x fs1 t ts1 where f: "fs = (f, x) # fs1" "read ty (hp_cells h) x = Some t" "ts = (f, t) # ts1"
    and r: "read_fields fts (hp_cells h) fs1 = Some ts1"
    by (cases fs) (auto split: if_splits option.splits)
  obtain y h1 where y: "field_copier cs f x h = (y, h1)" by fastforce
  obtain zs h2 where z: "copy_fields cs fs1 h1 = (zs, h2)" by fastforce
  have e: "ys = (f, y) # zs" "h' = h2" using Cons.prems(3) y z by (simp_all add: f(1) copy_fields_Cons)
  have "deep ty (field_copier cs f)" using Cons.prems(4) ft by simp
  note D = deepD [OF this Cons.prems(1) f(2) y]
  have ok1: "heap_ok h1" using D(1) by (rule copied_ok)
  have "\<forall>a \<in> foot_fields fts (hp_cells h) fs1. hp_cells h1 a = hp_cells h a"
    using foot_bound(2) [OF heap_ok_bound [OF Cons.prems(1)] r] D(1) by (auto simp: copied_def)
  from read_frame(2) [OF this] r have "read_fields fts (hp_cells h1) fs1 = Some ts1" by simp
  from Cons.IH [OF ok1 this z] Cons.prems(4)
  have I: "copied h1 h2" "read_fields fts (hp_cells h2) zs = Some ts1"
    "foot_fields fts (hp_cells h2) zs \<subseteq> {hp_next h1..<hp_next h2}" by simp_all
  have n: "hp_next h \<le> hp_next h1" "hp_next h1 \<le> hp_next h2" using D(1) I(1) by (simp_all add: copied_def)
  have "read ty (hp_cells h2) y = Some t" "foot ty (hp_cells h2) y \<subseteq> {hp_next h..<hp_next h2}"
    using copied_read [OF I(1) ok1 D(2)] D(3) n by auto
  with I n copied_trans [OF D(1) I(1)] show ?case by (auto simp: ft e f)
qed

lemma deep_struct:
  assumes "\<And>f ty. (f, ty) \<in> set fts \<Longrightarrow> deep ty (field_copier cs f)"
  shows "deep (TStruct fts) (copy_struct cs)"
proof (rule deepI)
  fix v h t v' h'
  assume h: "heap_ok h" and r: "read (TStruct fts) (hp_cells h) v = Some t" and c: "copy_struct cs v h = (v', h')"
  from r obtain fs ts where f: "v = Struct fs" "read_fields fts (hp_cells h) fs = Some ts" "t = Fields ts"
    by (cases v) auto
  obtain ys h1 where y: "copy_fields cs fs h = (ys, h1)" by fastforce
  have "v' = Struct ys" "h' = h1" using c y by (simp_all add: f(1) copy_struct_def)
  with deep_fields [OF assms h f(2) y] show "copied h h' \<and> read (TStruct fts) (hp_cells h') v' = Some t \<and>
    foot (TStruct fts) (hp_cells h') v' \<subseteq> {hp_next h..<hp_next h'}" by (simp add: f(3))
qed

lemma deep_struct_all:
  "list_all (\<lambda>(f, ty). deep ty (field_copier cs f)) fts \<Longrightarrow> deep (TStruct fts) (copy_struct cs)"
  by (rule deep_struct) (auto simp: list_all_iff)

text \<open>What a deep copy is good for: the value read through the original and the value read through the copy are
  the same, and writing to any cell of the one changes nothing of the other.\<close>

lemma deep_independent:
  assumes "deep ty c" "heap_ok h" "read ty (hp_cells h) v = Some t" "c v h = (v', h')"
  shows "read ty (hp_cells h') v = Some t \<and> read ty (hp_cells h') v' = Some t"
    and "foot ty (hp_cells h') v \<inter> foot ty (hp_cells h') v' = {}"
proof -
  note D = deepD [OF assms]
  note R = copied_read [OF D(1) assms(2,3)]
  show "read ty (hp_cells h') v = Some t \<and> read ty (hp_cells h') v' = Some t" using R(1) D(2) by simp
  have "foot ty (hp_cells h') v \<subseteq> {..<hp_next h}"
    unfolding R(2) using foot_bound(1) [OF heap_ok_bound [OF assms(2)] assms(3)] .
  with D(3) show "foot ty (hp_cells h') v \<inter> foot ty (hp_cells h') v' = {}" by fastforce
qed

end
