(* ===== verification/DeepCopy.thy ===== *)
theory DeepCopy
  imports GoHeap
begin

text \<open>
  api/v1alpha1/zz\_generated.deepcopy.go: the copies controller-runtime hands out of its cache, so that a
  controller may change an object it got. First the layout of every struct of the API (the type declarations
  of api/v1alpha1), then its copy functions. The structs of apimachinery's package metav1 that they contain are
  parameters: their layouts (\<open>lib_ty\<close>) and their DeepCopyInto (\<open>lib\<close>), which is documented to be deep.
\<close>

section \<open>Layouts\<close>

text \<open>metav1.TypeMeta is assigned as a whole: two strings.\<close>

definition type_meta :: go_type where
  "type_meta = TStruct [(''Kind'', TScalar), (''APIVersion'', TScalar)]"

definition PolicyPort_type :: "(string \<Rightarrow> go_type) \<Rightarrow> go_type" where
  "PolicyPort_type lib_ty = TStruct
    [(''Protocol'', TScalar), (''Port'', TScalar)]"

definition FQDNRule_type :: "(string \<Rightarrow> go_type) \<Rightarrow> go_type" where
  "FQDNRule_type lib_ty = TStruct
    [(''Match'', TScalar), (''Ports'', TSlice (PolicyPort_type lib_ty))]"

definition PodSelectorSpec_type :: "(string \<Rightarrow> go_type) \<Rightarrow> go_type" where
  "PodSelectorSpec_type lib_ty = TStruct
    [(''PodSelector'', lib_ty ''LabelSelector'')]"

definition DNSSecurityMetadata_type :: "(string \<Rightarrow> go_type) \<Rightarrow> go_type" where
  "DNSSecurityMetadata_type lib_ty = TStruct
    [(''DNSSECValidated'', TScalar), (''IPChurnRate'', TScalar), (''ResolverDivergence'', TScalar),
     (''ResolverResults'', TMap (TSlice TScalar)), (''ShortTTL'', TScalar)]"

definition IPEnrichment_type :: "(string \<Rightarrow> go_type) \<Rightarrow> go_type" where
  "IPEnrichment_type lib_ty = TStruct
    [(''ASN'', TScalar), (''Org'', TScalar), (''Country'', TScalar), (''EnrichedAt'', TPtr (lib_ty ''Time''))]"

definition SecuritySpec_type :: "(string \<Rightarrow> go_type) \<Rightarrow> go_type" where
  "SecuritySpec_type lib_ty = TStruct
    [(''MaxCNAMEDepth'', TPtr TScalar), (''BlockPrivateIPs'', TPtr TScalar), (''BlockLoopback'', TPtr TScalar),
     (''BlockLinkLocal'', TPtr TScalar), (''BlockOnDivergence'', TPtr TScalar),
     (''MinResolverAgreement'', TPtr TScalar)]"

definition ObservedDomain_type :: "(string \<Rightarrow> go_type) \<Rightarrow> go_type" where
  "ObservedDomain_type lib_ty = TStruct
    [(''Hostname'', TScalar), (''FirstSeen'', lib_ty ''Time''), (''LastSeen'', lib_ty ''Time''),
     (''ObservedPorts'', TSlice TScalar), (''QueryCount'', TScalar)]"

definition ResolvedHost_type :: "(string \<Rightarrow> go_type) \<Rightarrow> go_type" where
  "ResolvedHost_type lib_ty = TStruct
    [(''Hostname'', TScalar), (''IPs'', TSlice TScalar), (''LastSeen'', lib_ty ''Time''),
     (''Source'', TScalar), (''TTLSeconds'', TScalar), (''CNAMEChain'', TSlice TScalar),
     (''Security'', TPtr (DNSSecurityMetadata_type lib_ty)),
     (''IPEnrichments'', TMap (IPEnrichment_type lib_ty))]"

definition FQDNNetworkPolicySpec_type :: "(string \<Rightarrow> go_type) \<Rightarrow> go_type" where
  "FQDNNetworkPolicySpec_type lib_ty = TStruct
    [(''PodSelector'', PodSelectorSpec_type lib_ty), (''Egress'', TSlice (FQDNRule_type lib_ty)),
     (''Mode'', TScalar), (''ResolutionTTLOverride'', TPtr TScalar), (''CoreDNSAddress'', TScalar),
     (''Security'', TPtr (SecuritySpec_type lib_ty))]"

definition FQDNNetworkPolicyStatus_type :: "(string \<Rightarrow> go_type) \<Rightarrow> go_type" where
  "FQDNNetworkPolicyStatus_type lib_ty = TStruct
    [(''ResolvedHosts'', TSlice (ResolvedHost_type lib_ty)), (''GeneratedNetworkPolicy'', TScalar),
     (''Conditions'', TSlice (lib_ty ''Condition'')), (''ObservedGeneration'', TScalar),
     (''ObservedUnpoliciedDomains'', TSlice (ObservedDomain_type lib_ty))]"

definition ClusterFQDNNetworkPolicySpec_type :: "(string \<Rightarrow> go_type) \<Rightarrow> go_type" where
  "ClusterFQDNNetworkPolicySpec_type lib_ty = TStruct
    [(''NamespaceSelector'', lib_ty ''LabelSelector''), (''PodSelector'', PodSelectorSpec_type lib_ty),
     (''Egress'', TSlice (FQDNRule_type lib_ty)), (''Mode'', TScalar),
     (''ResolutionTTLOverride'', TPtr TScalar), (''CoreDNSAddress'', TScalar),
     (''Security'', TPtr (SecuritySpec_type lib_ty))]"

definition ClusterFQDNNetworkPolicyStatus_type :: "(string \<Rightarrow> go_type) \<Rightarrow> go_type" where
  "ClusterFQDNNetworkPolicyStatus_type lib_ty = TStruct
    [(''ResolvedHosts'', TSlice (ResolvedHost_type lib_ty)), (''AffectedNamespaces'', TSlice TScalar),
     (''Conditions'', TSlice (lib_ty ''Condition'')), (''ObservedGeneration'', TScalar)]"

definition FQDNEgressObservationSpec_type :: "(string \<Rightarrow> go_type) \<Rightarrow> go_type" where
  "FQDNEgressObservationSpec_type lib_ty = TStruct
    [(''PodSelector'', PodSelectorSpec_type lib_ty), (''ObservationWindow'', TScalar)]"

definition FQDNEgressObservationStatus_type :: "(string \<Rightarrow> go_type) \<Rightarrow> go_type" where
  "FQDNEgressObservationStatus_type lib_ty = TStruct
    [(''ObservedDomains'', TSlice (ObservedDomain_type lib_ty)), (''ObservationComplete'', TScalar),
     (''Conditions'', TSlice (lib_ty ''Condition'')), (''ObservedGeneration'', TScalar)]"

definition FQDNNetworkPolicy_type :: "(string \<Rightarrow> go_type) \<Rightarrow> go_type" where
  "FQDNNetworkPolicy_type lib_ty = TStruct
    [(''TypeMeta'', type_meta), (''ObjectMeta'', lib_ty ''ObjectMeta''),
     (''Spec'', FQDNNetworkPolicySpec_type lib_ty), (''Status'', FQDNNetworkPolicyStatus_type lib_ty)]"

definition FQDNNetworkPolicyList_type :: "(string \<Rightarrow> go_type) \<Rightarrow> go_type" where
  "FQDNNetworkPolicyList_type lib_ty = TStruct
    [(''TypeMeta'', type_meta), (''ListMeta'', lib_ty ''ListMeta''),
     (''Items'', TSlice (FQDNNetworkPolicy_type lib_ty))]"

definition ClusterFQDNNetworkPolicy_type :: "(string \<Rightarrow> go_type) \<Rightarrow> go_type" where
  "ClusterFQDNNetworkPolicy_type lib_ty = TStruct
    [(''TypeMeta'', type_meta), (''ObjectMeta'', lib_ty ''ObjectMeta''),
     (''Spec'', ClusterFQDNNetworkPolicySpec_type lib_ty),
     (''Status'', ClusterFQDNNetworkPolicyStatus_type lib_ty)]"

definition ClusterFQDNNetworkPolicyList_type :: "(string \<Rightarrow> go_type) \<Rightarrow> go_type" where
  "ClusterFQDNNetworkPolicyList_type lib_ty = TStruct
    [(''TypeMeta'', type_meta), (''ListMeta'', lib_ty ''ListMeta''),
     (''Items'', TSlice (ClusterFQDNNetworkPolicy_type lib_ty))]"

definition FQDNEgressObservation_type :: "(string \<Rightarrow> go_type) \<Rightarrow> go_type" where
  "FQDNEgressObservation_type lib_ty = TStruct
    [(''TypeMeta'', type_meta), (''ObjectMeta'', lib_ty ''ObjectMeta''),
     (''Spec'', FQDNEgressObservationSpec_type lib_ty), (''Status'', FQDNEgressObservationStatus_type lib_ty)]"

definition FQDNEgressObservationList_type :: "(string \<Rightarrow> go_type) \<Rightarrow> go_type" where
  "FQDNEgressObservationList_type lib_ty = TStruct
    [(''TypeMeta'', type_meta), (''ListMeta'', lib_ty ''ListMeta''),
     (''Items'', TSlice (FQDNEgressObservation_type lib_ty))]"

section \<open>DeepCopyInto and DeepCopy\<close>

text \<open>
  DeepCopyInto first assigns the struct and then copies the named fields, in their order. DeepCopy gives nil
  for nil and otherwise a new variable with the copy. An entry of the enrichment map is copied through such a
  variable (\<open>*val.DeepCopy()\<close>), which nothing refers to afterwards and is left out.
\<close>

definition PolicyPort_DeepCopyInto :: "(string \<Rightarrow> copier) \<Rightarrow> copier" where
  "PolicyPort_DeepCopyInto lib = copy_struct
    []"

definition PolicyPort_DeepCopy :: "(string \<Rightarrow> copier) \<Rightarrow> copier" where
  "PolicyPort_DeepCopy lib = copy_ptr (PolicyPort_DeepCopyInto lib)"

definition FQDNRule_DeepCopyInto :: "(string \<Rightarrow> copier) \<Rightarrow> copier" where
  "FQDNRule_DeepCopyInto lib = copy_struct
    [(''Ports'', copy_slice assign)]"

definition FQDNRule_DeepCopy :: "(string \<Rightarrow> copier) \<Rightarrow> copier" where
  "FQDNRule_DeepCopy lib = copy_ptr (FQDNRule_DeepCopyInto lib)"

definition PodSelectorSpec_DeepCopyInto :: "(string \<Rightarrow> copier) \<Rightarrow> copier" where
  "PodSelectorSpec_DeepCopyInto lib = copy_struct
    [(''PodSelector'', lib ''LabelSelector'')]"

definition PodSelectorSpec_DeepCopy :: "(string \<Rightarrow> copier) \<Rightarrow> copier" where
  "PodSelectorSpec_DeepCopy lib = copy_ptr (PodSelectorSpec_DeepCopyInto lib)"

definition DNSSecurityMetadata_DeepCopyInto :: "(string \<Rightarrow> copier) \<Rightarrow> copier" where
  "DNSSecurityMetadata_DeepCopyInto lib = copy_struct
    [(''ResolverResults'', copy_map (copy_slice assign))]"

definition DNSSecurityMetadata_DeepCopy :: "(string \<Rightarrow> copier) \<Rightarrow> copier" where
  "DNSSecurityMetadata_DeepCopy lib = copy_ptr (DNSSecurityMetadata_DeepCopyInto lib)"

definition IPEnrichment_DeepCopyInto :: "(string \<Rightarrow> copier) \<Rightarrow> copier" where
  "IPEnrichment_DeepCopyInto lib = copy_struct
    [(''EnrichedAt'', copy_ptr (lib ''Time''))]"

definition IPEnrichment_DeepCopy :: "(string \<Rightarrow> copier) \<Rightarrow> copier" where
  "IPEnrichment_DeepCopy lib = copy_ptr (IPEnrichment_DeepCopyInto lib)"

definition SecuritySpec_DeepCopyInto :: "(string \<Rightarrow> copier) \<Rightarrow> copier" where
  "SecuritySpec_DeepCopyInto lib = copy_struct
    [(''MaxCNAMEDepth'', copy_ptr assign), (''BlockPrivateIPs'', copy_ptr assign),
     (''BlockLoopback'', copy_ptr assign), (''BlockLinkLocal'', copy_ptr assign),
     (''BlockOnDivergence'', copy_ptr assign), (''MinResolverAgreement'', copy_ptr assign)]"

definition SecuritySpec_DeepCopy :: "(string \<Rightarrow> copier) \<Rightarrow> copier" where
  "SecuritySpec_DeepCopy lib = copy_ptr (SecuritySpec_DeepCopyInto lib)"

definition ObservedDomain_DeepCopyInto :: "(string \<Rightarrow> copier) \<Rightarrow> copier" where
  "ObservedDomain_DeepCopyInto lib = copy_struct
    [(''FirstSeen'', lib ''Time''), (''LastSeen'', lib ''Time''), (''ObservedPorts'', copy_slice assign)]"

definition ObservedDomain_DeepCopy :: "(string \<Rightarrow> copier) \<Rightarrow> copier" where
  "ObservedDomain_DeepCopy lib = copy_ptr (ObservedDomain_DeepCopyInto lib)"

definition ResolvedHost_DeepCopyInto :: "(string \<Rightarrow> copier) \<Rightarrow> copier" where
  "ResolvedHost_DeepCopyInto lib = copy_struct
    [(''IPs'', copy_slice assign), (''LastSeen'', lib ''Time''), (''CNAMEChain'', copy_slice assign),
     (''Security'', copy_ptr (DNSSecurityMetadata_DeepCopyInto lib)),
     (''IPEnrichments'', copy_map (IPEnrichment_DeepCopyInto lib))]"

definition ResolvedHost_DeepCopy :: "(string \<Rightarrow> copier) \<Rightarrow> copier" where
  "ResolvedHost_DeepCopy lib = copy_ptr (ResolvedHost_DeepCopyInto lib)"

definition FQDNNetworkPolicySpec_DeepCopyInto :: "(string \<Rightarrow> copier) \<Rightarrow> copier" where
  "FQDNNetworkPolicySpec_DeepCopyInto lib = copy_struct
    [(''PodSelector'', PodSelectorSpec_DeepCopyInto lib), (''Egress'', copy_slice (FQDNRule_DeepCopyInto lib)),
     (''ResolutionTTLOverride'', copy_ptr assign), (''Security'', copy_ptr (SecuritySpec_DeepCopyInto lib))]"

definition FQDNNetworkPolicySpec_DeepCopy :: "(string \<Rightarrow> copier) \<Rightarrow> copier" where
  "FQDNNetworkPolicySpec_DeepCopy lib = copy_ptr (FQDNNetworkPolicySpec_DeepCopyInto lib)"

definition FQDNNetworkPolicyStatus_DeepCopyInto :: "(string \<Rightarrow> copier) \<Rightarrow> copier" where
  "FQDNNetworkPolicyStatus_DeepCopyInto lib = copy_struct
    [(''ResolvedHosts'', copy_slice (ResolvedHost_DeepCopyInto lib)),
     (''Conditions'', copy_slice (lib ''Condition'')),
     (''ObservedUnpoliciedDomains'', copy_slice (ObservedDomain_DeepCopyInto lib))]"

definition FQDNNetworkPolicyStatus_DeepCopy :: "(string \<Rightarrow> copier) \<Rightarrow> copier" where
  "FQDNNetworkPolicyStatus_DeepCopy lib = copy_ptr (FQDNNetworkPolicyStatus_DeepCopyInto lib)"

definition ClusterFQDNNetworkPolicySpec_DeepCopyInto :: "(string \<Rightarrow> copier) \<Rightarrow> copier" where
  "ClusterFQDNNetworkPolicySpec_DeepCopyInto lib = copy_struct
    [(''NamespaceSelector'', lib ''LabelSelector''), (''PodSelector'', PodSelectorSpec_DeepCopyInto lib),
     (''Egress'', copy_slice (FQDNRule_DeepCopyInto lib)), (''ResolutionTTLOverride'', copy_ptr assign),
     (''Security'', copy_ptr (SecuritySpec_DeepCopyInto lib))]"

definition ClusterFQDNNetworkPolicySpec_DeepCopy :: "(string \<Rightarrow> copier) \<Rightarrow> copier" where
  "ClusterFQDNNetworkPolicySpec_DeepCopy lib = copy_ptr (ClusterFQDNNetworkPolicySpec_DeepCopyInto lib)"

definition ClusterFQDNNetworkPolicyStatus_DeepCopyInto :: "(string \<Rightarrow> copier) \<Rightarrow> copier" where
  "ClusterFQDNNetworkPolicyStatus_DeepCopyInto lib = copy_struct
    [(''ResolvedHosts'', copy_slice (ResolvedHost_DeepCopyInto lib)),
     (''AffectedNamespaces'', copy_slice assign), (''Conditions'', copy_slice (lib ''Condition''))]"

definition ClusterFQDNNetworkPolicyStatus_DeepCopy :: "(string \<Rightarrow> copier) \<Rightarrow> copier" where
  "ClusterFQDNNetworkPolicyStatus_DeepCopy lib = copy_ptr (ClusterFQDNNetworkPolicyStatus_DeepCopyInto lib)"

definition FQDNEgressObservationSpec_DeepCopyInto :: "(string \<Rightarrow> copier) \<Rightarrow> copier" where
  "FQDNEgressObservationSpec_DeepCopyInto lib = copy_struct
    [(''PodSelector'', PodSelectorSpec_DeepCopyInto lib), (''ObservationWindow'', assign)]"

definition FQDNEgressObservationSpec_DeepCopy :: "(string \<Rightarrow> copier) \<Rightarrow> copier" where
  "FQDNEgressObservationSpec_DeepCopy lib = copy_ptr (FQDNEgressObservationSpec_DeepCopyInto lib)"

definition FQDNEgressObservationStatus_DeepCopyInto :: "(string \<Rightarrow> copier) \<Rightarrow> copier" where
  "FQDNEgressObservationStatus_DeepCopyInto lib = copy_struct
    [(''ObservedDomains'', copy_slice (ObservedDomain_DeepCopyInto lib)),
     (''Conditions'', copy_slice (lib ''Condition''))]"

definition FQDNEgressObservationStatus_DeepCopy :: "(string \<Rightarrow> copier) \<Rightarrow> copier" where
  "FQDNEgressObservationStatus_DeepCopy lib = copy_ptr (FQDNEgressObservationStatus_DeepCopyInto lib)"

definition FQDNNetworkPolicy_DeepCopyInto :: "(string \<Rightarrow> copier) \<Rightarrow> copier" where
  "FQDNNetworkPolicy_DeepCopyInto lib = copy_struct
    [(''TypeMeta'', assign), (''ObjectMeta'', lib ''ObjectMeta''),
     (''Spec'', FQDNNetworkPolicySpec_DeepCopyInto lib), (''Status'', FQDNNetworkPolicyStatus_DeepCopyInto lib)]"

definition FQDNNetworkPolicy_DeepCopy :: "(string \<Rightarrow> copier) \<Rightarrow> copier" where
  "FQDNNetworkPolicy_DeepCopy lib = copy_ptr (FQDNNetworkPolicy_DeepCopyInto lib)"

definition FQDNNetworkPolicyList_DeepCopyInto :: "(string \<Rightarrow> copier) \<Rightarrow> copier" where
  "FQDNNetworkPolicyList_DeepCopyInto lib = copy_struct
    [(''TypeMeta'', assign), (''ListMeta'', lib ''ListMeta''),
     (''Items'', copy_slice (FQDNNetworkPolicy_DeepCopyInto lib))]"

definition FQDNNetworkPolicyList_DeepCopy :: "(string \<Rightarrow> copier) \<Rightarrow> copier" where
  "FQDNNetworkPolicyList_DeepCopy lib = copy_ptr (FQDNNetworkPolicyList_DeepCopyInto lib)"

definition ClusterFQDNNetworkPolicy_DeepCopyInto :: "(string \<Rightarrow> copier) \<Rightarrow> copier" where
  "ClusterFQDNNetworkPolicy_DeepCopyInto lib = copy_struct
    [(''TypeMeta'', assign), (''ObjectMeta'', lib ''ObjectMeta''),
     (''Spec'', ClusterFQDNNetworkPolicySpec_DeepCopyInto lib),
     (''Status'', ClusterFQDNNetworkPolicyStatus_DeepCopyInto lib)]"

definition ClusterFQDNNetworkPolicy_DeepCopy :: "(string \<Rightarrow> copier) \<Rightarrow> copier" where
  "ClusterFQDNNetworkPolicy_DeepCopy lib = copy_ptr (ClusterFQDNNetworkPolicy_DeepCopyInto lib)"

definition ClusterFQDNNetworkPolicyList_DeepCopyInto :: "(string \<Rightarrow> copier) \<Rightarrow> copier" where
  "ClusterFQDNNetworkPolicyList_DeepCopyInto lib = copy_struct
    [(''TypeMeta'', assign), (''ListMeta'', lib ''ListMeta''),
     (''Items'', copy_slice (ClusterFQDNNetworkPolicy_DeepCopyInto lib))]"

definition ClusterFQDNNetworkPolicyList_DeepCopy :: "(string \<Rightarrow> copier) \<Rightarrow> copier" where
  "ClusterFQDNNetworkPolicyList_DeepCopy lib = copy_ptr (ClusterFQDNNetworkPolicyList_DeepCopyInto lib)"

definition FQDNEgressObservation_DeepCopyInto :: "(string \<Rightarrow> copier) \<Rightarrow> copier" where
  "FQDNEgressObservation_DeepCopyInto lib = copy_struct
    [(''TypeMeta'', assign), (''ObjectMeta'', lib ''ObjectMeta''),
     (''Spec'', FQDNEgressObservationSpec_DeepCopyInto lib),
     (''Status'', FQDNEgressObservationStatus_DeepCopyInto lib)]"

definition FQDNEgressObservation_DeepCopy :: "(string \<Rightarrow> copier) \<Rightarrow> copier" where
  "FQDNEgressObservation_DeepCopy lib = copy_ptr (FQDNEgressObservation_DeepCopyInto lib)"

definition FQDNEgressObservationList_DeepCopyInto :: "(string \<Rightarrow> copier) \<Rightarrow> copier" where
  "FQDNEgressObservationList_DeepCopyInto lib = copy_struct
    [(''TypeMeta'', assign), (''ListMeta'', lib ''ListMeta''),
     (''Items'', copy_slice (FQDNEgressObservation_DeepCopyInto lib))]"

definition FQDNEgressObservationList_DeepCopy :: "(string \<Rightarrow> copier) \<Rightarrow> copier" where
  "FQDNEgressObservationList_DeepCopy lib = copy_ptr (FQDNEgressObservationList_DeepCopyInto lib)"

section \<open>DeepCopyObject\<close>

text \<open>The result is an interface value: nil, not a nil pointer in an interface, when there is no object.\<close>

definition as_object :: "go_value \<times> go_heap \<Rightarrow> go_value option \<times> go_heap" where
  "as_object r = (if fst r \<noteq> Nil then Some (fst r) else None, snd r)"

definition FQDNNetworkPolicy_DeepCopyObject :: "(string \<Rightarrow> copier) \<Rightarrow> go_value \<Rightarrow> go_heap \<Rightarrow> go_value option \<times> go_heap" where
  "FQDNNetworkPolicy_DeepCopyObject lib p h = as_object (FQDNNetworkPolicy_DeepCopy lib p h)"

definition FQDNNetworkPolicyList_DeepCopyObject :: "(string \<Rightarrow> copier) \<Rightarrow> go_value \<Rightarrow> go_heap \<Rightarrow> go_value option \<times> go_heap" where
  "FQDNNetworkPolicyList_DeepCopyObject lib p h = as_object (FQDNNetworkPolicyList_DeepCopy lib p h)"

definition ClusterFQDNNetworkPolicy_DeepCopyObject :: "(string \<Rightarrow> copier) \<Rightarrow> go_value \<Rightarrow> go_heap \<Rightarrow> go_value option \<times> go_heap" where
  "ClusterFQDNNetworkPolicy_DeepCopyObject lib p h = as_object (ClusterFQDNNetworkPolicy_DeepCopy lib p h)"

definition ClusterFQDNNetworkPolicyList_DeepCopyObject :: "(string \<Rightarrow> copier) \<Rightarrow> go_value \<Rightarrow> go_heap \<Rightarrow> go_value option \<times> go_heap" where
  "ClusterFQDNNetworkPolicyList_DeepCopyObject lib p h = as_object (ClusterFQDNNetworkPolicyList_DeepCopy lib p h)"

definition FQDNEgressObservation_DeepCopyObject :: "(string \<Rightarrow> copier) \<Rightarrow> go_value \<Rightarrow> go_heap \<Rightarrow> go_value option \<times> go_heap" where
  "FQDNEgressObservation_DeepCopyObject lib p h = as_object (FQDNEgressObservation_DeepCopy lib p h)"

definition FQDNEgressObservationList_DeepCopyObject :: "(string \<Rightarrow> copier) \<Rightarrow> go_value \<Rightarrow> go_heap \<Rightarrow> go_value option \<times> go_heap" where
  "FQDNEgressObservationList_DeepCopyObject lib p h = as_object (FQDNEgressObservationList_DeepCopy lib p h)"

text \<open>Every type of the API with its DeepCopy, and the objects with their DeepCopyObject.\<close>

definition api_copies :: "(string \<Rightarrow> go_type) \<Rightarrow> (string \<Rightarrow> copier) \<Rightarrow> (go_type \<times> copier) list" where
  "api_copies lib_ty lib =
    [(PolicyPort_type lib_ty, PolicyPort_DeepCopy lib), (FQDNRule_type lib_ty, FQDNRule_DeepCopy lib),
     (PodSelectorSpec_type lib_ty, PodSelectorSpec_DeepCopy lib),
     (DNSSecurityMetadata_type lib_ty, DNSSecurityMetadata_DeepCopy lib),
     (IPEnrichment_type lib_ty, IPEnrichment_DeepCopy lib),
     (SecuritySpec_type lib_ty, SecuritySpec_DeepCopy lib),
     (ObservedDomain_type lib_ty, ObservedDomain_DeepCopy lib),
     (ResolvedHost_type lib_ty, ResolvedHost_DeepCopy lib),
     (FQDNNetworkPolicySpec_type lib_ty, FQDNNetworkPolicySpec_DeepCopy lib),
     (FQDNNetworkPolicyStatus_type lib_ty, FQDNNetworkPolicyStatus_DeepCopy lib),
     (ClusterFQDNNetworkPolicySpec_type lib_ty, ClusterFQDNNetworkPolicySpec_DeepCopy lib),
     (ClusterFQDNNetworkPolicyStatus_type lib_ty, ClusterFQDNNetworkPolicyStatus_DeepCopy lib),
     (FQDNEgressObservationSpec_type lib_ty, FQDNEgressObservationSpec_DeepCopy lib),
     (FQDNEgressObservationStatus_type lib_ty, FQDNEgressObservationStatus_DeepCopy lib),
     (FQDNNetworkPolicy_type lib_ty, FQDNNetworkPolicy_DeepCopy lib),
     (FQDNNetworkPolicyList_type lib_ty, FQDNNetworkPolicyList_DeepCopy lib),
     (ClusterFQDNNetworkPolicy_type lib_ty, ClusterFQDNNetworkPolicy_DeepCopy lib),
     (ClusterFQDNNetworkPolicyList_type lib_ty, ClusterFQDNNetworkPolicyList_DeepCopy lib),
     (FQDNEgressObservation_type lib_ty, FQDNEgressObservation_DeepCopy lib),
     (FQDNEgressObservationList_type lib_ty, FQDNEgressObservationList_DeepCopy lib)]"

definition object_copies ::
  "(string \<Rightarrow> go_type) \<Rightarrow> (string \<Rightarrow> copier) \<Rightarrow>
   (go_type \<times> (go_value \<Rightarrow> go_heap \<Rightarrow> go_value option \<times> go_heap) \<times> copier) list" where
  "object_copies lib_ty lib =
    [(FQDNNetworkPolicy_type lib_ty, FQDNNetworkPolicy_DeepCopyObject lib, FQDNNetworkPolicy_DeepCopy lib),
     (FQDNNetworkPolicyList_type lib_ty, FQDNNetworkPolicyList_DeepCopyObject lib, FQDNNetworkPolicyList_DeepCopy lib),
     (ClusterFQDNNetworkPolicy_type lib_ty, ClusterFQDNNetworkPolicy_DeepCopyObject lib, ClusterFQDNNetworkPolicy_DeepCopy lib),
     (ClusterFQDNNetworkPolicyList_type lib_ty, ClusterFQDNNetworkPolicyList_DeepCopyObject lib, ClusterFQDNNetworkPolicyList_DeepCopy lib),
     (FQDNEgressObservation_type lib_ty, FQDNEgressObservation_DeepCopyObject lib, FQDNEgressObservation_DeepCopy lib),
     (FQDNEgressObservationList_type lib_ty, FQDNEgressObservationList_DeepCopyObject lib, FQDNEgressObservationList_DeepCopy lib)]"

lemma ref_free_layouts [simp]:
  "ref_free type_meta" "ref_free (PolicyPort_type lib_ty)"
  by (simp_all add: type_meta_def PolicyPort_type_def)

section \<open>The copies are deep\<close>

locale metav1_copies =
  fixes lib :: "string \<Rightarrow> copier" and lib_ty :: "string \<Rightarrow> go_type"
  assumes lib_deep: "deep (lib_ty n) (lib n)"

context metav1_copies
begin

lemmas copy_rules = deep_assign deep_ptr deep_slice deep_map lib_deep

lemma PolicyPort_deep: "deep (PolicyPort_type lib_ty) (PolicyPort_DeepCopyInto lib)"
  unfolding PolicyPort_type_def PolicyPort_DeepCopyInto_def
  by (rule deep_struct_all) (simp add: field_copier_def copy_rules)

lemma FQDNRule_deep: "deep (FQDNRule_type lib_ty) (FQDNRule_DeepCopyInto lib)"
  unfolding FQDNRule_type_def FQDNRule_DeepCopyInto_def
  by (rule deep_struct_all) (simp add: field_copier_def copy_rules)

lemma PodSelectorSpec_deep: "deep (PodSelectorSpec_type lib_ty) (PodSelectorSpec_DeepCopyInto lib)"
  unfolding PodSelectorSpec_type_def PodSelectorSpec_DeepCopyInto_def
  by (rule deep_struct_all) (simp add: field_copier_def copy_rules)

lemma DNSSecurityMetadata_deep: "deep (DNSSecurityMetadata_type lib_ty) (DNSSecurityMetadata_DeepCopyInto lib)"
  unfolding DNSSecurityMetadata_type_def DNSSecurityMetadata_DeepCopyInto_def
  by (rule deep_struct_all) (simp add: field_copier_def copy_rules)

lemma IPEnrichment_deep: "deep (IPEnrichment_type lib_ty) (IPEnrichment_DeepCopyInto lib)"
  unfolding IPEnrichment_type_def IPEnrichment_DeepCopyInto_def
  by (rule deep_struct_all) (simp add: field_copier_def copy_rules)

lemma SecuritySpec_deep: "deep (SecuritySpec_type lib_ty) (SecuritySpec_DeepCopyInto lib)"
  unfolding SecuritySpec_type_def SecuritySpec_DeepCopyInto_def
  by (rule deep_struct_all) (simp add: field_copier_def copy_rules)

lemma ObservedDomain_deep: "deep (ObservedDomain_type lib_ty) (ObservedDomain_DeepCopyInto lib)"
  unfolding ObservedDomain_type_def ObservedDomain_DeepCopyInto_def
  by (rule deep_struct_all) (simp add: field_copier_def copy_rules)

lemma ResolvedHost_deep: "deep (ResolvedHost_type lib_ty) (ResolvedHost_DeepCopyInto lib)"
  unfolding ResolvedHost_type_def ResolvedHost_DeepCopyInto_def
  by (rule deep_struct_all) (simp add: field_copier_def copy_rules DNSSecurityMetadata_deep IPEnrichment_deep)

lemma FQDNNetworkPolicySpec_deep: "deep (FQDNNetworkPolicySpec_type lib_ty) (FQDNNetworkPolicySpec_DeepCopyInto lib)"
  unfolding FQDNNetworkPolicySpec_type_def FQDNNetworkPolicySpec_DeepCopyInto_def
  by (rule deep_struct_all) (simp add: field_copier_def copy_rules FQDNRule_deep PodSelectorSpec_deep SecuritySpec_deep)

lemma FQDNNetworkPolicyStatus_deep: "deep (FQDNNetworkPolicyStatus_type lib_ty) (FQDNNetworkPolicyStatus_DeepCopyInto lib)"
  unfolding FQDNNetworkPolicyStatus_type_def FQDNNetworkPolicyStatus_DeepCopyInto_def
  by (rule deep_struct_all) (simp add: field_copier_def copy_rules ObservedDomain_deep ResolvedHost_deep)

lemma ClusterFQDNNetworkPolicySpec_deep: "deep (ClusterFQDNNetworkPolicySpec_type lib_ty) (ClusterFQDNNetworkPolicySpec_DeepCopyInto lib)"
  unfolding ClusterFQDNNetworkPolicySpec_type_def ClusterFQDNNetworkPolicySpec_DeepCopyInto_def
  by (rule deep_struct_all) (simp add: field_copier_def copy_rules FQDNRule_deep PodSelectorSpec_deep SecuritySpec_deep)

lemma ClusterFQDNNetworkPolicyStatus_deep: "deep (ClusterFQDNNetworkPolicyStatus_type lib_ty) (ClusterFQDNNetworkPolicyStatus_DeepCopyInto lib)"
  unfolding ClusterFQDNNetworkPolicyStatus_type_def ClusterFQDNNetworkPolicyStatus_DeepCopyInto_def
  by (rule deep_struct_all) (simp add: field_copier_def copy_rules ResolvedHost_deep)

lemma FQDNEgressObservationSpec_deep: "deep (FQDNEgressObservationSpec_type lib_ty) (FQDNEgressObservationSpec_DeepCopyInto lib)"
  unfolding FQDNEgressObservationSpec_type_def FQDNEgressObservationSpec_DeepCopyInto_def
  by (rule deep_struct_all) (simp add: field_copier_def copy_rules PodSelectorSpec_deep)

lemma FQDNEgressObservationStatus_deep: "deep (FQDNEgressObservationStatus_type lib_ty) (FQDNEgressObservationStatus_DeepCopyInto lib)"
  unfolding FQDNEgressObservationStatus_type_def FQDNEgressObservationStatus_DeepCopyInto_def
  by (rule deep_struct_all) (simp add: field_copier_def copy_rules ObservedDomain_deep)

lemma FQDNNetworkPolicy_deep: "deep (FQDNNetworkPolicy_type lib_ty) (FQDNNetworkPolicy_DeepCopyInto lib)"
  unfolding FQDNNetworkPolicy_type_def FQDNNetworkPolicy_DeepCopyInto_def
  by (rule deep_struct_all) (simp add: field_copier_def copy_rules FQDNNetworkPolicySpec_deep FQDNNetworkPolicyStatus_deep)

lemma FQDNNetworkPolicyList_deep: "deep (FQDNNetworkPolicyList_type lib_ty) (FQDNNetworkPolicyList_DeepCopyInto lib)"
  unfolding FQDNNetworkPolicyList_type_def FQDNNetworkPolicyList_DeepCopyInto_def
  by (rule deep_struct_all) (simp add: field_copier_def copy_rules FQDNNetworkPolicy_deep)

lemma ClusterFQDNNetworkPolicy_deep: "deep (ClusterFQDNNetworkPolicy_type lib_ty) (ClusterFQDNNetworkPolicy_DeepCopyInto lib)"
  unfolding ClusterFQDNNetworkPolicy_type_def ClusterFQDNNetworkPolicy_DeepCopyInto_def
  by (rule deep_struct_all) (simp add: field_copier_def copy_rules ClusterFQDNNetworkPolicySpec_deep ClusterFQDNNetworkPolicyStatus_deep)

lemma ClusterFQDNNetworkPolicyList_deep: "deep (ClusterFQDNNetworkPolicyList_type lib_ty) (ClusterFQDNNetworkPolicyList_DeepCopyInto lib)"
  unfolding ClusterFQDNNetworkPolicyList_type_def ClusterFQDNNetworkPolicyList_DeepCopyInto_def
  by (rule deep_struct_all) (simp add: field_copier_def copy_rules ClusterFQDNNetworkPolicy_deep)

lemma FQDNEgressObservation_deep: "deep (FQDNEgressObservation_type lib_ty) (FQDNEgressObservation_DeepCopyInto lib)"
  unfolding FQDNEgressObservation_type_def FQDNEgressObservation_DeepCopyInto_def
  by (rule deep_struct_all) (simp add: field_copier_def copy_rules FQDNEgressObservationSpec_deep FQDNEgressObservationStatus_deep)

lemma FQDNEgressObservationList_deep: "deep (FQDNEgressObservationList_type lib_ty) (FQDNEgressObservationList_DeepCopyInto lib)"
  unfolding FQDNEgressObservationList_type_def FQDNEgressObservationList_DeepCopyInto_def
  by (rule deep_struct_all) (simp add: field_copier_def copy_rules FQDNEgressObservation_deep)

end

section \<open>The library's copies\<close>

text \<open>
  The layouts of the metav1 structs, as apimachinery documents them, and the copy that follows a layout. Such
  a copy is deep, so the requirement on the library can be met.
\<close>

fun copy_at :: "go_type \<Rightarrow> copier" and copy_at_fields :: "(string \<times> go_type) list \<Rightarrow> (string \<times> copier) list" where
  "copy_at TScalar = assign"
| "copy_at (TPtr ty) = copy_ptr (copy_at ty)"
| "copy_at (TSlice ty) = copy_slice (copy_at ty)"
| "copy_at (TMap ty) = copy_map (copy_at ty)"
| "copy_at (TStruct fts) = copy_struct (copy_at_fields fts)"
| "copy_at_fields [] = []"
| "copy_at_fields ((f, ty) # fts) = (f, copy_at ty) # copy_at_fields fts"

fun wf_type :: "go_type \<Rightarrow> bool" and wf_fields :: "(string \<times> go_type) list \<Rightarrow> bool" where
  "wf_type TScalar = True"
| "wf_type (TPtr ty) = wf_type ty"
| "wf_type (TSlice ty) = wf_type ty"
| "wf_type (TMap ty) = wf_type ty"
| "wf_type (TStruct fts) = wf_fields fts"
| "wf_fields [] = True"
| "wf_fields ((f, ty) # fts) = (wf_type ty \<and> f \<notin> fst ` set fts \<and> wf_fields fts)"

lemma copy_at_deep:
  "wf_type ty \<Longrightarrow> deep ty (copy_at ty)"
  "wf_fields fts \<Longrightarrow> list_all (\<lambda>(f, ty). deep ty (field_copier (copy_at_fields fts) f)) fts"
proof (induction ty and fts rule: copy_at_copy_at_fields.induct)
  case (5 fts)
  then show ?case by (simp add: deep_struct_all)
next
  case (7 f ty fts)
  have "deep ty' (field_copier (copy_at_fields ((f, ty) # fts)) g)" if "(g, ty') \<in> set fts" for g ty'
  proof -
    from that "7.prems" have "g \<noteq> f" by force
    then have "field_copier (copy_at_fields ((f, ty) # fts)) g = field_copier (copy_at_fields fts) g"
      by (simp add: field_copier_def)
    with "7.IH"(2) "7.prems" that show ?thesis by (auto simp: list_all_iff)
  qed
  moreover have "deep ty (field_copier (copy_at_fields ((f, ty) # fts)) f)"
    using "7.IH"(1) "7.prems" by (simp add: field_copier_def)
  ultimately show ?case by (auto simp: list_all_iff)
qed (simp_all add: deep_assign deep_ptr deep_slice deep_map)

definition owner_reference_type :: go_type where
  "owner_reference_type = TStruct [(''APIVersion'', TScalar), (''Kind'', TScalar), (''Name'', TScalar),
     (''UID'', TScalar), (''Controller'', TPtr TScalar), (''BlockOwnerDeletion'', TPtr TScalar)]"

definition managed_fields_type :: go_type where
  "managed_fields_type = TStruct [(''Manager'', TScalar), (''Operation'', TScalar), (''APIVersion'', TScalar),
     (''Time'', TPtr TScalar), (''FieldsType'', TScalar),
     (''FieldsV1'', TPtr (TStruct [(''Raw'', TSlice TScalar)])), (''Subresource'', TScalar)]"

definition object_meta_type :: go_type where
  "object_meta_type = TStruct [(''Name'', TScalar), (''GenerateName'', TScalar), (''Namespace'', TScalar),
     (''SelfLink'', TScalar), (''UID'', TScalar), (''ResourceVersion'', TScalar), (''Generation'', TScalar),
     (''CreationTimestamp'', TScalar), (''DeletionTimestamp'', TPtr TScalar),
     (''DeletionGracePeriodSeconds'', TPtr TScalar), (''Labels'', TMap TScalar), (''Annotations'', TMap TScalar),
     (''OwnerReferences'', TSlice owner_reference_type), (''Finalizers'', TSlice TScalar),
     (''ManagedFields'', TSlice managed_fields_type)]"

definition list_meta_type :: go_type where
  "list_meta_type = TStruct [(''SelfLink'', TScalar), (''ResourceVersion'', TScalar), (''Continue'', TScalar),
     (''RemainingItemCount'', TPtr TScalar)]"

definition label_selector_type :: go_type where
  "label_selector_type = TStruct [(''MatchLabels'', TMap TScalar), (''MatchExpressions'',
     TSlice (TStruct [(''Key'', TScalar), (''Operator'', TScalar), (''Values'', TSlice TScalar)]))]"

definition condition_type :: go_type where
  "condition_type = TStruct [(''Type'', TScalar), (''Status'', TScalar), (''ObservedGeneration'', TScalar),
     (''LastTransitionTime'', TScalar), (''Reason'', TScalar), (''Message'', TScalar)]"

definition metav1_type :: "string \<Rightarrow> go_type" where
  "metav1_type n =
     (if n = ''ObjectMeta'' then object_meta_type
      else if n = ''ListMeta'' then list_meta_type
      else if n = ''LabelSelector'' then label_selector_type
      else if n = ''Condition'' then condition_type
      else TScalar)"

lemma metav1_wf: "wf_type (metav1_type n)"
  by (simp add: metav1_type_def object_meta_type_def owner_reference_type_def managed_fields_type_def
      list_meta_type_def label_selector_type_def condition_type_def)

definition metav1_copy :: "string \<Rightarrow> copier" where
  "metav1_copy n = copy_at (metav1_type n)"

interpretation metav1: metav1_copies metav1_copy metav1_type
  by unfold_locales (simp add: metav1_copy_def copy_at_deep(1) metav1_wf)

text \<open>DeepCopyObject of nil is no object, and of a pointer to something an object.\<close>

lemma copy_ptr_ref: "fst (copy_ptr c (Ref a) h) \<noteq> Nil"
  by (auto simp: copy_ptr_def alloc_def Let_def split: option.split go_cell.split prod.split)

lemma object_copies_nil:
  "list_all (\<lambda>(ty, obj, copy). obj Nil h = (None, h) \<and> fst (obj (Ref a) h) = Some (fst (copy (Ref a) h)))
     (object_copies lib_ty lib)"
  by (simp add: object_copies_def as_object_def 
      FQDNNetworkPolicy_DeepCopyObject_def FQDNNetworkPolicyList_DeepCopyObject_def ClusterFQDNNetworkPolicy_DeepCopyObject_def
      ClusterFQDNNetworkPolicyList_DeepCopyObject_def FQDNEgressObservation_DeepCopyObject_def FQDNEgressObservationList_DeepCopyObject_def
      FQDNNetworkPolicy_DeepCopy_def FQDNNetworkPolicyList_DeepCopy_def ClusterFQDNNetworkPolicy_DeepCopy_def
      ClusterFQDNNetworkPolicyList_DeepCopy_def FQDNEgressObservation_DeepCopy_def FQDNEgressObservationList_DeepCopy_def
      copy_ptr_ref) (simp add: copy_ptr_def)

section \<open>Properties\<close>

context metav1_copies
begin

lemma api_copies_deep: "list_all (\<lambda>(ty, copy). deep (TPtr ty) copy) (api_copies lib_ty lib)"
  by (simp add: api_copies_def deep_ptr
      PolicyPort_DeepCopy_def FQDNRule_DeepCopy_def PodSelectorSpec_DeepCopy_def
      DNSSecurityMetadata_DeepCopy_def IPEnrichment_DeepCopy_def SecuritySpec_DeepCopy_def
      ObservedDomain_DeepCopy_def ResolvedHost_DeepCopy_def FQDNNetworkPolicySpec_DeepCopy_def
      FQDNNetworkPolicyStatus_DeepCopy_def ClusterFQDNNetworkPolicySpec_DeepCopy_def
      ClusterFQDNNetworkPolicyStatus_DeepCopy_def FQDNEgressObservationSpec_DeepCopy_def
      FQDNEgressObservationStatus_DeepCopy_def FQDNNetworkPolicy_DeepCopy_def
      FQDNNetworkPolicyList_DeepCopy_def ClusterFQDNNetworkPolicy_DeepCopy_def
      ClusterFQDNNetworkPolicyList_DeepCopy_def FQDNEgressObservation_DeepCopy_def
      FQDNEgressObservationList_DeepCopy_def
      PolicyPort_deep FQDNRule_deep PodSelectorSpec_deep DNSSecurityMetadata_deep IPEnrichment_deep
      SecuritySpec_deep ObservedDomain_deep ResolvedHost_deep FQDNNetworkPolicySpec_deep
      FQDNNetworkPolicyStatus_deep ClusterFQDNNetworkPolicySpec_deep ClusterFQDNNetworkPolicyStatus_deep
      FQDNEgressObservationSpec_deep FQDNEgressObservationStatus_deep FQDNNetworkPolicy_deep
      FQDNNetworkPolicyList_deep ClusterFQDNNetworkPolicy_deep ClusterFQDNNetworkPolicyList_deep
      FQDNEgressObservation_deep FQDNEgressObservationList_deep)

end

text \<open>C9. A deep copy shares nothing with the original. Whatever type of the API: DeepCopy of a pointer to a value
  of it leaves the original as it is and gives a pointer to an equal value, and afterwards writing anything to
  any variable, array or map of the copy changes nothing of the original, and the other way round. (The copies
  of the metav1 structs inside are required to be deep.)\<close>

theorem deep_copy_independent:
  assumes "\<forall>n. deep (lib_ty n) (lib n)"
    and "(ty, copy) \<in> set (api_copies lib_ty lib)" and "heap_ok h"
    and "read (TPtr ty) (hp_cells h) p = Some t" and "copy p h = (q, h')"
  shows "read (TPtr ty) (hp_cells h') p = Some t \<and> read (TPtr ty) (hp_cells h') q = Some t \<and>
    (\<forall>a c. a \<in> foot (TPtr ty) (hp_cells h') q \<longrightarrow> read (TPtr ty) ((hp_cells h')(a := c)) p = Some t) \<and>
    (\<forall>a c. a \<in> foot (TPtr ty) (hp_cells h') p \<longrightarrow> read (TPtr ty) ((hp_cells h')(a := c)) q = Some t)"
proof -
  have "metav1_copies lib lib_ty" using assms(1) by unfold_locales simp
  then have d: "deep (TPtr ty) copy" using metav1_copies.api_copies_deep [of lib lib_ty] assms(2) by (auto simp: list_all_iff)
  note I = deep_independent [OF d assms(3-5)]
  have w: "read (TPtr ty) ((hp_cells h')(a := c)) v = Some t"
    if "read (TPtr ty) (hp_cells h') v = Some t" "a \<notin> foot (TPtr ty) (hp_cells h') v" for v a c
    using read_frame(1) [of "TPtr ty" "hp_cells h'" v "(hp_cells h')(a := c)"] that by auto
  from I(1) I(2) w [of p] w [of q] show ?thesis by blast
qed

text \<open>A rule with one port, and its copy.\<close>

definition sample_rule_heap :: go_heap where
  "sample_rule_heap = \<lparr>hp_cells = [0 \<mapsto> Arr [Struct [(''Protocol'', Scalar (Text ''TCP'')), (''Port'', Scalar (Num 443))]],
     1 \<mapsto> Var (Struct [(''Match'', Scalar (Text ''a.io'')), (''Ports'', Ref 0)])], hp_next = 2\<rparr>"

lemma sample_rule_copy:
  "heap_ok sample_rule_heap"
  "read (TPtr (FQDNRule_type metav1_type)) (hp_cells sample_rule_heap) (Ref 1) = Some (Boxed (Fields
     [(''Match'', Leaf (Text ''a.io'')),
      (''Ports'', Items [Fields [(''Protocol'', Leaf (Text ''TCP'')), (''Port'', Leaf (Num 443))]])]))"
  "\<exists>h'. FQDNRule_DeepCopy metav1_copy (Ref 1) sample_rule_heap = (Ref 3, h') \<and>
     0 \<in> foot (TPtr (FQDNRule_type metav1_type)) (hp_cells h') (Ref 1)"
  by (auto simp: sample_rule_heap_def heap_ok_def FQDNRule_type_def PolicyPort_type_def FQDNRule_DeepCopy_def
      FQDNRule_DeepCopyInto_def copy_ptr_def copy_struct_def copy_fields_Cons field_copier_def copy_slice_def
      assign_def alloc_def)

lemma deep_copy_independent_witness:
  "\<exists>h'. FQDNRule_DeepCopy metav1_copy (Ref 1) sample_rule_heap = (Ref 3, h') \<and>
     read (TPtr (FQDNRule_type metav1_type)) ((hp_cells h')(0 := None)) (Ref 3) \<noteq> None"
proof -
  from sample_rule_copy(3) obtain h' where c: "FQDNRule_DeepCopy metav1_copy (Ref 1) sample_rule_heap = (Ref 3, h')"
    and f: "0 \<in> foot (TPtr (FQDNRule_type metav1_type)) (hp_cells h') (Ref 1)" by blast
  have m: "(FQDNRule_type metav1_type, FQDNRule_DeepCopy metav1_copy) \<in> set (api_copies metav1_type metav1_copy)"
    by (simp add: api_copies_def)
  have "\<forall>n. deep (metav1_type n) (metav1_copy n)" using metav1.lib_deep by blast
  note I = deep_copy_independent [OF this m sample_rule_copy(1,2) c]
  from I [THEN conjunct2, THEN conjunct2, THEN conjunct2, rule_format, OF f]
  have "read (TPtr (FQDNRule_type metav1_type)) ((hp_cells h')(0 := None)) (Ref 3) \<noteq> None"
    by (simp only: option.distinct not_False_eq_True)
  with c show ?thesis by blast
qed

end
