(* ===== verification/Spec2Isabelle.thy ===== *)
theory Spec2Isabelle
  imports Plugin SnoopWorld ClusterReach Metrics WildcardResolver EnrichPool DeepCopy
begin

text \<open>
  A model of the FQDN network policy controller and of its kubectl plugin.

  \<^bold>\<open>The program.\<close> A FQDNNetworkPolicy names hosts instead of addresses. The controller resolves the names
  again and again, filters the addresses and keeps a Kubernetes NetworkPolicy that allows egress to them; a
  ClusterFQDNNetworkPolicy fans out one such NetworkPolicy into every matching namespace. The addresses come
  from one of three resolvers: plain DNS, the union over several upstream servers, or a recording DNS proxy
  that pods query, whose records also feed the FQDNEgressObservation objects and the list of observed
  domains that no policy covers. An admission webhook rejects malformed policies. The plugin previews a
  policy, compares it with the cluster, suggests a policy for what is not covered, synthesizes one from an
  observation and simulates one against an observation.

  \<^bold>\<open>Theories and code.\<close>
  \<^item> GoLib, GoFmt, GoRegexp, NetIP: the parts of the Go standard library the code uses (byte strings and
    package strings, maps, the clock, fmt verbs, anchored regular expressions, package net). A Go map is an
    association list with distinct keys; where the order of a range over a map can show, it is an argument
    \<open>ord\<close> with \<open>range_order ord\<close>. Time is an integer number of nanoseconds; int32 and TTLs are words.
  \<^item> ApiTypes: api/v1alpha1, one record per struct, and the condition lists of the three statuses (locale
    \<open>condition_store\<close>, interpreted on the setters of the three controllers).
  \<^item> IpFilter: internal/controller/ip\_filter.go. NetPol: internal/netpol, with the documented meaning of
    egress rules (\<open>egress_allows\<close>) as specification of Build. Divergence, Drift: resolver\_divergence.go and
    drift.go of internal/controller. Enrich: internal/enrich and internal/controller/enrichment.go;
    EnrichPool: its worker goroutines as a state machine whose events interleave (\<open>pool_step\<close>).
  \<^item> internal/dns: TtlQueue (ttl\_queue.go with container/heap; locales \<open>heap_interface\<close> and
    \<open>refresh_schedule\<close>), IpCache, ChurnTracker, ObservationStore, and the resolvers Resolver (resolver.go, with
    the locale \<open>resolver\<close> for the interface), MultiResolver, SnoopResolver, WildcardResolver, each an
    interpretation of that locale. SnoopServer: the life of the DNS proxy's server.
  \<^item> HostLoop: the loop over the rules that both policy controllers have. Reconcile, ClusterReconcile,
    ObsReconcile: the three controllers, one function \<open>Reconcile\<close> each from the controller's state and an
    environment (answers of the API server, clock, network) to the result, the log of effects in order
    (writes, events, metrics) and the new state. Metrics: internal/metrics/metrics.go.
  \<^item> Webhook: internal/webhook/validate.go. ProfFilter, ProfCluster, ProfSimulate, ProfSynthesize:
    internal/profiler (filter.go and classifier.go, cluster.go, simulator.go, synthesizer.go).
  \<^item> MainWiring: cmd/main.go, the choice of the resolver (\<open>wired_resolver\<close>, again a \<open>resolver\<close>) and the
    objects the controllers share. PluginHelpers, Plugin: cmd/kubectl-fqdn\_policy/main.go.
  \<^item> PolicyWorld: the composition over time: one stored policy, its NetworkPolicy and the shared state of the
    process, stepped by reconciles, edits, proxied queries, restarts and removals (\<open>reachable\<close>). SnoopWorld:
    the path of an address from a pod's query through the DNS proxy to the NetworkPolicy. ClusterWorld: one
    cluster policy and the NetworkPolicies of all namespaces, and the watches of the three controllers;
    ClusterReach: its runs (\<open>cluster_reachable\<close>).
  \<^item> GoHeap: variables, arrays and maps on a heap of cells, and what makes a copy deep. DeepCopy:
    api/v1alpha1/zz\_generated.deepcopy.go, every function of it, with the layouts of the structs (locale
    \<open>metav1_copies\<close> for the copies of the metav1 structs inside them).

  \<^bold>\<open>What the lemmas show.\<close>
  \<^item> The NetworkPolicy: Build admits exactly DNS and the resolved addresses on the pooled ports; when this is
    what the rules ask for, and when not (ports are pooled, a host without addresses opens egress).
  \<^item> The filters: which addresses pass, that the default blocks every private, loopback and link-local
    address, and that consensus keeps exactly the addresses enough resolvers returned.
  \<^item> The stores: the heap with its index refines a map from hostname to refresh time; the cache returns what
    was recorded and has not expired; the churn ring counts the addresses of ten cycles; the observation
    store prunes exactly what is past retention.
  \<^item> The resolvers: the answer of each on every branch, and the contract all of them keep (TTL between 5 and
    300 seconds, printed addresses).
  \<^item> The controllers: what is written, in which mode, and what the status says; when the next reconcile
    comes; which policies garbage collection deletes, and where a failed delete stops it; that over any run of
    observation reconciles (\<open>obs_run\<close>) queries are counted once as long as status writes succeed, and what is
    lost when one fails.
  \<^item> The world: no reachable NetworkPolicy opens a blocked address; the NetworkPolicy a reconcile leaves, field by
    field (one that already has exactly the wanted CIDRs is not touched), and that a second one changes
    nothing but the status; what the proxy told a pod is admitted by the next reconcile.
  \<^item> The cluster: no reachable fan-out opens a blocked address; what a reconcile of a cluster policy makes of
    the NetworkPolicies of all namespaces, exactly; that it touches no others, whatever fails; and where the
    names, the label, the owner references and the watches fall short of keeping its NetworkPolicies apart.
  \<^item> The deep copies: a copy equals its original and no write to one shows in the other.
  \<^item> Webhook, profiler and plugin: the expression for names decides a grammar; what is admitted; the
    simulation partitions the observed names; a synthesized policy has no blast radius and is admitted; the
    plugin's filter compared with the controller's; a suggested policy covers exactly the drift.

  \<^bold>\<open>Bounds and termination.\<close> Every definition is total; no fuel is used. The loops of container/heap and of
  the address parser terminate by a measure, all others are structural. A call that may fail returns a sum
  or an option. The unbounded processes are relations on runs: the controllers (\<open>reachable\<close>,
  \<open>cluster_reachable\<close>), and the enrichment workers (\<open>pool_run\<close>), which stop within 780 steps of Close,
  three for each of the 256 queued requests and of the 4 workers. The query counts of observed domains (int64)
  are unbounded integers; they would wrap after 2^63 queries.
  Reconciles of one controller are taken one after another, as controller-runtime runs them for one
  object with one worker; the concurrent queries inside a resolver are steps in an arrival order that the
  environment chooses.

  \<^bold>\<open>Environment.\<close> The DNS library and the network (\<open>dns_net\<close>), the API server and its client, label selectors
  of apimachinery, encoding/json and YAML, HTTP, Prometheus, cobra and the kubeconfig are arguments of the
  definitions that use them. Hypotheses on them are stated in the theorems: the clock does not run backwards,
  a range over a map visits every key once, addresses in a stored status are printed addresses. An A or AAAA
  record of a DNS answer always carries an address (one with empty RDATA cannot be written as a \<open>dns_rr\<close>).

  \<^bold>\<open>Not modelled.\<close> tools/tools.go pins a build tool. The registration of the types with a scheme, the sockets
  of the DNS proxy, the HTTP servers, signal handling, log lines, and the construction of the Kubernetes
  client (buildK8sClient, but for the path of the kubeconfig) only call libraries. The records of ApiTypes
  are values; that the controllers may change the objects they were given rests on the deep copies, which
  DeepCopy treats. Lower-casing and trimming are those of ASCII text, which host names, labels and flags are.
\<close>

end
